(* ===== verification/Prelude.thy ===== *)
theory Prelude
  imports Main "HOL-Library.Word" "HOL-Library.Monad_Syntax"
begin

text \<open>
  Shared vocabulary of the development: the C integer types as words, the theorem
  collections the component theories feed and use, the little-endian byte order of the
  host together with \<open>htons\<close>/\<open>ntohs\<close>/\<open>htonl\<close>/\<open>ntohl\<close>, and the small facts on
  words, nibbles and options that the component proofs share.

  Conventions used everywhere:
  \<^item> a C \<open>uintN_t\<close> is an \<open>N word\<close>, so additions wrap;
  \<^item> a C \<open>int\<close> that holds a length, an offset or a return value is an \<open>int\<close>; all such
    values are sums and differences of 16-bit quantities, far from the 32-bit limits;
  \<^item> an operation that touches memory returns an \<open>option\<close>: \<open>None\<close> is undefined
    behaviour of the C program (an access outside the object, through \<open>NULL\<close> or to a
    freed block), \<open>Some\<close> carries the results and the updated state. A theorem that an
    operation is \<open>Some\<close> is therefore a memory-safety statement.
\<close>

unbundle bit_operations_syntax

section \<open>C integer types and theorem collections\<close>

type_synonym byte = "8 word"
type_synonym u16 = "16 word"
type_synonym u32 = "32 word"
type_synonym u64 = "64 word"

type_synonym buffer = "byte list"

named_theorems mem_simps "reads and writes of byte buffers"
named_theorems word_bounds "bounds of the words read from a header"
named_theorems op_simps "total characterisations of the operations on valid states"

section \<open>Host byte order\<close>

text \<open>
  The program runs on a little-endian host (x86-64 or AArch64 Linux): a \<open>uint16_t\<close> read
  through a pointer takes its low byte from the lower address.
\<close>

definition byte_of :: "nat \<Rightarrow> 'a::len word \<Rightarrow> byte" where
  "byte_of k w = ucast (drop_bit (8 * k) w)"

definition le16 :: "byte \<Rightarrow> byte \<Rightarrow> u16" where
  "le16 b0 b1 = ucast b0 OR push_bit 8 (ucast b1)"

definition le32 :: "byte \<Rightarrow> byte \<Rightarrow> byte \<Rightarrow> byte \<Rightarrow> u32" where
  "le32 b0 b1 b2 b3 =
     ucast b0 OR push_bit 8 (ucast b1) OR push_bit 16 (ucast b2) OR push_bit 24 (ucast b3)"

text \<open>\<open>htons\<close> and \<open>ntohs\<close> are the same byte swap on such a host, and so are the 32-bit ones.\<close>

definition htons :: "u16 \<Rightarrow> u16" where
  "htons w = le16 (byte_of 1 w) (byte_of 0 w)"

definition htonl :: "u32 \<Rightarrow> u32" where
  "htonl w = le32 (byte_of 3 w) (byte_of 2 w) (byte_of 1 w) (byte_of 0 w)"

abbreviation (input) ntohs :: "u16 \<Rightarrow> u16" where "ntohs \<equiv> htons"
abbreviation (input) ntohl :: "u32 \<Rightarrow> u32" where "ntohl \<equiv> htonl"

lemma byte_bit_ge [simp]: "8 \<le> n \<Longrightarrow> \<not> bit (a::byte) n"
  using bit_imp_le_length [of a n] by auto

lemma byte_of_le16 [simp]:
  "byte_of 0 (le16 a b) = a"
  "byte_of (Suc 0) (le16 a b) = b"
  by (auto intro!: bit_word_eqI simp: byte_of_def le16_def bit_simps)

lemma le16_byte_of [simp]: "le16 (byte_of 0 w) (byte_of (Suc 0) w) = w"
  by (auto intro!: bit_word_eqI simp: byte_of_def le16_def bit_simps)

lemma byte_of_le32 [simp]:
  "byte_of 0 (le32 a b c d) = a"
  "byte_of (Suc 0) (le32 a b c d) = b"
  "byte_of 2 (le32 a b c d) = c"
  "byte_of 3 (le32 a b c d) = d"
  by (auto intro!: bit_word_eqI simp: byte_of_def le32_def bit_simps)

lemma le32_byte_of [simp]:
  "le32 (byte_of 0 w) (byte_of (Suc 0) w) (byte_of 2 w) (byte_of 3 w) = w"
proof (rule bit_word_eqI)
  fix n
  assume "n < LENGTH(32)"
  then consider "n < 8" | "8 \<le> n \<and> n < 16" | "16 \<le> n \<and> n < 24" | "24 \<le> n \<and> n < 32"
    by force
  then show "bit (le32 (byte_of 0 w) (byte_of (Suc 0) w) (byte_of 2 w) (byte_of 3 w)) n = bit w n"
    by cases (auto simp: byte_of_def le32_def bit_simps)
qed

lemma htons_htons [simp]: "htons (htons w) = w"
  by (simp add: htons_def)

lemma htonl_htonl [simp]: "htonl (htonl w) = w"
  by (simp add: htonl_def)

lemma htons_eq_iff [simp]: "htons v = htons w \<longleftrightarrow> v = w"
  by (metis htons_htons)

lemma htonl_eq_iff [simp]: "htonl v = htonl w \<longleftrightarrow> v = w"
  by (metis htonl_htonl)

lemma unat_byte_less [word_bounds, simp]: "unat (a::byte) < 256"
  using unsigned_less [of a] by simp

lemma unat_u16_less [word_bounds, simp]: "unat (a::u16) < 65536"
  using unsigned_less [of a] by simp

lemma unat_u32_less [word_bounds]: "unat (a::u32) < 4294967296"
  using unsigned_less [of a] by simp

lemma unat_le16: "unat (le16 a b) = unat a + 256 * unat b"
proof -
  have "le16 a b = ucast a + push_bit 8 (ucast b)"
    unfolding le16_def by (rule disjunctive_add [symmetric]) (auto simp: bit_simps)
  moreover have "unat (ucast a :: u16) = unat a" "unat (ucast b :: u16) = unat b"
    by (simp_all add: unsigned_ucast_eq take_bit_nat_eq_self unat_byte_less [THEN less_trans])
  ultimately show ?thesis
    using unat_byte_less [of a] unat_byte_less [of b]
    by (simp add: unat_word_ariths push_bit_eq_mult del: unat_byte_less)
qed

section \<open>Nibbles\<close>

text \<open>
  Both headers keep their own length, in 32-bit units, in one nibble of a byte: the low
  one of \<open>version_ihl\<close>, the high one of \<open>data_offset\<close>.
\<close>

definition hlen_low :: "byte \<Rightarrow> int" where
  "hlen_low v = uint (v AND 0xf) * 4"

definition hlen_high :: "byte \<Rightarrow> int" where
  "hlen_high v = uint (drop_bit 4 v) * 4"

lemma hlen_low_bounds [word_bounds]: "0 \<le> hlen_low v" "hlen_low v \<le> 60"
  using and_mask_lt_2p [of v 4] by (simp_all add: hlen_low_def mask_numeral)

lemma hlen_high_bounds [word_bounds]: "0 \<le> hlen_high v" "hlen_high v \<le> 60"
proof -
  have "uint (drop_bit 4 v) = uint v div 16"
    by (simp add: uint_div drop_bit_eq_div)
  moreover have "uint v < 256"
    using uint_lt2p [of v] by simp
  ultimately show "0 \<le> hlen_high v" "hlen_high v \<le> 60"
    by (simp_all add: hlen_high_def pos_imp_zdiv_nonneg_iff)
qed

lemma hlen_low_dvd: "4 dvd hlen_low v"
  by (simp add: hlen_low_def)

lemma hlen_high_dvd: "4 dvd hlen_high v"
  by (simp add: hlen_high_def)

text \<open>Writing back \<open>(hlen / 4) << 4\<close> keeps the high nibble and clears the low one.\<close>

definition set_hlen_high :: "int \<Rightarrow> byte" where
  "set_hlen_high h = push_bit 4 (word_of_int (h div 4))"

lemma set_hlen_high_eq: "set_hlen_high (hlen_high v) = v AND 0xf0"
proof -
  have "set_hlen_high (hlen_high v) = push_bit 4 (drop_bit 4 v)"
    by (simp add: set_hlen_high_def hlen_high_def)
  also have "\<dots> = v AND 0xf0"
  proof (rule bit_word_eqI)
    fix n
    assume n: "n < LENGTH(8)"
    have "bit (0xf0 :: byte) n \<longleftrightarrow> 4 \<le> n"
    proof -
      from n consider "n = 0" | "n = 1" | "n = 2" | "n = 3" | "n = 4" | "n = 5" | "n = 6" | "n = 7"
        by fastforce
      then show ?thesis by cases simp_all
    qed
    with n show "bit (push_bit 4 (drop_bit 4 v)) n = bit (v AND 0xf0) n"
      by (auto simp: bit_simps)
  qed
  finally show ?thesis .
qed

lemma hlen_high_set [simp]: "hlen_high (set_hlen_high (hlen_high v)) = hlen_high v"
proof -
  have "drop_bit 4 (push_bit 4 (drop_bit 4 v)) = drop_bit 4 v"
  proof (rule bit_word_eqI)
    fix n
    show "bit (drop_bit 4 (push_bit 4 (drop_bit 4 v))) n = bit (drop_bit 4 v) n"
      using byte_bit_ge [of "4 + n" v] by (cases "n < 4") (auto simp: bit_simps)
  qed
  then show ?thesis
    by (simp add: set_hlen_high_def hlen_high_def)
qed

section \<open>Live cells of a heap\<close>

text \<open>The number of live cells of a heap that hands out the addresses 1 to \<open>n\<close>.\<close>

definition live_cells :: "(nat \<rightharpoonup> 'a) \<Rightarrow> nat \<Rightarrow> nat" where
  "live_cells m n = length (filter (\<lambda>p. m p \<noteq> None) [1..<n + 1])"

lemma live_cells_card:
  assumes "\<forall>p \<in> dom m. 0 < p \<and> p \<le> n"
  shows "live_cells m n = card (dom m)"
proof -
  have "set (filter (\<lambda>p. m p \<noteq> None) [1..<n + 1]) = dom m"
    using assms by (fastforce simp del: upt_Suc simp: Suc_le_eq less_Suc_eq_le)
  moreover have "distinct (filter (\<lambda>p. m p \<noteq> None) [1..<n + 1])" by simp
  ultimately show ?thesis
    unfolding live_cells_def by (metis distinct_card)
qed

end
