(* ===== verification/Memory.thy ===== *)
theory Memory
  imports Prelude
begin

text \<open>
  The packet buffer as the C program sees it: an array of bytes, read and written through
  overlaid structs. A pointer into the buffer is an index, so \<open>(TCP *) (buf + offset)\<close> is
  the index \<open>offset\<close> and \<open>tcp->seq_num\<close> the 32-bit access at \<open>offset + 4\<close>. Every access
  is checked against the bounds of the array and is \<open>None\<close> outside them. The total
  functions \<open>peek\<close> and \<open>poke\<close> are the accesses with the check already done; the locale
  \<open>buffer_cell\<close> states what an access of one width promises, \<open>cell_pair\<close> derives that
  disjoint accesses of any two widths do not interfere, and both are interpreted on the
  8, 16 and 32-bit accesses.
\<close>

section \<open>Checked accesses\<close>

definition in_range :: "buffer \<Rightarrow> int \<Rightarrow> int \<Rightarrow> bool" where
  "in_range b i n \<longleftrightarrow> 0 \<le> i \<and> i + n \<le> int (length b)"

definition peek8 :: "buffer \<Rightarrow> int \<Rightarrow> byte" where
  "peek8 b i = b ! nat i"

definition peek16 :: "buffer \<Rightarrow> int \<Rightarrow> u16" where
  "peek16 b i = le16 (b ! nat i) (b ! nat (i + 1))"

definition peek32 :: "buffer \<Rightarrow> int \<Rightarrow> u32" where
  "peek32 b i = le32 (b ! nat i) (b ! nat (i + 1)) (b ! nat (i + 2)) (b ! nat (i + 3))"

definition poke8 :: "buffer \<Rightarrow> int \<Rightarrow> byte \<Rightarrow> buffer" where
  "poke8 b i v = b[nat i := v]"

definition poke16 :: "buffer \<Rightarrow> int \<Rightarrow> u16 \<Rightarrow> buffer" where
  "poke16 b i v = b[nat i := byte_of 0 v, nat (i + 1) := byte_of 1 v]"

definition poke32 :: "buffer \<Rightarrow> int \<Rightarrow> u32 \<Rightarrow> buffer" where
  "poke32 b i v = b[nat i := byte_of 0 v, nat (i + 1) := byte_of 1 v,
                    nat (i + 2) := byte_of 2 v, nat (i + 3) := byte_of 3 v]"

definition load8 :: "buffer \<Rightarrow> int \<Rightarrow> byte option" where
  "load8 b i = (if in_range b i 1 then Some (peek8 b i) else None)"

definition load16 :: "buffer \<Rightarrow> int \<Rightarrow> u16 option" where
  "load16 b i = (if in_range b i 2 then Some (peek16 b i) else None)"

definition load32 :: "buffer \<Rightarrow> int \<Rightarrow> u32 option" where
  "load32 b i = (if in_range b i 4 then Some (peek32 b i) else None)"

definition store8 :: "buffer \<Rightarrow> int \<Rightarrow> byte \<Rightarrow> buffer option" where
  "store8 b i v = (if in_range b i 1 then Some (poke8 b i v) else None)"

definition store16 :: "buffer \<Rightarrow> int \<Rightarrow> u16 \<Rightarrow> buffer option" where
  "store16 b i v = (if in_range b i 2 then Some (poke16 b i v) else None)"

definition store32 :: "buffer \<Rightarrow> int \<Rightarrow> u32 \<Rightarrow> buffer option" where
  "store32 b i v = (if in_range b i 4 then Some (poke32 b i v) else None)"

text \<open>
  \<open>memcpy(d + i, s + j, n)\<close> between two different arrays. A negative \<open>n\<close> becomes a huge
  \<open>size_t\<close> and leaves both arrays.
\<close>

definition bytes_at :: "buffer \<Rightarrow> int \<Rightarrow> int \<Rightarrow> buffer" where
  "bytes_at b i n = take (nat n) (drop (nat i) b)"

definition blit :: "buffer \<Rightarrow> int \<Rightarrow> buffer \<Rightarrow> int \<Rightarrow> int \<Rightarrow> buffer" where
  "blit d i s j n = take (nat i) d @ bytes_at s j n @ drop (nat (i + n)) d"

definition memcpy :: "buffer \<Rightarrow> int \<Rightarrow> buffer \<Rightarrow> int \<Rightarrow> int \<Rightarrow> buffer option" where
  "memcpy d i s j n =
     (if 0 \<le> n \<and> in_range d i n \<and> in_range s j n then Some (blit d i s j n) else None)"

lemma in_range_length: "length b = length c \<Longrightarrow> in_range b i n = in_range c i n"
  by (simp add: in_range_def)

section \<open>The contract of one access width\<close>

text \<open>
  \<open>peek\<close> depends only on the \<open>width\<close> bytes at its index, and \<open>poke\<close> changes only those
  and makes \<open>peek\<close> return what was written.
\<close>

locale buffer_cell =
  fixes width :: int
    and peek :: "buffer \<Rightarrow> int \<Rightarrow> 'v"
    and poke :: "buffer \<Rightarrow> int \<Rightarrow> 'v \<Rightarrow> buffer"
  assumes length_poke: "length (poke b i v) = length b"
    and peek_poke: "in_range b i width \<Longrightarrow> peek (poke b i v) i = v"
    and poke_peek: "in_range b i width \<Longrightarrow> poke b i (peek b i) = b"
    and poke_poke: "in_range b i width \<Longrightarrow> poke (poke b i v) i w = poke b i w"
    and poke_frame: "0 \<le> i \<Longrightarrow> 0 \<le> j \<Longrightarrow> j < i \<or> i + width \<le> j \<Longrightarrow>
      poke b i v ! nat j = b ! nat j"
    and peek_cong: "(\<And>j. i \<le> j \<Longrightarrow> j < i + width \<Longrightarrow> b ! nat j = c ! nat j) \<Longrightarrow>
      peek b i = peek c i"
begin

lemma in_range_poke: "in_range (poke b i v) j n = in_range b j n"
  by (simp add: in_range_def length_poke)

text \<open>A range that ends before the cell or starts after it does not see the write.\<close>

lemma bytes_at_poke:
  assumes "0 \<le> i" "0 \<le> j" "j + n \<le> i \<or> i + width \<le> j"
  shows "bytes_at (poke b i v) j n = bytes_at b j n"
proof (rule nth_equalityI)
  show "length (bytes_at (poke b i v) j n) = length (bytes_at b j n)"
    by (simp add: bytes_at_def length_poke)
next
  fix k
  assume k: "k < length (bytes_at (poke b i v) j n)"
  then have bounds: "k < nat n" "nat j + k < length b"
    by (auto simp: bytes_at_def length_poke)
  have "poke b i v ! nat (j + int k) = b ! nat (j + int k)"
    using assms bounds by (intro poke_frame) auto
  moreover have "nat (j + int k) = nat j + k"
    using assms by (simp add: nat_add_distrib)
  ultimately show "bytes_at (poke b i v) j n ! k = bytes_at b j n ! k"
    using bounds by (simp add: bytes_at_def length_poke)
qed

end

locale cell_pair =
  a: buffer_cell wa peek_a poke_a + b: buffer_cell wb peek_b poke_b
  for wa :: int and peek_a :: "buffer \<Rightarrow> int \<Rightarrow> 'a" and poke_a :: "buffer \<Rightarrow> int \<Rightarrow> 'a \<Rightarrow> buffer"
    and wb :: int and peek_b :: "buffer \<Rightarrow> int \<Rightarrow> 'b" and poke_b :: "buffer \<Rightarrow> int \<Rightarrow> 'b \<Rightarrow> buffer"
begin

lemma peek_poke_disjoint:
  assumes "0 \<le> i" "0 \<le> j" "i + wa \<le> j \<or> j + wb \<le> i"
  shows "peek_b (poke_a m i v) j = peek_b m j"
  using assms by (intro b.peek_cong a.poke_frame) auto

end

section \<open>The three widths\<close>

lemmas peek_defs = peek8_def peek16_def peek32_def
lemmas poke_defs = poke8_def poke16_def poke32_def

interpretation c8: buffer_cell 1 peek8 poke8
  by unfold_locales (auto simp: peek_defs poke_defs in_range_def nth_list_update)

interpretation c16: buffer_cell 2 peek16 poke16
proof (unfold_locales, goal_cases)
  case (3 b i)
  then show ?case by (simp add: peek_defs poke_defs in_range_def list_update_swap)
next
  case (6 i b c)
  then show ?case using 6 [of i] 6 [of "i + 1"] by (simp add: peek_defs)
qed (auto simp: peek_defs poke_defs in_range_def nth_list_update nat_add_distrib list_update_swap
       intro!: nth_equalityI)

interpretation c32: buffer_cell 4 peek32 poke32
proof (unfold_locales, goal_cases)
  case (6 i b c)
  then show ?case
    using 6 [of i] 6 [of "i + 1"] 6 [of "i + 2"] 6 [of "i + 3"] by (simp add: peek_defs)
qed (auto simp: peek_defs poke_defs in_range_def nth_list_update nat_add_distrib list_update_swap
       intro!: nth_equalityI)

interpretation p8_16: cell_pair 1 peek8 poke8 2 peek16 poke16 by unfold_locales
interpretation p8_32: cell_pair 1 peek8 poke8 4 peek32 poke32 by unfold_locales
interpretation p8_8: cell_pair 1 peek8 poke8 1 peek8 poke8 by unfold_locales
interpretation p16_8: cell_pair 2 peek16 poke16 1 peek8 poke8 by unfold_locales
interpretation p16_16: cell_pair 2 peek16 poke16 2 peek16 poke16 by unfold_locales
interpretation p16_32: cell_pair 2 peek16 poke16 4 peek32 poke32 by unfold_locales
interpretation p32_8: cell_pair 4 peek32 poke32 1 peek8 poke8 by unfold_locales
interpretation p32_16: cell_pair 4 peek32 poke32 2 peek16 poke16 by unfold_locales
interpretation p32_32: cell_pair 4 peek32 poke32 4 peek32 poke32 by unfold_locales

lemmas poke_length [simp] = c8.length_poke c16.length_poke c32.length_poke

lemmas poke_in_range [simp] = c8.in_range_poke c16.in_range_poke c32.in_range_poke

lemmas peek_poke_same [mem_simps] = c8.peek_poke c16.peek_poke c32.peek_poke

lemmas peek_poke_other [mem_simps] =
  p8_8.peek_poke_disjoint p8_16.peek_poke_disjoint p8_32.peek_poke_disjoint
  p16_8.peek_poke_disjoint p16_16.peek_poke_disjoint p16_32.peek_poke_disjoint
  p32_8.peek_poke_disjoint p32_16.peek_poke_disjoint p32_32.peek_poke_disjoint

lemmas bytes_at_poke [mem_simps] = c8.bytes_at_poke c16.bytes_at_poke c32.bytes_at_poke

lemma load_in_range [mem_simps]:
  "in_range b i 1 \<Longrightarrow> load8 b i = Some (peek8 b i)"
  "in_range b i 2 \<Longrightarrow> load16 b i = Some (peek16 b i)"
  "in_range b i 4 \<Longrightarrow> load32 b i = Some (peek32 b i)"
  by (simp_all add: load8_def load16_def load32_def)

lemma store_in_range [mem_simps]:
  "in_range b i 1 \<Longrightarrow> store8 b i v = Some (poke8 b i v)"
  "in_range b i 2 \<Longrightarrow> store16 b i w = Some (poke16 b i w)"
  "in_range b i 4 \<Longrightarrow> store32 b i u = Some (poke32 b i u)"
  by (simp_all add: store8_def store16_def store32_def)

section \<open>Copies\<close>

lemma length_bytes_at [simp]:
  "in_range b i n \<Longrightarrow> 0 \<le> n \<Longrightarrow> length (bytes_at b i n) = nat n"
  by (auto simp: bytes_at_def in_range_def)

lemma nth_bytes_at:
  "in_range b i n \<Longrightarrow> 0 \<le> k \<Longrightarrow> k < n \<Longrightarrow> bytes_at b i n ! nat k = b ! nat (i + k)"
  by (auto simp: bytes_at_def in_range_def nat_add_distrib)

lemma memcpy_in_range [mem_simps]:
  "0 \<le> n \<Longrightarrow> in_range d i n \<Longrightarrow> in_range s j n \<Longrightarrow> memcpy d i s j n = Some (blit d i s j n)"
  by (simp add: memcpy_def)

lemma length_blit [simp]:
  "0 \<le> n \<Longrightarrow> in_range d i n \<Longrightarrow> in_range s j n \<Longrightarrow> length (blit d i s j n) = length d"
  by (auto simp: blit_def in_range_def bytes_at_def)

lemma nth_blit:
  assumes "0 \<le> n" "in_range d i n" "in_range s j n" "0 \<le> k" "k < int (length d)"
  shows "blit d i s j n ! nat k =
    (if i \<le> k \<and> k < i + n then s ! nat (j + (k - i)) else d ! nat k)"
proof -
  consider "k < i" | "i \<le> k" "k < i + n" | "i + n \<le> k" by linarith
  then show ?thesis
  proof cases
    case 1
    with assms show ?thesis
      by (simp add: blit_def nth_append in_range_def)
  next
    case 2
    have len: "length (take (nat i) d) = nat i"
      using assms by (auto simp: in_range_def)
    have "blit d i s j n ! nat k = bytes_at s j n ! (nat k - nat i)"
      using 2 assms len by (auto simp: blit_def nth_append in_range_def)
    also have "nat k - nat i = nat (k - i)"
      using 2 assms by (simp add: in_range_def nat_diff_distrib)
    finally show ?thesis
      using 2 assms by (simp add: nth_bytes_at)
  next
    case 3
    have "nat k = nat i + (nat n + nat (k - (i + n)))"
      using 3 assms by (simp add: in_range_def nat_add_distrib [symmetric])
    moreover have "nat (i + n) + nat (k - (i + n)) = nat k"
      using 3 assms by (simp add: in_range_def nat_add_distrib [symmetric])
    ultimately show ?thesis
      using 3 assms by (auto simp: blit_def nth_append in_range_def add.assoc)
  qed
qed

lemma peek_blit_outside [mem_simps]:
  assumes "0 \<le> n" "in_range d i n" "in_range s j n" "0 \<le> k"
  shows "k + 1 \<le> i \<or> i + n \<le> k \<Longrightarrow> in_range d k 1 \<Longrightarrow> peek8 (blit d i s j n) k = peek8 d k"
    and "k + 2 \<le> i \<or> i + n \<le> k \<Longrightarrow> in_range d k 2 \<Longrightarrow> peek16 (blit d i s j n) k = peek16 d k"
    and "k + 4 \<le> i \<or> i + n \<le> k \<Longrightarrow> in_range d k 4 \<Longrightarrow> peek32 (blit d i s j n) k = peek32 d k"
  using assms by (auto intro!: c8.peek_cong c16.peek_cong c32.peek_cong simp: nth_blit in_range_def)

lemma bytes_at_blit_same [mem_simps]:
  assumes "0 \<le> n" "in_range d i n" "in_range s j n"
  shows "bytes_at (blit d i s j n) i n = bytes_at s j n"
  using assms by (simp add: blit_def bytes_at_def in_range_def min_def nat_le_iff)

lemma bytes_at_blit_other [mem_simps]:
  assumes "0 \<le> n" "in_range d i n" "in_range s j n" "in_range d k m" "k + m \<le> i \<or> i + n \<le> k"
  shows "bytes_at (blit d i s j n) k m = bytes_at d k m"
proof (cases "0 \<le> m")
  case True
  show ?thesis
  proof (rule nth_equalityI)
    show "length (bytes_at (blit d i s j n) k m) = length (bytes_at d k m)"
      using assms by (simp add: bytes_at_def)
  next
    fix x
    assume "x < length (bytes_at (blit d i s j n) k m)"
    then have x: "int x < m" using assms True by (simp add: bytes_at_def) linarith
    have r: "in_range (blit d i s j n) k m"
      using assms by (simp add: in_range_def)
    have "bytes_at (blit d i s j n) k m ! nat (int x) = blit d i s j n ! nat (k + int x)"
      using x r by (intro nth_bytes_at) auto
    also have "\<dots> = d ! nat (k + int x)"
      using x assms by (subst nth_blit) (auto simp: in_range_def)
    also have "\<dots> = bytes_at d k m ! nat (int x)"
      using x assms by (intro nth_bytes_at [symmetric]) auto
    finally show "bytes_at (blit d i s j n) k m ! x = bytes_at d k m ! x" by simp
  qed
qed (simp add: bytes_at_def)

text \<open>Two copies side by side are one copy of both ranges.\<close>

lemma bytes_at_blit_blit:
  assumes "0 \<le> m" "0 \<le> n" "in_range d 0 (m + n)" "in_range s 0 (m + n)"
  shows "bytes_at (blit (blit d 0 s 0 m) m s m n) 0 (m + n) = bytes_at s 0 (m + n)"
proof -
  have r: "in_range d 0 m" "in_range d m n" "in_range s 0 m" "in_range s m n"
    using assms by (auto simp: in_range_def)
  let ?e = "blit d 0 s 0 m"
  have "length ?e = length d" using assms r by simp
  then have e: "in_range ?e m n" "in_range ?e 0 m" and f: "in_range (blit ?e m s m n) 0 (m + n)"
    using assms r by (simp_all add: in_range_def)
  have split: "bytes_at c 0 (m + n) = bytes_at c 0 m @ bytes_at c m n" if "in_range c 0 (m + n)" for c
    using that assms by (simp add: bytes_at_def in_range_def nat_add_distrib take_add)
  have "bytes_at (blit ?e m s m n) 0 m = bytes_at ?e 0 m"
    using assms e r by (intro bytes_at_blit_other) auto
  also have "\<dots> = bytes_at s 0 m"
    using assms r by (intro bytes_at_blit_same) auto
  finally show ?thesis
    using split [OF f] split [OF assms(4)] bytes_at_blit_same [of n ?e m s m] assms e r by simp
qed

lemma blit_source_cong: "bytes_at s j n = bytes_at t k n \<Longrightarrow> blit d i s j n = blit d i t k n"
  by (simp add: blit_def)

end
