(* ===== verification/Checksum.thy ===== *)
theory Checksum
  imports Memory
begin

text \<open>
  The internet checksum: \<open>checksum\<close> of \<open>refactor/network/network.c\<close>, which is also
  \<open>packet_checksum\<close> of \<open>network/network.c\<close> line for line. The routine adds 16-bit words in
  host byte order into a 32-bit accumulator and folds the carries at the end.

  Shown here: the folding loop ends; the accumulator does not overflow on anything up to
  128 KiB; the result is the one of the word-by-word one's complement sum of RFC 1071
  (\<open>rfc1071\<close>); a region whose checksum field was zeroed, summed and filled in sums to
  zero, which is the test receivers make; and the bytes produced do not depend on the
  byte order of the host.
\<close>

section \<open>The routine\<close>

text \<open>\<open>while (len > 1) { sum += *ptr++; len -= 2; }\<close>, returning the three variables.\<close>

function sum_words :: "buffer \<Rightarrow> int \<Rightarrow> int \<Rightarrow> u32 \<Rightarrow> (u32 \<times> int \<times> int) option" where
  "sum_words b ptr len acc =
     (if len > 1
      then do { w \<leftarrow> load16 b ptr; sum_words b (ptr + 2) (len - 2) (acc + ucast w) }
      else Some (acc, ptr, len))"
  by pat_completeness auto
termination
  by (relation "measure (\<lambda>(b, ptr, len, acc). nat len)") auto

text \<open>\<open>while (sum >> 16) sum = (sum & 0xFFFF) + (sum >> 16);\<close>\<close>

lemma end_around_decreases:
  fixes acc :: u32
  assumes "drop_bit 16 acc \<noteq> 0"
  shows "unat ((acc AND 0xFFFF) + drop_bit 16 acc) < unat acc"
    and "unat ((acc AND 0xFFFF) + drop_bit 16 acc) = unat acc mod 65536 + unat acc div 65536"
proof -
  have "acc AND 0xFFFF = take_bit 16 acc"
    by (simp add: take_bit_eq_mask mask_numeral)
  then have lo: "unat (acc AND 0xFFFF) = unat acc mod 65536"
    by (simp add: take_bit_eq_mod unat_mod_distrib)
  have hi: "unat (drop_bit 16 acc) = unat acc div 65536"
    by (simp add: drop_bit_eq_div unat_div_distrib)
  have "unat acc < 4294967296"
    using unsigned_less [of acc] by simp
  then have "unat acc div 65536 < 65536" "unat acc mod 65536 < 65536"
    by simp_all
  then show eq: "unat ((acc AND 0xFFFF) + drop_bit 16 acc) = unat acc mod 65536 + unat acc div 65536"
    by (simp add: unat_word_ariths lo hi)
  have "unat acc div 65536 \<noteq> 0"
    using assms hi by (metis unat_eq_zero)
  then show "unat ((acc AND 0xFFFF) + drop_bit 16 acc) < unat acc"
    unfolding eq using mult_div_mod_eq [of 65536 "unat acc"] by linarith
qed

function fold_carry :: "u32 \<Rightarrow> u32" where
  "fold_carry acc =
     (if drop_bit 16 acc \<noteq> 0 then fold_carry ((acc AND 0xFFFF) + drop_bit 16 acc) else acc)"
  by pat_completeness auto
termination
  by (relation "measure unat") (simp_all add: end_around_decreases(1) del: One_nat_def)

definition checksum :: "buffer \<Rightarrow> int \<Rightarrow> int \<Rightarrow> u16 option" where
  "checksum b buf len = do {
     (acc, ptr, len) \<leftarrow> sum_words b buf len 0;
     acc \<leftarrow> (if len > 0 then do { v \<leftarrow> load8 b ptr; Some (acc + ucast v) } else Some acc);
     Some (ucast (NOT (fold_carry acc)))
   }"

declare sum_words.simps [simp del] fold_carry.simps [simp del]

section \<open>Reference definitions\<close>

text \<open>The 16-bit words of a byte string, an odd last byte padded with zero on its right.\<close>

fun words16 :: "byte list \<Rightarrow> u16 list" where
  "words16 [] = []"
| "words16 [a] = [le16 a 0]"
| "words16 (a # b # bs) = le16 a b # words16 bs"

text \<open>RFC 1071: one's complement addition with the end-around carry at every word.\<close>

definition oc_add :: "u16 \<Rightarrow> u16 \<Rightarrow> u16" where
  "oc_add a b =
     (let s = unat a + unat b in if s < 65536 then of_nat s else of_nat (s - 65535))"

definition rfc1071 :: "u16 list \<Rightarrow> u16" where
  "rfc1071 ws = NOT (foldl oc_add 0 ws)"

definition wsum :: "byte list \<Rightarrow> nat" where
  "wsum bs = sum_list (map unat (words16 bs))"

text \<open>The representative of \<open>n\<close> modulo 65535 that repeated end-around folding reaches.\<close>

definition onec :: "nat \<Rightarrow> nat" where
  "onec n = (if n = 0 then 0 else (n - 1) mod 65535 + 1)"

section \<open>Folding\<close>

lemma onec_less [simp]: "onec n < 65536"
  by (simp add: onec_def less_Suc_eq_le)

lemma onec_eq_0 [simp]: "onec n = 0 \<longleftrightarrow> n = 0"
  by (simp add: onec_def)

lemma onec_0 [simp]: "onec 0 = 0"
  by simp

lemma onec_small: "n < 65536 \<Longrightarrow> onec n = n"
  by (simp add: onec_def)

lemma onec_mod: "onec n mod 65535 = n mod 65535"
proof (cases n)
  case (Suc m)
  then show ?thesis by (simp add: onec_def mod_simps)
qed simp

text \<open>Two representatives agree when they are congruent and vanish together.\<close>

lemma onec_eqI: "m mod 65535 = n mod 65535 \<Longrightarrow> (m = 0 \<longleftrightarrow> n = 0) \<Longrightarrow> onec m = onec n"
proof (cases "m = 0 \<or> n = 0")
  case False
  assume "m mod 65535 = n mod 65535"
  with False have "(m - 1) mod 65535 = (n - 1) mod 65535"
    by (cases m; cases n) (auto simp: mod_Suc split: if_splits)
  with False show ?thesis by (simp add: onec_def)
qed auto

lemma onec_idem [simp]: "onec (onec n) = onec n"
  by (rule onec_eqI) (simp_all add: onec_mod)

lemma onec_add_left: "onec (onec m + n) = onec (m + n)"
proof (rule onec_eqI)
  show "(onec m + n) mod 65535 = (m + n) mod 65535"
    by (metis onec_mod mod_add_left_eq)
qed simp

lemma unat_fold_carry: "unat (fold_carry s) = onec (unat s)"
proof (induction s rule: fold_carry.induct)
  case (1 s)
  show ?case
  proof (cases "drop_bit 16 s = 0")
    case True
    have "unat s div 65536 = unat (drop_bit 16 s)"
      by (simp add: drop_bit_eq_div unat_div_distrib)
    with True have "unat s < 65536" by simp
    with True show ?thesis
      by (simp add: fold_carry.simps [of s] onec_small)
  next
    case False
    let ?t = "(s AND 0xFFFF) + drop_bit 16 s"
    have "unat (fold_carry s) = onec (unat ?t)"
      using 1 False by (simp add: fold_carry.simps [of s])
    also have "unat ?t = unat s mod 65536 + unat s div 65536"
      using end_around_decreases(2) False by blast
    also have "onec \<dots> = onec (unat s)"
    proof (rule onec_eqI)
      have "unat s = unat s mod 65536 + unat s div 65536 + 65535 * (unat s div 65536)"
        using mult_div_mod_eq [of 65536 "unat s"] by linarith
      then show "(unat s mod 65536 + unat s div 65536) mod 65535 = unat s mod 65535"
        by (metis mod_mult_self2)
    qed auto
    finally show ?thesis .
  qed
qed

lemma unat_oc_add: "unat (oc_add a b) = onec (unat a + unat b)"
proof (cases "unat a + unat b < 65536")
  case True
  then show ?thesis by (simp add: oc_add_def onec_small unat_word_ariths)
next
  case False
  let ?s = "unat a + unat b"
  have "unat a < 65536" "unat b < 65536" by simp_all
  then have small: "?s - 65535 < 65536" by linarith
  have "onec ?s = onec (?s - 65535)"
  proof (rule onec_eqI)
    have "?s = ?s - 65535 + 65535" using False by simp
    then show "?s mod 65535 = (?s - 65535) mod 65535"
      by (metis mod_add_self2)
  qed (use False in linarith)
  also have "\<dots> = ?s - 65535"
    using small by (rule onec_small)
  finally show ?thesis
    using False small by (simp add: oc_add_def Let_def unat_of_nat del: of_nat_diff)
qed

lemma unat_foldl_oc_add: "unat (foldl oc_add a ws) = onec (unat a + sum_list (map unat ws))"
  by (induction ws arbitrary: a) (simp_all add: onec_small unat_oc_add onec_add_left add.assoc)

lemma unat_not_u16: "unat (NOT (w::u16)) = 65535 - unat w"
proof -
  have "NOT w = - 1 - w"
    by (simp add: not_eq_complement)
  then show ?thesis
    using unat_sub [of w "- 1"] by (simp add: unsigned_minus_1_eq_mask mask_eq_exp_minus_1)
qed

section \<open>The accumulation loop\<close>

lemma bytes_at_Cons:
  assumes "in_range b i n" "0 < n"
  shows "bytes_at b i n = b ! nat i # bytes_at b (i + 1) (n - 1)"
proof -
  from assms have i: "0 \<le> i" "nat i < length b"
    by (auto simp: in_range_def)
  then have "drop (nat i) b = b ! nat i # drop (nat (i + 1)) b"
    by (simp add: Cons_nth_drop_Suc nat_add_distrib)
  moreover have "nat n = Suc (nat (n - 1))"
    using assms by simp
  ultimately show ?thesis
    by (simp add: bytes_at_def)
qed

lemma bytes_at_nonpos [simp]: "n \<le> 0 \<Longrightarrow> bytes_at b i n = []"
  by (simp add: bytes_at_def)

lemma wsum_simps [simp]:
  "wsum [] = 0" "wsum [a] = unat a" "wsum (a # b # bs) = unat (le16 a b) + wsum bs"
  by (simp_all add: wsum_def unat_le16)

lemma sum_words_eq:
  assumes "in_range b ptr len" "0 \<le> len"
  shows "\<exists>acc'. sum_words b ptr len acc = Some (acc', ptr + len - len mod 2, len mod 2) \<and>
    acc + of_nat (wsum (bytes_at b ptr len)) =
      acc' + of_nat (wsum (bytes_at b (ptr + len - len mod 2) (len mod 2)))"
  using assms
proof (induction b ptr len acc rule: sum_words.induct)
  case (1 b ptr len acc)
  show ?case
  proof (cases "1 < len")
    case True
    from True "1.prems" have tail: "in_range b (ptr + 2) (len - 2)" "0 \<le> len - 2"
      and here: "in_range b ptr 2" and snd: "in_range b (ptr + 1) (len - 1)"
      by (auto simp: in_range_def)
    have split: "bytes_at b ptr len = b ! nat ptr # b ! nat (ptr + 1) # bytes_at b (ptr + 2) (len - 2)"
      using True "1.prems" snd by (simp add: bytes_at_Cons algebra_simps)
    from True "1.IH" [OF True _ tail, of "peek16 b ptr"] here
    obtain acc' where IH: "sum_words b (ptr + 2) (len - 2) (acc + ucast (peek16 b ptr)) =
        Some (acc', ptr + len - len mod 2, len mod 2)"
      "acc + ucast (peek16 b ptr) + of_nat (wsum (bytes_at b (ptr + 2) (len - 2))) =
        acc' + of_nat (wsum (bytes_at b (ptr + len - len mod 2) (len mod 2)))"
      by (auto simp: load_in_range algebra_simps)
    have "(ucast (peek16 b ptr) :: u32) = of_nat (unat (peek16 b ptr))"
      by simp
    then have "acc + of_nat (wsum (bytes_at b ptr len)) =
        acc + ucast (peek16 b ptr) + of_nat (wsum (bytes_at b (ptr + 2) (len - 2)))"
      by (simp add: split peek16_def)
    with True IH here show ?thesis
      by (simp add: sum_words.simps [of b ptr len] load_in_range)
  next
    case False
    with "1.prems" have "len = 0 \<or> len = 1" by auto
    then show ?thesis
      by (auto simp: sum_words.simps [of b ptr len])
  qed
qed

definition cks :: "byte list \<Rightarrow> u16" where
  "cks bs = NOT (of_nat (onec (wsum bs)))"

lemma words16_length: "length (words16 bs) \<le> (length bs + 1) div 2"
  by (induction bs rule: words16.induct) auto

lemma wsum_bound: "wsum bs \<le> 65535 * ((length bs + 1) div 2)"
proof (induction bs rule: words16.induct)
  case (2 a)
  then show ?case using unat_byte_less [of a] by (simp del: unat_byte_less)
next
  case (3 a b bs)
  then show ?case using unat_u16_less [of "le16 a b"] by (simp del: unat_u16_less)
qed simp

text \<open>
  The bound: 65536 full words sum to less than \<open>2 ^ 32\<close>, so the \<open>uint32_t\<close> accumulator
  is exact for up to 131072 bytes; a packet has at most 65535.
\<close>

lemma wsum_no_overflow: "length bs \<le> 131072 \<Longrightarrow> wsum bs < 4294967296"
proof -
  assume "length bs \<le> 131072"
  then have "65535 * ((length bs + 1) div 2) \<le> 65535 * (65536::nat)"
    by (intro mult_le_mono) auto
  with wsum_bound [of bs] show ?thesis by linarith
qed

lemma checksum_eq [op_simps]:
  assumes "in_range b i n" "0 \<le> n" "n \<le> 131072"
  shows "checksum b i n = Some (cks (bytes_at b i n))"
proof -
  let ?p = "i + n - n mod 2" and ?bs = "bytes_at b i n"
  obtain acc where acc: "sum_words b i n 0 = Some (acc, ?p, n mod 2)"
    "of_nat (wsum ?bs) = acc + of_nat (wsum (bytes_at b ?p (n mod 2)))"
    using sum_words_eq [OF assms(1,2), of 0] by auto
  have tail: "in_range b ?p (n mod 2)" "n mod 2 = 0 \<or> n mod 2 = 1"
    using assms zmod_le_nonneg_dividend [of n 2] by (auto simp: in_range_def)
  have total: "checksum b i n = Some (ucast (NOT (fold_carry (of_nat (wsum ?bs)))))"
  proof (cases "n mod 2 = 0")
    case True
    with acc show ?thesis by (simp add: checksum_def)
  next
    case False
    with tail have one: "n mod 2 = 1" by simp
    with tail have "bytes_at b ?p (n mod 2) = [peek8 b ?p]"
      using bytes_at_Cons [of b ?p 1] by (simp add: peek8_def)
    with one acc tail show ?thesis
      by (simp add: checksum_def load_in_range)
  qed
  have "wsum ?bs < 4294967296"
    using assms by (intro wsum_no_overflow) (auto simp: nat_le_iff)
  then have "unat (of_nat (wsum ?bs) :: u32) = wsum ?bs"
    by (simp add: unat_of_nat)
  then have "unat (fold_carry (of_nat (wsum ?bs))) = onec (wsum ?bs)"
    by (simp add: unat_fold_carry)
  then have "(ucast (fold_carry (of_nat (wsum ?bs))) :: u16) = of_nat (onec (wsum ?bs))"
    by (metis of_nat_unat)
  moreover have "(ucast (NOT (x::u32)) :: u16) = NOT (ucast x)" for x
    by (auto intro!: bit_word_eqI simp: bit_simps)
  ultimately show ?thesis
    using total by (simp add: cks_def)
qed

text \<open>Conversely, a region that reaches beyond the buffer makes the routine read outside of it.\<close>

lemma sum_words_fault:
  assumes "0 < len" "int (length b) < ptr + len"
  shows "case sum_words b ptr len acc of None \<Rightarrow> True | Some (acc', p, l) \<Rightarrow> l = 1 \<and> int (length b) < p + 1"
  using assms
proof (induction b ptr len acc rule: sum_words.induct)
  case (1 b ptr len acc)
  show ?case
  proof (cases "1 < len \<and> in_range b ptr 2")
    case True
    then have "len \<noteq> 2" using "1.prems" by (auto simp: in_range_def)
    with True "1.IH" [of "peek16 b ptr"] "1.prems" show ?thesis
      by (simp add: sum_words.simps [of b ptr len] load_in_range)
  next
    case False
    with "1.prems" show ?thesis
      by (auto simp: sum_words.simps [of b ptr len] load16_def)
  qed
qed

lemma checksum_fault: "0 < n \<Longrightarrow> int (length b) < i + n \<Longrightarrow> checksum b i n = None"
  using sum_words_fault [of n b i 0] by (auto simp: checksum_def load8_def in_range_def split: option.splits)

lemma rfc1071_words16: "rfc1071 (words16 bs) = cks bs"
proof -
  have "unat (foldl oc_add 0 (words16 bs)) = onec (wsum bs)"
    by (simp add: unat_foldl_oc_add wsum_def)
  then have "foldl oc_add 0 (words16 bs) = of_nat (onec (wsum bs))"
    by (metis of_nat_unat ucast_id)
  then show ?thesis by (simp add: rfc1071_def cks_def)
qed

lemma unat_cks: "unat (cks bs) = 65535 - onec (wsum bs)"
  by (simp add: cks_def unat_not_u16 unat_of_nat)

lemma cks_eq_0_iff: "cks bs = 0 \<longleftrightarrow> 0 < wsum bs \<and> wsum bs mod 65535 = 0"
proof -
  have "cks bs = 0 \<longleftrightarrow> onec (wsum bs) = 65535"
    using onec_less [of "wsum bs"] unat_cks [of bs] by (auto simp: unat_eq_0 simp del: onec_less)
  also have "\<dots> \<longleftrightarrow> onec (wsum bs) = onec 65535"
    by (simp add: onec_small)
  also have "\<dots> \<longleftrightarrow> 0 < wsum bs \<and> wsum bs mod 65535 = 0"
    by (metis mod_self neq0_conv onec_eqI onec_eq_0 onec_mod zero_neq_numeral)
  finally show ?thesis .
qed

section \<open>Changing one word of a summed region\<close>

lemma wsum_append: "even (length xs) \<Longrightarrow> wsum (xs @ ys) = wsum xs + wsum ys"
  by (induction xs rule: words16.induct) auto

lemma bytes_at_append:
  assumes "in_range b i n" "0 \<le> k" "k \<le> n"
  shows "bytes_at b i n = bytes_at b i k @ bytes_at b (i + k) (n - k)"
proof -
  from assms have "nat n = nat k + nat (n - k)" "nat (i + k) = nat k + nat i"
    by (simp_all add: in_range_def nat_add_distrib [symmetric])
  then show ?thesis
    by (simp add: bytes_at_def take_add)
qed

text \<open>
  Writing a 16-bit field at an even distance from the start of the region replaces exactly
  one summand.
\<close>

lemma wsum_poke16:
  assumes r: "in_range b i n" and k: "0 \<le> k" "k + 2 \<le> n" "even k"
  shows "wsum (bytes_at (poke16 b (i + k) v) i n) + unat (peek16 b (i + k)) =
    wsum (bytes_at b i n) + unat v"
proof -
  have split: "wsum (bytes_at c i n) =
      wsum (bytes_at c i k) + unat (peek16 c (i + k)) + wsum (bytes_at c (i + k + 2) (n - k - 2))"
    if c: "in_range c i n" for c
  proof -
    have a: "in_range c (i + k) (n - k)" and a': "in_range c (i + k + 1) (n - k - 1)"
      using c k by (auto simp: in_range_def)
    have "bytes_at c i n = bytes_at c i k @ bytes_at c (i + k) (n - k)"
      using c k by (intro bytes_at_append) auto
    also have "bytes_at c (i + k) (n - k) =
        c ! nat (i + k) # c ! nat (i + k + 1) # bytes_at c (i + k + 2) (n - k - 2)"
      using k a a' by (simp add: bytes_at_Cons algebra_simps)
    finally have "wsum (bytes_at c i n) = wsum (bytes_at c i k) +
        wsum (c ! nat (i + k) # c ! nat (i + k + 1) # bytes_at c (i + k + 2) (n - k - 2))"
      using c k by (simp add: wsum_append in_range_def even_nat_iff)
    then show ?thesis by (simp add: peek16_def)
  qed
  have "in_range b (i + k) 2" "0 \<le> i"
    using r k by (auto simp: in_range_def)
  then show ?thesis
    using split [OF r] split [of "poke16 b (i + k) v"] r k by (simp add: mem_simps)
qed

lemma cks_roundtrip:
  assumes r: "in_range b i n" and k: "0 \<le> k" "k + 2 \<le> n" "even k"
  defines "z \<equiv> poke16 b (i + k) 0"
  shows "cks (bytes_at (poke16 b (i + k) (cks (bytes_at z i n))) i n) = 0"
proof -
  let ?c = "cks (bytes_at z i n)"
  have in2: "in_range b (i + k) 2"
    using r k by (auto simp: in_range_def)
  have "poke16 b (i + k) ?c = poke16 z (i + k) ?c"
    using in2 by (simp add: z_def c16.poke_poke)
  moreover have "in_range z i n" "peek16 z (i + k) = 0"
    using r in2 by (simp_all add: z_def mem_simps)
  ultimately have "wsum (bytes_at (poke16 b (i + k) ?c) i n) = wsum (bytes_at z i n) + unat ?c"
    using wsum_poke16 [of z i n k ?c] k by simp
  also have "unat ?c = 65535 - onec (wsum (bytes_at z i n))"
    by (rule unat_cks)
  finally have w: "wsum (bytes_at (poke16 b (i + k) ?c) i n) =
      wsum (bytes_at z i n) + (65535 - onec (wsum (bytes_at z i n)))" .
  let ?s = "wsum (bytes_at z i n)"
  have le: "onec ?s \<le> 65535"
    using onec_less [of ?s] by linarith
  have "(?s + (65535 - onec ?s)) mod 65535 = (onec ?s + (65535 - onec ?s)) mod 65535"
    by (metis mod_add_left_eq onec_mod)
  also have "\<dots> = 0"
    using le by simp
  finally have "(?s + (65535 - onec ?s)) mod 65535 = 0" .
  moreover have "0 < ?s + (65535 - onec ?s)"
    using onec_eq_0 [of ?s] le by (cases "?s = 0") auto
  ultimately show ?thesis
    unfolding cks_eq_0_iff w by blast
qed

text \<open>
  A single damaged word is noticed unless it turned all-zeros into all-ones or back, the two
  representations of zero in one's complement.
\<close>

lemma cks_detects:
  assumes r: "in_range b i n" and k: "0 \<le> k" "k + 2 \<le> n" "even k"
    and valid: "cks (bytes_at b i n) = 0"
    and v: "v \<noteq> peek16 b (i + k)" "{unat v, unat (peek16 b (i + k))} \<noteq> {0, 65535}"
  shows "cks (bytes_at (poke16 b (i + k) v) i n) \<noteq> 0"
proof
  let ?o = "peek16 b (i + k)" and ?d = "bytes_at (poke16 b (i + k) v) i n"
  assume "cks ?d = 0"
  then have "wsum ?d mod 65535 = 0"
    by (simp add: cks_eq_0_iff)
  moreover have "wsum (bytes_at b i n) mod 65535 = 0"
    using valid by (simp add: cks_eq_0_iff)
  moreover have "wsum ?d + unat ?o = wsum (bytes_at b i n) + unat v"
    using r k by (rule wsum_poke16)
  ultimately have cong: "unat ?o mod 65535 = unat v mod 65535"
    by (metis add_0 mod_add_left_eq)
  have m: "x mod 65535 = (if x = 65535 then 0 else x)" if "x < 65536" for x :: nat
  proof (cases "x < 65535")
    case False
    with that have "x = 65535" by simp
    then show ?thesis by simp
  qed simp
  have "unat ?o < 65536" "unat v < 65536" by simp_all
  with cong m [of "unat ?o"] m [of "unat v"] have "unat ?o = unat v \<or> {unat v, unat ?o} = {0, 65535}"
    by (auto split: if_splits)
  with v show False by (auto simp: word_unat_eq_iff)
qed

section \<open>Independence of the byte order\<close>

lemma unat_htons: "unat (htons w) = unat w div 256 + 256 * (unat w mod 256)"
proof -
  have "unat (byte_of 1 w) = unat w div 256"
    using unat_u16_less [of w]
    by (simp add: byte_of_def drop_bit_eq_div unat_div_distrib unsigned_ucast_eq take_bit_eq_mod
        del: unat_u16_less)
  moreover have "unat (byte_of 0 w) = unat w mod 256"
    by (simp add: byte_of_def unsigned_ucast_eq take_bit_eq_mod)
  ultimately show ?thesis
    by (simp add: htons_def unat_le16)
qed

lemma htons_mod: "unat (htons w) mod 65535 = 256 * unat w mod 65535"
proof -
  have "256 * unat w = unat (htons w) + 65535 * (unat w div 256)"
    using mult_div_mod_eq [of 256 "unat w"] unfolding unat_htons by linarith
  then show ?thesis by simp
qed

lemma htons_eq_0 [simp]: "unat (htons w) = 0 \<longleftrightarrow> unat w = 0"
  unfolding unat_htons using mult_div_mod_eq [of 256 "unat w"] by auto

lemma htons_not: "htons (NOT w) = NOT (htons w)"
  by (auto intro!: bit_word_eqI simp: htons_def byte_of_def le16_def bit_simps)

lemma onec_htons: "unat (htons (of_nat (onec n))) = onec (256 * n)"
proof -
  have n: "unat (of_nat (onec n) :: u16) = onec n"
    by (simp add: unat_of_nat)
  have "unat (htons (of_nat (onec n))) = onec (unat (htons (of_nat (onec n))))"
    by (simp add: onec_small)
  also have "\<dots> = onec (256 * n)"
  proof (rule onec_eqI)
    show "unat (htons (of_nat (onec n))) mod 65535 = 256 * n mod 65535"
      unfolding htons_mod n by (metis mod_mult_right_eq onec_mod)
  qed (simp add: n)
  finally show ?thesis .
qed

lemma sum_htons_mod: "sum_list (map (unat \<circ> htons) ws) mod 65535 = 256 * sum_list (map unat ws) mod 65535"
proof (induction ws)
  case (Cons w ws)
  have "(unat (htons w) + sum_list (map (unat \<circ> htons) ws)) mod 65535 =
      (256 * unat w + 256 * sum_list (map unat ws)) mod 65535"
    using htons_mod Cons.IH by (rule mod_add_cong)
  then show ?case
    by (simp add: distrib_left comp_def)
qed simp

lemma sum_htons_eq_0: "sum_list (map (unat \<circ> htons) ws) = 0 \<longleftrightarrow> sum_list (map unat ws) = 0"
  by (induction ws) auto

lemma rfc1071_htons: "rfc1071 (map htons ws) = htons (rfc1071 ws)"
proof -
  let ?n = "sum_list (map unat ws)"
  have "unat (foldl oc_add 0 (map htons ws)) = onec (sum_list (map (unat \<circ> htons) ws))"
    by (simp add: unat_foldl_oc_add)
  also have "\<dots> = onec (256 * ?n)"
    by (rule onec_eqI) (simp_all only: sum_htons_mod sum_htons_eq_0 mult_eq_0_iff, simp)
  also have "\<dots> = unat (htons (foldl oc_add 0 ws))"
    using onec_htons [of ?n] unat_foldl_oc_add [of 0 ws]
    by (metis add_0 of_nat_unat ucast_id unat_0)
  finally have "foldl oc_add 0 (map htons ws) = htons (foldl oc_add 0 ws)"
    by (simp add: word_unat_eq_iff)
  then show ?thesis
    by (simp add: rfc1071_def htons_not)
qed

section \<open>Properties\<close>

text \<open>
  C12: \<open>checksum\<close> never reads outside the region it is given and returns the RFC 1071
  one's complement checksum of the region's 16-bit words, although it postpones all
  end-around carries to the end and accumulates them in 32 bits.
\<close>

theorem checksum_is_rfc1071:
  assumes "in_range b i n" "0 \<le> n" "n \<le> 131072"
  shows "checksum b i n = Some (rfc1071 (words16 (bytes_at b i n)))"
  using assms by (simp add: checksum_eq rfc1071_words16)

definition sample_header :: buffer where
  "sample_header = [0x45, 0, 0, 0x73, 0, 0, 0x40, 0, 0x40, 0x11, 0, 0, 0xc0, 0xa8, 0, 1, 0xc0, 0xa8, 0, 0xc7]"

theorem checksum_is_rfc1071_witness:
  "in_range sample_header 0 20 \<and> checksum sample_header 0 20 = Some (htons 0xb861) \<and>
   checksum sample_header 0 20 = Some (rfc1071 (words16 (bytes_at sample_header 0 20)))"
proof -
  have h: "in_range sample_header 0 20"
    by (simp add: in_range_def sample_header_def)
  have v: "checksum sample_header 0 20 = Some (htons 0xb861)"
    by code_simp
  show ?thesis using h v checksum_is_rfc1071 [OF h] by simp
qed

text \<open>
  Filling a zeroed checksum field with the computed value makes the whole region sum to
  zero, so what the program emits passes the test that it, and every other receiver, applies.
  The field may sit at any even distance from the start of the region.
\<close>

theorem checksum_roundtrip:
  assumes "in_range b i n" "n \<le> 131072" "0 \<le> k" "k + 2 \<le> n" "even k"
    and "checksum (poke16 b (i + k) 0) i n = Some c"
  shows "checksum (poke16 b (i + k) c) i n = Some 0"
proof -
  have "0 \<le> n" using assms by linarith
  then have "c = cks (bytes_at (poke16 b (i + k) 0) i n)"
    using assms by (simp add: checksum_eq)
  with cks_roundtrip [of b i n k] \<open>0 \<le> n\<close> assms show ?thesis
    by (simp add: checksum_eq)
qed

theorem checksum_roundtrip_witness:
  "checksum (poke16 sample_header (0 + 10) 0) 0 20 = Some 0x61b8 \<and>
   checksum (poke16 sample_header (0 + 10) 0x61b8) 0 20 = Some 0"
proof -
  have r: "in_range sample_header 0 20"
    by (simp add: in_range_def sample_header_def)
  have c: "checksum (poke16 sample_header (0 + 10) 0) 0 20 = Some 0x61b8"
    by code_simp
  show ?thesis using c checksum_roundtrip [OF r _ _ _ _ c] by simp
qed

text \<open>
  C26: a region that verifies no longer verifies after any one aligned word in it is replaced
  by a different one, except for the exchange of 0x0000 and 0xFFFF, which one's complement
  cannot tell apart.
\<close>

theorem checksum_detects_word_error:
  assumes "in_range b i n" "n \<le> 131072" "0 \<le> k" "k + 2 \<le> n" "even k"
    and "checksum b i n = Some 0"
    and "v \<noteq> peek16 b (i + k)" "{unat v, unat (peek16 b (i + k))} \<noteq> {0, 65535}"
  shows "\<exists>c. checksum (poke16 b (i + k) v) i n = Some c \<and> c \<noteq> 0"
proof -
  have "0 \<le> n" using assms by linarith
  with assms have "cks (bytes_at b i n) = 0"
    by (simp add: checksum_eq)
  with assms have "cks (bytes_at (poke16 b (i + k) v) i n) \<noteq> 0"
    by (intro cks_detects) auto
  with assms \<open>0 \<le> n\<close> show ?thesis
    by (simp add: checksum_eq)
qed

theorem checksum_detects_word_error_witness:
  "checksum (poke16 sample_header 10 0x61b8) 0 20 = Some 0 \<and>
   (\<exists>c. checksum (poke16 (poke16 sample_header 10 0x61b8) (0 + 8) 7) 0 20 = Some c \<and> c \<noteq> 0)"
proof -
  let ?b = "poke16 sample_header 10 0x61b8"
  have r: "in_range ?b 0 20"
    by (simp add: in_range_def sample_header_def)
  have c: "checksum ?b 0 20 = Some 0"
    by code_simp
  have w: "peek16 ?b 8 = 0x1140"
    by code_simp
  show ?thesis
    using c checksum_detects_word_error [of ?b 0 20 8 7, OF r _ _ _ _ c] by (simp add: w doubleton_eq_iff)
qed

text \<open>
  The result read in network byte order is the checksum of the words read in network byte
  order: summing in the host's order and storing without a swap writes the right bytes.
\<close>

theorem checksum_byte_order:
  assumes "in_range b i n" "0 \<le> n" "n \<le> 131072" "checksum b i n = Some c"
  shows "htons c = rfc1071 (map htons (words16 (bytes_at b i n)))"
  using assms by (simp add: checksum_eq rfc1071_htons rfc1071_words16)

theorem checksum_byte_order_witness:
  "checksum sample_header 0 20 = Some 0x61b8 \<and>
   htons 0x61b8 = rfc1071 (map htons (words16 (bytes_at sample_header 0 20)))"
proof -
  have r: "in_range sample_header 0 20"
    by (simp add: in_range_def sample_header_def)
  have c: "checksum sample_header 0 20 = Some 0x61b8"
    by code_simp
  show ?thesis using c checksum_byte_order [OF r _ _ c] by simp
qed

end
