(* ===== verification/Ipv4.thy ===== *)
theory Ipv4
  imports Checksum
begin

text \<open>
  \<open>refactor/network/ip.c\<close> and \<open>ip.h\<close>: validation of a received IPv4 header, exchange of the
  addresses and renewal of the header checksum, all in place on the packet buffer. The
  header always starts at index 0 of the buffer, because every caller casts \<open>buf\<close> itself.
  The record \<open>IPv4\<close> is the struct, \<open>ip_header\<close> the overlay of the struct on the bytes; the
  lemmas say what each operation does to that view and that the bytes after the header stay
  as they are.
\<close>

section \<open>The header\<close>

record IPv4 =
  ipv4_version_ihl :: byte
  ipv4_tos :: byte
  ipv4_len :: u16
  ipv4_id :: u16
  ipv4_flags_offset :: u16
  ipv4_ttl :: byte
  ipv4_proto :: byte
  ipv4_checksum :: u16
  ipv4_src :: u32
  ipv4_dst :: u32

text \<open>Offsets of the members of the packed struct, and its size.\<close>

abbreviation (input) IP_version_ihl :: int where "IP_version_ihl \<equiv> 0"
abbreviation (input) IP_tos :: int where "IP_tos \<equiv> 1"
abbreviation (input) IP_len :: int where "IP_len \<equiv> 2"
abbreviation (input) IP_id :: int where "IP_id \<equiv> 4"
abbreviation (input) IP_flags_offset :: int where "IP_flags_offset \<equiv> 6"
abbreviation (input) IP_ttl :: int where "IP_ttl \<equiv> 8"
abbreviation (input) IP_proto :: int where "IP_proto \<equiv> 9"
abbreviation (input) IP_checksum :: int where "IP_checksum \<equiv> 10"
abbreviation (input) IP_src :: int where "IP_src \<equiv> 12"
abbreviation (input) IP_dst :: int where "IP_dst \<equiv> 16"
abbreviation (input) sizeof_IPv4 :: int where "sizeof_IPv4 \<equiv> 20"

definition ip_header :: "buffer \<Rightarrow> IPv4" where
  "ip_header b = \<lparr>
     ipv4_version_ihl = peek8 b IP_version_ihl, ipv4_tos = peek8 b IP_tos,
     ipv4_len = peek16 b IP_len, ipv4_id = peek16 b IP_id,
     ipv4_flags_offset = peek16 b IP_flags_offset,
     ipv4_ttl = peek8 b IP_ttl, ipv4_proto = peek8 b IP_proto,
     ipv4_checksum = peek16 b IP_checksum,
     ipv4_src = peek32 b IP_src, ipv4_dst = peek32 b IP_dst\<rparr>"

text \<open>\<open>(ip->version_ihl & 0xf) * 4\<close>, the header length in bytes.\<close>

abbreviation ihl_of :: "buffer \<Rightarrow> int" where
  "ihl_of b \<equiv> hlen_low (peek8 b IP_version_ihl)"

section \<open>Operations\<close>

definition ip_validate :: "buffer \<Rightarrow> int \<Rightarrow> int option" where
  "ip_validate buf len =
     (if len < sizeof_IPv4 then Some 0
      else do {
        v \<leftarrow> load8 buf IP_version_ihl;
        let ihl = hlen_low v;
        if ihl < 20 \<or> ihl > len then Some 0
        else if drop_bit 4 v \<noteq> 4 then Some 0
        else do {
          c \<leftarrow> checksum buf 0 ihl;
          if c \<noteq> 0 then Some 0 else Some 1
        }
      })"

definition ip_swap_dst :: "buffer \<Rightarrow> buffer option" where
  "ip_swap_dst buf = do {
     src \<leftarrow> load32 buf IP_src;
     dst \<leftarrow> load32 buf IP_dst;
     buf \<leftarrow> store32 buf IP_src dst;
     store32 buf IP_dst src
   }"

definition ip_checksum :: "buffer \<Rightarrow> buffer option" where
  "ip_checksum buf = do {
     v \<leftarrow> load8 buf IP_version_ihl;
     let ihl = hlen_low v;
     buf \<leftarrow> store16 buf IP_checksum 0;
     c \<leftarrow> checksum buf 0 ihl;
     store16 buf IP_checksum c
   }"

section \<open>What the operations do\<close>

definition swapped :: "buffer \<Rightarrow> buffer" where
  "swapped b = poke32 (poke32 b IP_src (peek32 b IP_dst)) IP_dst (peek32 b IP_src)"

definition ip_summed :: "buffer \<Rightarrow> buffer" where
  "ip_summed b = poke16 b IP_checksum (cks (bytes_at (poke16 b IP_checksum 0) 0 (ihl_of b)))"

lemma length_swapped [simp]: "length (swapped b) = length b"
  by (simp add: swapped_def)

lemma length_ip_summed [simp]: "length (ip_summed b) = length b"
  by (simp add: ip_summed_def)

lemma ip_swap_dst_eq [op_simps]: "20 \<le> length b \<Longrightarrow> ip_swap_dst b = Some (swapped b)"
  by (simp add: ip_swap_dst_def swapped_def in_range_def mem_simps)

lemma ip_checksum_eq [op_simps]: "60 \<le> length b \<Longrightarrow> ip_checksum b = Some (ip_summed b)"
  using hlen_low_bounds [of "peek8 b 0"]
  by (simp add: ip_checksum_def ip_summed_def in_range_def mem_simps op_simps c16.poke_poke)

lemma ip_header_swapped:
  "20 \<le> length b \<Longrightarrow>
   ip_header (swapped b) =
     (ip_header b)\<lparr>ipv4_src := ipv4_dst (ip_header b), ipv4_dst := ipv4_src (ip_header b)\<rparr>"
  by (simp add: ip_header_def swapped_def in_range_def mem_simps)

lemma ip_header_summed:
  "20 \<le> length b \<Longrightarrow>
   ip_header (ip_summed b) = (ip_header b)\<lparr>ipv4_checksum := peek16 (ip_summed b) IP_checksum\<rparr>"
  by (simp add: ip_header_def ip_summed_def in_range_def mem_simps)

lemma ip_validate_eq:
  assumes "len < 20 \<or> len \<le> int (length b)"
  shows "ip_validate b len = Some (if 20 \<le> len \<and> 20 \<le> ihl_of b \<and> ihl_of b \<le> len \<and>
    drop_bit 4 (peek8 b 0) = 4 \<and> cks (bytes_at b 0 (ihl_of b)) = 0 then 1 else 0)"
proof (cases "len < 20")
  case False
  have "checksum b 0 (ihl_of b) = Some (cks (bytes_at b 0 (ihl_of b)))" if "ihl_of b \<le> len"
    using False assms that hlen_low_bounds [of "peek8 b 0"]
    by (intro checksum_eq) (auto simp: in_range_def)
  with False assms show ?thesis
    by (auto simp: ip_validate_def in_range_def mem_simps Let_def)
qed (simp add: ip_validate_def)

lemma peek_ip_summed [mem_simps]:
  assumes "20 \<le> length b" "0 \<le> i"
  shows "i + 1 \<le> 10 \<or> 12 \<le> i \<Longrightarrow> peek8 (ip_summed b) i = peek8 b i"
    and "i + 2 \<le> 10 \<or> 12 \<le> i \<Longrightarrow> peek16 (ip_summed b) i = peek16 b i"
    and "i + 4 \<le> 10 \<or> 12 \<le> i \<Longrightarrow> peek32 (ip_summed b) i = peek32 b i"
  using assms by (auto simp: ip_summed_def mem_simps)

lemma peek_swapped [mem_simps]:
  assumes "20 \<le> length b" "0 \<le> i"
  shows "i + 1 \<le> 12 \<or> 20 \<le> i \<Longrightarrow> peek8 (swapped b) i = peek8 b i"
    and "i + 2 \<le> 12 \<or> 20 \<le> i \<Longrightarrow> peek16 (swapped b) i = peek16 b i"
    and "i + 4 \<le> 12 \<or> 20 \<le> i \<Longrightarrow> peek32 (swapped b) i = peek32 b i"
  using assms by (auto simp: swapped_def mem_simps)

lemma peek_swapped_addr [mem_simps]:
  "20 \<le> length b \<Longrightarrow> peek32 (swapped b) IP_src = peek32 b IP_dst"
  "20 \<le> length b \<Longrightarrow> peek32 (swapped b) IP_dst = peek32 b IP_src"
  by (simp_all add: swapped_def in_range_def mem_simps)

lemma bytes_at_swapped [mem_simps]: "20 \<le> i \<Longrightarrow> bytes_at (swapped b) i n = bytes_at b i n"
  by (simp add: swapped_def mem_simps)

lemma bytes_at_ip_summed [mem_simps]: "12 \<le> i \<Longrightarrow> bytes_at (ip_summed b) i n = bytes_at b i n"
  by (simp add: ip_summed_def mem_simps)

lemma ip_header_poke [mem_simps]:
  "20 \<le> i \<Longrightarrow> ip_header (poke8 b i v) = ip_header b"
  "20 \<le> i \<Longrightarrow> ip_header (poke16 b i w) = ip_header b"
  "20 \<le> i \<Longrightarrow> ip_header (poke32 b i u) = ip_header b"
  by (simp_all add: ip_header_def mem_simps)

text \<open>A renewed header verifies.\<close>

lemma cks_ip_summed:
  assumes "60 \<le> length b" "20 \<le> ihl_of b"
  shows "cks (bytes_at (ip_summed b) 0 (ihl_of b)) = 0"
  using cks_roundtrip [of b 0 "ihl_of b" 10] assms hlen_low_bounds [of "peek8 b 0"]
  by (simp add: ip_summed_def in_range_def)

section \<open>Properties\<close>

text \<open>
  C27: \<open>ip_validate\<close> reads nothing outside the received bytes and answers 1 exactly for a
  header of at least 20 bytes that fits the packet, has version 4 and verifies under RFC
  1071; every other packet gets 0.
\<close>

theorem ip_validate_decides:
  assumes "len \<le> int (length buf)"
  shows "ip_validate buf len = Some (if 20 \<le> len \<and> 20 \<le> ihl_of buf \<and> ihl_of buf \<le> len \<and>
      drop_bit 4 (ipv4_version_ihl (ip_header buf)) = 4 \<and>
      rfc1071 (words16 (bytes_at buf 0 (ihl_of buf))) = 0
    then 1 else 0)"
  using ip_validate_eq [of len buf] assms by (simp add: ip_header_def rfc1071_words16)

definition sample_ip :: buffer where
  "sample_ip = poke16 sample_header IP_checksum 0x61b8 @ replicate 40 0"

theorem ip_validate_decides_witness:
  "ip_validate sample_ip 60 = Some 1 \<and>
   rfc1071 (words16 (bytes_at sample_ip 0 (ihl_of sample_ip))) = 0"
proof -
  have l: "60 \<le> int (length sample_ip)"
    by (simp add: sample_ip_def sample_header_def)
  have v: "ip_validate sample_ip 60 = Some 1"
    by code_simp
  show ?thesis
    using v ip_validate_decides [OF l] by (simp split: if_splits)
qed

text \<open>
  Whatever the checksum field held, \<open>ip_checksum\<close> leaves a version 4 header of legal
  length that \<open>ip_validate\<close> accepts; no other field and no byte after the header changes.
\<close>

theorem ip_checksum_then_validate:
  assumes "60 \<le> length buf" "drop_bit 4 (peek8 buf 0) = 4"
    and "20 \<le> ihl_of buf" "ihl_of buf \<le> len" "len \<le> int (length buf)"
  shows "\<exists>buf'. ip_checksum buf = Some buf' \<and> ip_validate buf' len = Some 1 \<and>
    (\<exists>c. ip_header buf' = (ip_header buf)\<lparr>ipv4_checksum := c\<rparr>) \<and>
    bytes_at buf' 20 (int (length buf) - 20) = bytes_at buf 20 (int (length buf) - 20)"
proof -
  have "ip_validate (ip_summed buf) len = Some 1"
    using assms cks_ip_summed [of buf] by (simp add: ip_validate_eq mem_simps)
  moreover have "ip_header (ip_summed buf) =
      (ip_header buf)\<lparr>ipv4_checksum := peek16 (ip_summed buf) IP_checksum\<rparr>"
    using assms by (simp add: ip_header_summed)
  ultimately show ?thesis
    using assms by (auto simp: ip_checksum_eq mem_simps)
qed

theorem ip_checksum_then_validate_witness:
  "\<exists>buf'. ip_checksum (sample_header @ replicate 40 0) = Some buf' \<and> ip_validate buf' 60 = Some 1"
proof -
  let ?b = "sample_header @ replicate 40 0"
  have "60 \<le> length ?b" "drop_bit 4 (peek8 ?b 0) = 4" "ihl_of ?b = 20"
    by (simp_all add: sample_header_def peek8_def hlen_low_def)
  then show ?thesis
    using ip_checksum_then_validate [of ?b 60] by auto
qed

end
