(* ===== verification/Icmp.thy ===== *)
theory Icmp
  imports Ipv4
begin

text \<open>
  \<open>refactor/network/icmp/icmp.c\<close>: echo replies and protocol-unreachable messages, built in
  place in the packet buffer. \<open>offset\<close> is the length of the IP header, where the ICMP
  message starts. The lemmas give every reply byte for byte; the properties say that the
  replies verify, keep the payload and stay inside the 1500-byte buffer.
\<close>

section \<open>The message header\<close>

record ICMP =
  icmp_type :: byte
  icmp_code :: byte
  icmp_cksum :: u16
  icmp_identifier :: u16
  icmp_sequence_no :: u16

abbreviation (input) ICMP_type :: int where "ICMP_type \<equiv> 0"
abbreviation (input) ICMP_code :: int where "ICMP_code \<equiv> 1"
abbreviation (input) ICMP_checksum :: int where "ICMP_checksum \<equiv> 2"
abbreviation (input) ICMP_identifier :: int where "ICMP_identifier \<equiv> 4"
abbreviation (input) ICMP_sequence_no :: int where "ICMP_sequence_no \<equiv> 6"
abbreviation (input) sizeof_ICMP :: int where "sizeof_ICMP \<equiv> 8"

abbreviation (input) MTU_SIZE :: int where "MTU_SIZE \<equiv> 1500"
abbreviation (input) PROTO_ICMP :: byte where "PROTO_ICMP \<equiv> 1"
abbreviation (input) PROTO_TCP :: byte where "PROTO_TCP \<equiv> 6"

abbreviation (input) ICMP_ECHO :: byte where "ICMP_ECHO \<equiv> 8"
abbreviation (input) ICMP_DST_UNREACHABLE :: byte where "ICMP_DST_UNREACHABLE \<equiv> 3"
abbreviation (input) ICMP_PROTO_UNREACHABLE :: byte where "ICMP_PROTO_UNREACHABLE \<equiv> 2"

definition icmp_header :: "buffer \<Rightarrow> int \<Rightarrow> ICMP" where
  "icmp_header b icmp = \<lparr>
     icmp_type = peek8 b (icmp + ICMP_type), icmp_code = peek8 b (icmp + ICMP_code),
     icmp_cksum = peek16 b (icmp + ICMP_checksum),
     icmp_identifier = peek16 b (icmp + ICMP_identifier),
     icmp_sequence_no = peek16 b (icmp + ICMP_sequence_no)\<rparr>"

section \<open>Operations\<close>

definition icmp_checksum :: "buffer \<Rightarrow> int \<Rightarrow> int \<Rightarrow> buffer option" where
  "icmp_checksum buf icmp len = do {
     buf \<leftarrow> store16 buf (icmp + ICMP_checksum) 0;
     c \<leftarrow> checksum buf icmp len;
     store16 buf (icmp + ICMP_checksum) c
   }"

definition icmp_validate :: "buffer \<Rightarrow> int \<Rightarrow> int \<Rightarrow> int option" where
  "icmp_validate buf icmp len =
     (if len < 8 then Some 0
      else do {
        c \<leftarrow> checksum buf icmp len;
        if c \<noteq> 0 then Some 0 else Some 1
      })"

text \<open>
  The local array \<open>icmp_pl[68]\<close> is written before it is read; its indeterminate initial
  contents are taken as zeros.
\<close>

definition icmp_dest_unreachable :: "buffer \<Rightarrow> int \<Rightarrow> int \<Rightarrow> (int \<times> buffer) option" where
  "icmp_dest_unreachable buf len offset = (
     let dgram_len = (if len - offset < 8 then len - offset else 8);
         icmp_pl_len = offset + dgram_len;
         ip_len = offset + sizeof_ICMP + icmp_pl_len
     in if ip_len > MTU_SIZE then Some (0, buf)
        else do {
          icmp_pl \<leftarrow> memcpy (replicate 68 0) 0 buf 0 offset;
          icmp_pl \<leftarrow> memcpy icmp_pl offset buf offset dgram_len;
          buf \<leftarrow> store16 buf IP_len (htons (word_of_int ip_len));
          buf \<leftarrow> store16 buf IP_id 0;
          buf \<leftarrow> store8 buf IP_proto PROTO_ICMP;
          buf \<leftarrow> ip_swap_dst buf;
          buf \<leftarrow> ip_checksum buf;
          buf \<leftarrow> store8 buf (offset + ICMP_type) ICMP_DST_UNREACHABLE;
          buf \<leftarrow> store8 buf (offset + ICMP_code) ICMP_PROTO_UNREACHABLE;
          buf \<leftarrow> store16 buf (offset + ICMP_identifier) 0;
          buf \<leftarrow> store16 buf (offset + ICMP_sequence_no) 0;
          buf \<leftarrow> memcpy buf (offset + sizeof_ICMP) icmp_pl 0 icmp_pl_len;
          buf \<leftarrow> icmp_checksum buf offset (sizeof_ICMP + icmp_pl_len);
          Some (ip_len, buf)
        })"

definition icmp_echo_reply :: "buffer \<Rightarrow> int \<Rightarrow> int \<Rightarrow> (int \<times> buffer) option" where
  "icmp_echo_reply buf len offset = do {
     buf \<leftarrow> store8 buf (offset + ICMP_type) 0;
     buf \<leftarrow> store8 buf (offset + ICMP_code) 0;
     buf \<leftarrow> icmp_checksum buf offset (len - offset);
     buf \<leftarrow> ip_swap_dst buf;
     buf \<leftarrow> ip_checksum buf;
     Some (len, buf)
   }"

definition icmp_dispatch :: "buffer \<Rightarrow> int \<Rightarrow> int \<Rightarrow> (int \<times> buffer) option" where
  "icmp_dispatch buf len offset = do {
     ok \<leftarrow> icmp_validate buf offset (len - offset);
     if ok = 0 then Some (0, buf)
     else do {
       t \<leftarrow> load8 buf (offset + ICMP_type);
       if t = ICMP_ECHO then icmp_echo_reply buf len offset else Some (0, buf)
     }
   }"

section \<open>What the operations do\<close>

definition icmp_summed :: "buffer \<Rightarrow> int \<Rightarrow> int \<Rightarrow> buffer" where
  "icmp_summed b i n = poke16 b (i + 2) (cks (bytes_at (poke16 b (i + 2) 0) i n))"

definition echo_reply :: "buffer \<Rightarrow> int \<Rightarrow> int \<Rightarrow> buffer" where
  "echo_reply b len off =
     ip_summed (swapped (icmp_summed (poke8 (poke8 b off 0) (off + 1) 0) off (len - off)))"

lemma length_icmp_summed [simp]: "length (icmp_summed b i n) = length b"
  by (simp add: icmp_summed_def)

lemma length_echo_reply [simp]: "length (echo_reply b len off) = length b"
  by (simp add: echo_reply_def)

lemma icmp_checksum_eq [op_simps]:
  assumes "in_range b i n" "8 \<le> n" "n \<le> 131072"
  shows "icmp_checksum b i n = Some (icmp_summed b i n)"
proof -
  have "in_range b (i + 2) 2" using assms by (auto simp: in_range_def)
  with assms show ?thesis
    by (simp add: icmp_checksum_def icmp_summed_def mem_simps op_simps c16.poke_poke)
qed

lemma icmp_validate_eq [op_simps]:
  "in_range b i n \<Longrightarrow> n \<le> 131072 \<Longrightarrow>
   icmp_validate b i n = Some (if 8 \<le> n \<and> cks (bytes_at b i n) = 0 then 1 else 0)"
  by (simp add: icmp_validate_def op_simps)

lemma cks_icmp_summed:
  "in_range b i n \<Longrightarrow> 8 \<le> n \<Longrightarrow> cks (bytes_at (icmp_summed b i n) i n) = 0"
  using cks_roundtrip [of b i n 2] by (simp add: icmp_summed_def)

lemma icmp_echo_reply_eq [op_simps]:
  assumes "60 \<le> length b" "len \<le> int (length b)" "20 \<le> off" "off + 8 \<le> len" "len \<le> 131072"
  shows "icmp_echo_reply b len off = Some (len, echo_reply b len off)"
  using assms by (simp add: icmp_echo_reply_def echo_reply_def in_range_def mem_simps op_simps)

text \<open>The quoted datagram: the IP header and up to eight bytes after it.\<close>

definition quoted_len :: "int \<Rightarrow> int \<Rightarrow> int" where
  "quoted_len len off = off + (if len - off < 8 then len - off else 8)"

definition unreachable_ip :: "buffer \<Rightarrow> int \<Rightarrow> buffer" where
  "unreachable_ip b n = ip_summed (swapped
     (poke8 (poke16 (poke16 b IP_len (htons (word_of_int n))) IP_id 0) IP_proto PROTO_ICMP))"

definition unreachable :: "buffer \<Rightarrow> int \<Rightarrow> int \<Rightarrow> buffer" where
  "unreachable b len off = (
     let q = quoted_len len off;
         m = poke16 (poke16 (poke8 (poke8 (unreachable_ip b (off + 8 + q)) off 3) (off + 1) 2)
               (off + 4) 0) (off + 6) 0
     in icmp_summed (blit m (off + 8) b 0 q) off (8 + q))"

lemma length_unreachable_ip [simp]: "length (unreachable_ip b n) = length b"
  by (simp add: unreachable_ip_def)

lemma quoted_len_bounds:
  "0 \<le> off \<Longrightarrow> off \<le> len \<Longrightarrow> off \<le> 60 \<Longrightarrow>
   0 \<le> quoted_len len off \<and> quoted_len len off \<le> len \<and> quoted_len len off \<le> 68"
  by (simp add: quoted_len_def)

lemma icmp_dest_unreachable_eq [op_simps]:
  assumes "length b = 1500" "20 \<le> off" "off \<le> 60" "off \<le> len" "len \<le> 1500"
  shows "icmp_dest_unreachable b len off =
    Some (off + 8 + quoted_len len off, unreachable b len off)"
proof -
  let ?d = "if len - off < 8 then len - off else 8" and ?q = "quoted_len len off"
  let ?pl = "blit (blit (replicate 68 0) 0 b 0 off) off b off ?d"
  have q: "off + ?d = ?q" "0 \<le> ?q" "?q \<le> 68" "?q \<le> len"
    using assms quoted_len_bounds [of off len] by (auto simp: quoted_len_def)
  have quote: "bytes_at ?pl 0 ?q = bytes_at b 0 ?q"
    using bytes_at_blit_blit [of off ?d "replicate 68 0" b] assms q by (simp add: in_range_def)
  have lens: "length (blit (replicate 68 0) 0 b 0 off) = 68" "length ?pl = 68"
    using assms by (simp_all add: in_range_def)
  show ?thesis
    using assms q lens blit_source_cong [OF quote]
    by (simp add: icmp_dest_unreachable_def unreachable_def unreachable_ip_def Let_def
        in_range_def mem_simps op_simps flip: q(1))
qed

lemma peek_icmp_summed [mem_simps]:
  assumes "0 \<le> i" "0 \<le> j"
  shows "j + 1 \<le> i + 2 \<or> i + 4 \<le> j \<Longrightarrow> peek8 (icmp_summed b i n) j = peek8 b j"
    and "j + 2 \<le> i + 2 \<or> i + 4 \<le> j \<Longrightarrow> peek16 (icmp_summed b i n) j = peek16 b j"
  using assms by (auto simp: icmp_summed_def mem_simps)

lemma bytes_at_icmp_summed [mem_simps]:
  "0 \<le> i \<Longrightarrow> 0 \<le> j \<Longrightarrow> j + m \<le> i + 2 \<or> i + 4 \<le> j \<Longrightarrow>
   bytes_at (icmp_summed b i n) j m = bytes_at b j m"
  by (auto simp: icmp_summed_def mem_simps)

lemma ip_header_icmp_summed [mem_simps]: "20 \<le> i \<Longrightarrow> ip_header (icmp_summed b i n) = ip_header b"
  by (simp add: icmp_summed_def mem_simps)

text \<open>A buffer as the server loop hands it to the protocol handlers.\<close>

definition received :: "buffer \<Rightarrow> int \<Rightarrow> bool" where
  "received buf len \<longleftrightarrow> length buf = 1500 \<and> len \<le> MTU_SIZE"

lemma validatedD:
  assumes "received buf len" "ip_validate buf len = Some 1"
  shows "20 \<le> ihl_of buf" "ihl_of buf \<le> 60" "ihl_of buf \<le> len" "drop_bit 4 (peek8 buf 0) = 4"
    "cks (bytes_at buf 0 (ihl_of buf)) = 0"
  using assms ip_validate_eq [of len buf] hlen_low_bounds [of "peek8 buf 0"]
  by (auto simp: received_def split: if_splits)

lemma ip_validate_1I:
  assumes "received buf len" "20 \<le> ihl_of buf" "ihl_of buf \<le> len" "drop_bit 4 (peek8 buf 0) = 4"
    "cks (bytes_at buf 0 (ihl_of buf)) = 0"
  shows "ip_validate buf len = Some 1"
  using assms ip_validate_eq [of len buf] by (simp add: received_def)

section \<open>Properties\<close>

text \<open>
  C23: a valid echo request is turned into a valid echo reply of the same length: type and code
  become 0, identifier, sequence number and payload come back unchanged, the addresses are
  exchanged, nothing else in the IP header changes, and both checksums verify.
\<close>

theorem icmp_echo_answered:
  assumes "received buf len" "ip_validate buf len = Some 1" "offset = ihl_of buf"
    and "icmp_validate buf offset (len - offset) = Some 1" "icmp_type (icmp_header buf offset) = ICMP_ECHO"
  shows "\<exists>buf' c. icmp_dispatch buf len offset = Some (len, buf') \<and>
    icmp_type (icmp_header buf' offset) = 0 \<and> icmp_code (icmp_header buf' offset) = 0 \<and>
    bytes_at buf' (offset + 4) (len - offset - 4) = bytes_at buf (offset + 4) (len - offset - 4) \<and>
    ip_header buf' = (ip_header buf)\<lparr>ipv4_src := ipv4_dst (ip_header buf),
      ipv4_dst := ipv4_src (ip_header buf), ipv4_checksum := c\<rparr> \<and>
    ip_validate buf' len = Some 1 \<and> icmp_validate buf' offset (len - offset) = Some 1"
proof -
  note v = validatedD [OF assms(1,2)]
  let ?r = "echo_reply buf len offset"
    and ?s = "icmp_summed (poke8 (poke8 buf offset 0) (offset + 1) 0) offset (len - offset)"
  have len: "length buf = 1500" "len \<le> 1500" and off: "20 \<le> offset" "offset \<le> 60"
    using assms v by (auto simp: received_def)
  have n: "offset + 8 \<le> len"
  proof -
    have "in_range buf offset (len - offset)"
      using len off by (simp add: in_range_def)
    with assms(4) len off show ?thesis
      using icmp_validate_eq [of buf offset "len - offset"] by (auto split: if_splits)
  qed
  have "icmp_dispatch buf len offset = Some (len, ?r)"
    using assms len off n by (simp add: icmp_dispatch_def icmp_header_def in_range_def mem_simps op_simps)
  moreover have "icmp_type (icmp_header ?r offset) = 0" "icmp_code (icmp_header ?r offset) = 0"
    using len off n by (simp_all add: icmp_header_def echo_reply_def in_range_def mem_simps)
  moreover have "bytes_at ?r (offset + 4) (len - offset - 4) = bytes_at buf (offset + 4) (len - offset - 4)"
    using off by (simp add: echo_reply_def mem_simps)
  moreover have "ip_header ?r = (ip_header buf)\<lparr>ipv4_src := ipv4_dst (ip_header buf),
      ipv4_dst := ipv4_src (ip_header buf), ipv4_checksum := peek16 ?r IP_checksum\<rparr>"
    using len off by (simp add: echo_reply_def ip_header_summed ip_header_swapped mem_simps)
  moreover have "peek8 ?r 0 = peek8 buf 0"
    using len off by (simp add: echo_reply_def mem_simps)
  then have "ip_validate ?r len = Some 1"
    using assms(1,3) len off v n cks_ip_summed [of "swapped ?s"]
    by (intro ip_validate_1I) (simp_all add: received_def echo_reply_def mem_simps)
  moreover have "icmp_validate ?r offset (len - offset) = Some 1"
    using len off n cks_icmp_summed [of "poke8 (poke8 buf offset 0) (offset + 1) 0" offset "len - offset"]
    by (simp add: echo_reply_def in_range_def mem_simps op_simps)
  ultimately show ?thesis by blast
qed

definition ping :: buffer where
  "ping = [0x45, 0, 0, 0x1c, 0, 1, 0, 0, 0x40, 1, 0x66, 0xce, 0xa, 8, 0, 2, 0xa, 8, 0, 1, 8, 0, 0xe5, 0xca, 0x12, 0x34, 0, 1] @ replicate 1472 0"

lemma ping_facts:
  "received ping 28" "ip_validate ping 28 = Some 1" "ihl_of ping = 20"
  "icmp_validate ping 20 8 = Some 1" "icmp_type (icmp_header ping 20) = ICMP_ECHO"
proof -
  show "received ping 28" by (simp add: received_def ping_def)
  show "ip_validate ping 28 = Some 1" by code_simp
  show "ihl_of ping = 20" by code_simp
  show "icmp_validate ping 20 8 = Some 1" by code_simp
  show "icmp_type (icmp_header ping 20) = ICMP_ECHO" by code_simp
qed

theorem icmp_echo_answered_witness:
  "\<exists>buf'. icmp_dispatch ping 28 20 = Some (28, buf') \<and> ip_validate buf' 28 = Some 1 \<and>
     icmp_validate buf' 20 8 = Some 1"
  using icmp_echo_answered [of ping 28 20] ping_facts by auto

text \<open>
  The ICMP handler drops silently, with the buffer untouched, every message that is shorter
  than its header, fails its checksum or is not an echo request.
\<close>

theorem icmp_dispatch_drops:
  assumes "received buf len" "0 \<le> offset" "offset \<le> len"
    and "len - offset < 8 \<or> rfc1071 (words16 (bytes_at buf offset (len - offset))) \<noteq> 0 \<or>
      icmp_type (icmp_header buf offset) \<noteq> ICMP_ECHO"
  shows "icmp_dispatch buf len offset = Some (0, buf)"
proof -
  have r: "in_range buf offset (len - offset)" "len - offset \<le> 131072"
    using assms by (simp_all add: received_def in_range_def)
  have "load8 buf offset = Some (peek8 buf offset)" if "8 \<le> len - offset"
    using that assms by (intro load_in_range) (simp add: received_def in_range_def)
  with r assms show ?thesis
    by (auto simp: icmp_dispatch_def icmp_validate_eq icmp_header_def rfc1071_words16)
qed

theorem icmp_dispatch_drops_witness:
  "icmp_dispatch (poke8 ping 20 13) 28 20 = Some (0, poke8 ping 20 13)"
proof -
  have "received (poke8 ping 20 13) 28"
    by (simp add: received_def ping_def)
  moreover have "icmp_type (icmp_header (poke8 ping 20 13) 20) = 13"
    by code_simp
  ultimately show ?thesis
    using icmp_dispatch_drops [of "poke8 ping 20 13" 28 20] by simp
qed

text \<open>
  C24: for a valid packet of an unhandled protocol, \<open>icmp_dest_unreachable\<close> stays inside the
  buffer and inside its 68-byte local array, and builds a packet of at most 136 bytes: a
  protocol-unreachable message to the sender whose payload is the original IP header and up
  to eight bytes after it, whose length field is the returned length, and whose two checksums
  verify.
\<close>

theorem icmp_unreachable_built:
  assumes "received buf len" "ip_validate buf len = Some 1" "offset = ihl_of buf"
  defines "q \<equiv> offset + min 8 (len - offset)"
  shows "\<exists>buf' n. icmp_dest_unreachable buf len offset = Some (n, buf') \<and>
    n = offset + 8 + q \<and> n \<le> 136 \<and> length buf' = length buf \<and>
    ipv4_len (ip_header buf') = htons (word_of_int n) \<and> ipv4_proto (ip_header buf') = PROTO_ICMP \<and>
    ipv4_src (ip_header buf') = ipv4_dst (ip_header buf) \<and>
    ipv4_dst (ip_header buf') = ipv4_src (ip_header buf) \<and>
    icmp_type (icmp_header buf' offset) = ICMP_DST_UNREACHABLE \<and>
    icmp_code (icmp_header buf' offset) = ICMP_PROTO_UNREACHABLE \<and>
    bytes_at buf' (offset + 8) q = bytes_at buf 0 q \<and>
    ip_validate buf' n = Some 1 \<and> icmp_validate buf' offset (n - offset) = Some 1"
proof -
  note v = validatedD [OF assms(1,2)]
  let ?r = "unreachable buf len offset" and ?h = "unreachable_ip buf (offset + 8 + q)"
  have len: "length buf = 1500" "len \<le> 1500" and off: "20 \<le> offset" "offset \<le> 60" "offset \<le> len"
    using assms v by (auto simp: received_def)
  have q: "quoted_len len offset = q" "0 \<le> q" "q \<le> 68" "offset \<le> q"
    using off by (auto simp: q_def quoted_len_def)
  have d: "icmp_dest_unreachable buf len offset = Some (offset + 8 + q, ?r)"
    using len off q by (simp add: op_simps)
  have hdr: "peek8 ?r i = peek8 ?h i" "peek16 ?r i = peek16 ?h i" "peek32 ?r i = peek32 ?h i"
    if "0 \<le> i" "i \<le> 16" for i
    using that len off q by (simp_all add: unreachable_def icmp_summed_def Let_def in_range_def mem_simps)
  have front: "bytes_at ?r 0 offset = bytes_at ?h 0 offset"
    using len off q by (simp add: unreachable_def Let_def in_range_def mem_simps)
  have fields: "peek16 ?h 2 = htons (word_of_int (offset + 8 + q))" "peek8 ?h 9 = 1"
    "peek32 ?h 12 = peek32 buf 16" "peek32 ?h 16 = peek32 buf 12" "peek8 ?h 0 = peek8 buf 0"
    using len by (simp_all add: unreachable_ip_def in_range_def mem_simps)
  have "cks (bytes_at ?r 0 (ihl_of buf)) = 0"
    using cks_ip_summed [of "swapped (poke8 (poke16 (poke16 buf 2 (htons (word_of_int (offset + 8 + q)))) 4 0) 9 1)"]
      front len off assms(3) by (simp add: unreachable_ip_def mem_simps)
  then have "ip_validate ?r (offset + 8 + q) = Some 1"
    using len off q v assms(3) hdr(1) [of 0] fields
    by (intro ip_validate_1I) (simp_all add: received_def unreachable_def Let_def in_range_def)
  moreover have "bytes_at ?r (offset + 8) q = bytes_at buf 0 q"
    using len off q by (simp add: unreachable_def Let_def in_range_def mem_simps)
  moreover have "peek8 ?r offset = 3" "peek8 ?r (offset + 1) = 2" "length ?r = length buf"
    using len off q by (simp_all add: unreachable_def Let_def in_range_def mem_simps)
  moreover have "icmp_validate ?r offset (8 + q) = Some 1"
    using len off q by (simp add: unreachable_def Let_def in_range_def mem_simps op_simps cks_icmp_summed)
  ultimately show ?thesis
    using d q off hdr fields by (simp add: icmp_header_def ip_header_def algebra_simps)
qed

definition udp_packet :: buffer where
  "udp_packet = [0x45, 0, 0, 0x20, 0, 1, 0, 0, 0x40, 0x11, 0x66, 0xba, 0xa, 8, 0, 2, 0xa, 8, 0, 1, 1, 2, 3, 4, 5, 6, 7, 8, 9, 0xa, 0xb, 0xc] @ replicate 1468 0"

theorem icmp_unreachable_built_witness:
  "\<exists>buf'. icmp_dest_unreachable udp_packet 32 20 = Some (56, buf') \<and> ip_validate buf' 56 = Some 1"
proof -
  have "received udp_packet 32" by (simp add: received_def udp_packet_def)
  moreover have "ip_validate udp_packet 32 = Some 1" by code_simp
  moreover have "ihl_of udp_packet = 20" by code_simp
  ultimately show ?thesis
    using icmp_unreachable_built [of udp_packet 32 20] by auto
qed

end
