(* ===== verification/Tcb.thy ===== *)
theory Tcb
  imports Prelude
begin

text \<open>
  \<open>refactor/network/tcp/tcb.h\<close> and the stateless part of \<open>tcb.c\<close>: the control block of a
  connection, its identity, its creation, and the sequence-number comparisons. The blocks
  live on the C heap, modelled as a map from addresses to blocks. Addresses are serial
  numbers of allocator calls, so they are never reused and a stale pointer is never
  accidentally valid again; 0 is \<open>NULL\<close>. The field \<open>oom\<close> says which allocator calls fail;
  nothing is assumed about it. \<open>arrays\<close> counts the live arrays of the vectors of theory \<open>Vector\<close>. The operation \<open>tcb_state_update\<close>, which also needs the
  connection table, is in theory \<open>Tcp\<close>.
\<close>

section \<open>Data\<close>

datatype Edge = EVT_SYN | EVT_DATA | EVT_ACK | EVT_FIN | EVT_RST | EVT_DROP | EVT_SEND_RST

datatype Con_State =
  CON_CLOSED | CON_SYN_RECEIVED | CON_ESTABLISHED | CON_CLOSE_WAIT | CON_CLOSING
| CON_LAST_ACK | CON_TIME_WAIT

record ID =
  id_src_port :: u16
  id_dst_port :: u16
  id_src_ip :: u32
  id_dst_ip :: u32

record Send_State =
  snd_unac :: u32
  snd_next :: u32
  snd_window :: u32
  snd_iss :: u32

record Receive_State =
  rcv_next :: u32
  rcv_window :: u32
  rcv_irs :: u32

definition TCP_RCVBUF :: nat where "TCP_RCVBUF = 16384"
abbreviation (input) TCP_WIN_DEF :: u32 where "TCP_WIN_DEF \<equiv> 8192"

record TCB =
  tcb_id :: ID
  tcb_send :: Send_State
  tcb_recv :: Receive_State
  recv_buf :: "byte list"
  recv_size :: u32
  recv_consumed :: u32
  con_state :: Con_State

section \<open>The heap\<close>

type_synonym ptr = nat

abbreviation (input) NULL :: ptr where "NULL \<equiv> 0"

record mem =
  heap :: "ptr \<rightharpoonup> TCB"
  nalloc :: nat
  oom :: "nat \<Rightarrow> bool"
  arrays :: nat

text \<open>One allocator call: whether it succeeds, and the memory with the call counted.\<close>

definition malloc :: "'a mem_scheme \<Rightarrow> bool \<times> 'a mem_scheme" where
  "malloc s = (\<not> oom s (nalloc s), s\<lparr>nalloc := nalloc s + 1\<rparr>)"

definition deref :: "'a mem_scheme \<Rightarrow> ptr \<Rightarrow> TCB option" where
  "deref s p = (if p = NULL then None else heap s p)"

definition assign :: "'a mem_scheme \<Rightarrow> ptr \<Rightarrow> TCB \<Rightarrow> 'a mem_scheme option" where
  "assign s p t = (if deref s p = None then None else Some (s\<lparr>heap := (heap s)(p \<mapsto> t)\<rparr>))"

definition free :: "'a mem_scheme \<Rightarrow> ptr \<Rightarrow> 'a mem_scheme option" where
  "free s p = (if p = NULL then Some s
     else if heap s p = None then None
     else Some (s\<lparr>heap := (heap s)(p := None)\<rparr>))"

text \<open>Every live address was handed out by an earlier allocator call.\<close>

definition mem_ok :: "'a mem_scheme \<Rightarrow> bool" where
  "mem_ok s \<longleftrightarrow> (\<forall>p \<in> dom (heap s). 0 < p \<and> p \<le> nalloc s)"

section \<open>Operations\<close>

definition tcb_id_match :: "ID \<Rightarrow> ID \<Rightarrow> bool" where
  "tcb_id_match a b \<longleftrightarrow> id_src_ip a = id_src_ip b \<and> id_dst_ip a = id_dst_ip b \<and>
     id_src_port a = id_src_port b \<and> id_dst_port a = id_dst_port b"

text \<open>The block after \<open>memset\<close> and the assignments of \<open>tcb_init\<close>.\<close>

definition fresh_tcb :: "ID \<Rightarrow> TCB" where
  "fresh_tcb i = \<lparr>tcb_id = i,
     tcb_send = \<lparr>snd_unac = 0, snd_next = 0, snd_window = 0, snd_iss = 0\<rparr>,
     tcb_recv = \<lparr>rcv_next = 0, rcv_window = TCP_WIN_DEF, rcv_irs = 0\<rparr>,
     recv_buf = replicate TCP_RCVBUF 0, recv_size = 0, recv_consumed = 0,
     con_state = CON_CLOSED\<rparr>"

definition tcb_init :: "'a mem_scheme \<Rightarrow> ID \<Rightarrow> ptr \<times> 'a mem_scheme" where
  "tcb_init s i = (let (ok, s) = malloc s
     in if \<not> ok then (NULL, s)
        else (nalloc s, s\<lparr>heap := (heap s)(nalloc s \<mapsto> fresh_tcb i)\<rparr>))"

text \<open>The sequence-number macros: the sign of the wrapped 32-bit difference.\<close>

definition SEQ_LT :: "u32 \<Rightarrow> u32 \<Rightarrow> bool" where "SEQ_LT a b \<longleftrightarrow> sint (a - b) < 0"
definition SEQ_LEQ :: "u32 \<Rightarrow> u32 \<Rightarrow> bool" where "SEQ_LEQ a b \<longleftrightarrow> sint (a - b) \<le> 0"
definition SEQ_GT :: "u32 \<Rightarrow> u32 \<Rightarrow> bool" where "SEQ_GT a b \<longleftrightarrow> sint (a - b) > 0"
definition SEQ_GEQ :: "u32 \<Rightarrow> u32 \<Rightarrow> bool" where "SEQ_GEQ a b \<longleftrightarrow> sint (a - b) \<ge> 0"

section \<open>Lemmas\<close>

lemma tcb_id_match_eq [simp]: "tcb_id_match a b \<longleftrightarrow> a = b"
  by (cases a; cases b) (auto simp: tcb_id_match_def)

lemma malloc_frame [simp]:
  "heap (snd (malloc s)) = heap s" "nalloc (snd (malloc s)) = nalloc s + 1" "arrays (snd (malloc s)) = arrays s"
  "mem.more (snd (malloc s)) = mem.more s"
  by (simp_all add: malloc_def)

lemma mem_okD: "mem_ok s \<Longrightarrow> heap s p = Some t \<Longrightarrow> 0 < p \<and> p \<le> nalloc s"
  by (auto simp: mem_ok_def)

lemma mem_ok_fresh: "mem_ok s \<Longrightarrow> nalloc s < p \<Longrightarrow> heap s p = None"
  by (metis mem_okD not_less option.exhaust)

lemma deref_heap [simp]: "mem_ok s \<Longrightarrow> deref s p = heap s p"
  using mem_okD [of s 0] by (cases "heap s 0") (auto simp: deref_def)

lemma sint_u32: "sint (d::u32) = (if unat d < 2147483648 then int (unat d) else int (unat d) - 4294967296)"
proof -
  let ?u = "uint d"
  have u: "0 \<le> ?u" "?u < 4294967296"
    using uint_lt2p [of d] by simp_all
  have "sint d = (?u + 2147483648) mod 4294967296 - 2147483648"
    by (simp add: sint_uint signed_take_bit_eq_take_bit_shift take_bit_eq_mod)
  moreover have "(?u + 2147483648) mod 4294967296 = ?u + 2147483648" if "?u < 2147483648"
    using u that by (intro mod_pos_pos_trivial) auto
  moreover have "(?u + 2147483648) mod 4294967296 = ?u - 2147483648" if "\<not> ?u < 2147483648"
  proof -
    have "(?u + 2147483648) mod 4294967296 = (?u - 2147483648 + 4294967296) mod 4294967296"
      by (simp add: algebra_simps)
    also have "\<dots> = (?u - 2147483648) mod 4294967296"
      by (rule mod_add_self2)
    also have "\<dots> = ?u - 2147483648"
      using u that by (intro mod_pos_pos_trivial) auto
    finally show ?thesis .
  qed
  moreover have "unat d < 2147483648 \<longleftrightarrow> ?u < 2147483648"
    by (simp only: unat_eq_nat_uint nat_less_iff [OF u(1)] of_nat_numeral)
  ultimately show ?thesis by auto
qed

lemma unat_diff_u32:
  "unat ((a::u32) - b) = (if unat b \<le> unat a then unat a - unat b else unat a + 4294967296 - unat b)"
  by (simp add: unat_sub_if' word_le_nat_alt)

text \<open>
  The window test: with a window of at most half the sequence space, the two macros together
  say that the distance from the left edge, taken modulo \<open>2 ^ 32\<close>, is below the window.
\<close>

lemma seq_window:
  assumes "unat win \<le> 2147483648"
  shows "SEQ_GEQ seq nxt \<and> SEQ_LT seq (nxt + win) \<longleftrightarrow> unat (seq - nxt) < unat win"
proof -
  have diff: "seq - (nxt + win) = (seq - nxt) - win" by simp
  have key: "0 \<le> (if d < 2147483648 then int d else int d - 4294967296) \<and>
      (if e < 2147483648 then int e else int e - 4294967296) < 0 \<longleftrightarrow> d < w"
    if "d < 4294967296" "w \<le> 2147483648" "e = (if w \<le> d then d - w else d + 4294967296 - w)"
    for d w e :: nat
    using that by auto
  show ?thesis
    unfolding SEQ_GEQ_def SEQ_LT_def diff sint_u32
  proof (rule key)
    show "unat (seq - nxt) < 4294967296"
      using unsigned_less [of "seq - nxt"] by simp
  qed (use assms unat_diff_u32 in blast)+
qed

end
