(* ===== verification/Vector.thy ===== *)
theory Vector
  imports Tcb "HOL-Library.Multiset"
begin

text \<open>
  \<open>refactor/network/tcp/vector.c\<close>: the growable array of control-block pointers that serves as
  a bucket of the connection table. The array behind \<open>data\<close> is the list \<open>vec_data\<close> (\<open>None\<close> for
  \<open>NULL\<close>), as long as the allocation; cells that \<open>malloc\<close> or \<open>realloc\<close> left indeterminate hold
  \<open>NULL\<close>. Reading or writing past the array, through a \<open>NULL\<close> array or through a stale block
  pointer is \<open>None\<close>. No other pointer leads to that array, so it is part of the vector's value; that
  it is allocated or freed shows in the count \<open>arrays\<close> of the memory. \<open>vec_elems\<close> is the abstraction to the stored pointers; the lemmas say
  that push appends, find returns the first match, delete removes one match by moving the
  last element into its place, and that a push that could not grow changes nothing.
\<close>

section \<open>Data and operations\<close>

record Vector =
  vec_data :: "ptr list option"
  vec_capacity :: u32
  vec_size :: u32

abbreviation (input) DEF_CAP :: u32 where "DEF_CAP \<equiv> 16"

definition vec_init :: "'a mem_scheme \<Rightarrow> Vector \<Rightarrow> bool \<times> Vector \<times> 'a mem_scheme" where
  "vec_init s vec = (let (ok, s) = malloc s
     in if \<not> ok then (False, vec, s)
        else (True, \<lparr>vec_data = Some (replicate (unat DEF_CAP) NULL), vec_capacity = DEF_CAP,
                     vec_size = 0\<rparr>, s\<lparr>arrays := arrays s + 1\<rparr>))"

definition vec_get :: "Vector \<Rightarrow> nat \<Rightarrow> ptr option" where
  "vec_get vec i = (case vec_data vec of None \<Rightarrow> None
     | Some d \<Rightarrow> if i < length d then Some (d ! i) else None)"

definition vec_set :: "Vector \<Rightarrow> nat \<Rightarrow> ptr \<Rightarrow> Vector option" where
  "vec_set vec i p = (case vec_data vec of None \<Rightarrow> None
     | Some d \<Rightarrow> if i < length d then Some (vec\<lparr>vec_data := Some (d[i := p])\<rparr>) else None)"

text \<open>
  \<open>realloc\<close> keeps the old cells that still fit. With size zero it is undefined, which the
  doubling reaches only from capacity 0 or, by wrap-around, \<open>2 ^ 31\<close>. The old array is replaced by the
  new one, so the number of arrays changes only if there was none.
\<close>

definition realloc_cells :: "ptr list option \<Rightarrow> nat \<Rightarrow> ptr list" where
  "realloc_cells d n = (let old = (case d of None \<Rightarrow> [] | Some xs \<Rightarrow> xs)
     in take n old @ replicate (n - length old) NULL)"

definition vec_grow :: "'a mem_scheme \<Rightarrow> Vector \<Rightarrow> (bool \<times> Vector \<times> 'a mem_scheme) option" where
  "vec_grow s vec = (let cap_new = vec_capacity vec * 2
     in if cap_new = 0 then None
        else let (ok, s) = malloc s
        in if \<not> ok then Some (False, vec, s)
           else Some (True, vec\<lparr>vec_data := Some (realloc_cells (vec_data vec) (unat cap_new)),
                                vec_capacity := cap_new\<rparr>,
                      if vec_data vec = None then s\<lparr>arrays := arrays s + 1\<rparr> else s))"

definition vec_push :: "'a mem_scheme \<Rightarrow> Vector \<Rightarrow> ptr \<Rightarrow> (bool \<times> Vector \<times> 'a mem_scheme) option" where
  "vec_push s vec tcb = do {
     (ok, vec, s) \<leftarrow> (if vec_size vec = vec_capacity vec then vec_grow s vec else Some (True, vec, s));
     if \<not> ok then Some (False, vec, s)
     else do {
       vec \<leftarrow> vec_set vec (unat (vec_size vec)) tcb;
       Some (True, vec\<lparr>vec_size := vec_size vec + 1\<rparr>, s)
     }
   }"

function vec_find_from :: "'a mem_scheme \<Rightarrow> Vector \<Rightarrow> ID \<Rightarrow> nat \<Rightarrow> ptr option" where
  "vec_find_from s vec i k =
     (if k < unat (vec_size vec)
      then do {
        p \<leftarrow> vec_get vec k;
        t \<leftarrow> deref s p;
        if tcb_id_match (tcb_id t) i then Some p else vec_find_from s vec i (k + 1)
      }
      else Some NULL)"
  by pat_completeness auto
termination
  by (relation "measure (\<lambda>(s, vec, i, k). unat (vec_size vec) - k)") auto

definition vec_find :: "'a mem_scheme \<Rightarrow> Vector \<Rightarrow> ID \<Rightarrow> ptr option" where
  "vec_find s vec i = vec_find_from s vec i 0"

definition vec_pop :: "Vector \<Rightarrow> (ptr \<times> Vector) option" where
  "vec_pop vec =
     (if vec_size vec = 0 then Some (NULL, vec)
      else do {
        let vec = vec\<lparr>vec_size := vec_size vec - 1\<rparr>;
        p \<leftarrow> vec_get vec (unat (vec_size vec));
        Some (p, vec)
      })"

function vec_delete_from ::
  "'a mem_scheme \<Rightarrow> Vector \<Rightarrow> ptr \<Rightarrow> nat \<Rightarrow> (Vector \<times> 'a mem_scheme) option" where
  "vec_delete_from s vec tcb k =
     (if k < unat (vec_size vec)
      then do {
        p \<leftarrow> vec_get vec k;
        t \<leftarrow> deref s p;
        u \<leftarrow> deref s tcb;
        if tcb_id_match (tcb_id t) (tcb_id u)
        then do {
          s \<leftarrow> free s p;
          q \<leftarrow> vec_get vec (unat (vec_size vec - 1));
          vec \<leftarrow> vec_set vec k q;
          Some (vec\<lparr>vec_size := vec_size vec - 1\<rparr>, s)
        }
        else vec_delete_from s vec tcb (k + 1)
      }
      else Some (vec, s))"
  by pat_completeness auto
termination
  by (relation "measure (\<lambda>(s, vec, tcb, k). unat (vec_size vec) - k)") auto

definition vec_delete :: "'a mem_scheme \<Rightarrow> Vector \<Rightarrow> ptr \<Rightarrow> (Vector \<times> 'a mem_scheme) option" where
  "vec_delete s vec tcb = vec_delete_from s vec tcb 0"

function vec_free_from :: "'a mem_scheme \<Rightarrow> Vector \<Rightarrow> nat \<Rightarrow> 'a mem_scheme option" where
  "vec_free_from s vec k =
     (if k < unat (vec_size vec)
      then do {
        p \<leftarrow> vec_get vec k;
        s \<leftarrow> free s p;
        vec_free_from s vec (k + 1)
      }
      else Some s)"
  by pat_completeness auto
termination
  by (relation "measure (\<lambda>(s, vec, k). unat (vec_size vec) - k)") auto

text \<open>\<open>free(vec->data)\<close>; freeing an array when none is live is a fault.\<close>

definition free_data :: "'a mem_scheme \<Rightarrow> Vector \<Rightarrow> 'a mem_scheme option" where
  "free_data s vec = (case vec_data vec of None \<Rightarrow> Some s
     | Some d \<Rightarrow> if arrays s = 0 then None else Some (s\<lparr>arrays := arrays s - 1\<rparr>))"

definition vec_destroy :: "'a mem_scheme \<Rightarrow> Vector \<Rightarrow> (Vector \<times> 'a mem_scheme) option" where
  "vec_destroy s vec = do {
     s \<leftarrow> vec_free_from s vec 0;
     s \<leftarrow> free_data s vec;
     Some (\<lparr>vec_data = None, vec_capacity = 0, vec_size = 0\<rparr>, s)
   }"

declare vec_find_from.simps [simp del] vec_delete_from.simps [simp del] vec_free_from.simps [simp del]

section \<open>Well-formed vectors\<close>

definition vec_ok :: "Vector \<Rightarrow> bool" where
  "vec_ok vec \<longleftrightarrow> (case vec_data vec of None \<Rightarrow> False
     | Some d \<Rightarrow> length d = unat (vec_capacity vec) \<and> vec_size vec \<le> vec_capacity vec \<and>
         0 < vec_capacity vec)"

definition vec_elems :: "Vector \<Rightarrow> ptr list" where
  "vec_elems vec = (case vec_data vec of None \<Rightarrow> [] | Some d \<Rightarrow> take (unat (vec_size vec)) d)"

lemma vec_okE:
  assumes "vec_ok vec"
  obtains d where "vec_data vec = Some d" "length d = unat (vec_capacity vec)"
    "unat (vec_size vec) \<le> length d" "vec_elems vec = take (unat (vec_size vec)) d"
    "0 < length d"
  using assms by (auto simp: vec_ok_def vec_elems_def word_le_nat_alt word_less_nat_alt split: option.splits)

lemma length_vec_elems [simp]: "vec_ok vec \<Longrightarrow> length (vec_elems vec) = unat (vec_size vec)"
  by (elim vec_okE) simp

lemma vec_get_elems: "vec_ok vec \<Longrightarrow> k < unat (vec_size vec) \<Longrightarrow> vec_get vec k = Some (vec_elems vec ! k)"
  by (elim vec_okE) (simp add: vec_get_def)

lemma vec_init_ok:
  "vec_init s vec = (ok, vec', s') \<Longrightarrow> ok = fst (malloc s) \<and>
   s' = (if ok then (snd (malloc s))\<lparr>arrays := arrays s + 1\<rparr> else snd (malloc s)) \<and>
   (if ok then vec_ok vec' \<and> vec_elems vec' = [] else vec' = vec)"
  by (auto simp: vec_init_def vec_ok_def vec_elems_def malloc_def Let_def split: if_splits prod.splits)

section \<open>Push\<close>

lemma unat_double: "unat (c::u32) < 2147483648 \<Longrightarrow> unat (c * 2) = 2 * unat c"
  by (simp add: unat_word_ariths)

text \<open>
  Growing keeps the elements and makes room. The bound is the point where doubling a
  32-bit capacity would wrap.
\<close>

lemma vec_grow_ok:
  assumes "vec_ok vec" "vec_size vec = vec_capacity vec" "unat (vec_size vec) < 2147483648"
  shows "\<exists>ok vec'. vec_grow s vec = Some (ok, vec', snd (malloc s)) \<and> ok = fst (malloc s) \<and>
    (if ok then vec_ok vec' \<and> vec_elems vec' = vec_elems vec \<and> vec_size vec' = vec_size vec \<and>
       unat (vec_size vec') < unat (vec_capacity vec') else vec' = vec)"
proof -
  from assms(1) obtain d where d: "vec_data vec = Some d" "length d = unat (vec_capacity vec)"
    "unat (vec_size vec) \<le> length d" "vec_elems vec = take (unat (vec_size vec)) d" "0 < length d"
    by (rule vec_okE)
  let ?c = "vec_capacity vec * 2"
  have c: "unat ?c = 2 * unat (vec_capacity vec)"
    using assms by (intro unat_double) simp
  with d have "?c \<noteq> 0"
    by (metis mult_eq_0_iff not_less_zero unat_0 zero_neq_numeral)
  then show ?thesis
    using d c assms(2)
    by (cases "fst (malloc s)") (auto simp: vec_grow_def realloc_cells_def Let_def vec_ok_def vec_elems_def
        word_le_nat_alt word_less_nat_alt split: prod.splits)
qed

lemma vec_set_push:
  assumes "vec_ok vec" "unat (vec_size vec) < unat (vec_capacity vec)"
  shows "\<exists>vec'. vec_set vec (unat (vec_size vec)) p = Some vec' \<and>
    vec_ok (vec'\<lparr>vec_size := vec_size vec' + 1\<rparr>) \<and>
    vec_elems (vec'\<lparr>vec_size := vec_size vec' + 1\<rparr>) = vec_elems vec @ [p]"
proof -
  from assms(1) obtain d where d: "vec_data vec = Some d" "length d = unat (vec_capacity vec)"
    "unat (vec_size vec) \<le> length d" "vec_elems vec = take (unat (vec_size vec)) d" "0 < length d"
    by (rule vec_okE)
  have "unat (vec_size vec) + 1 < 4294967296"
    using assms(2) unat_u32_less [of "vec_capacity vec"] by simp
  then have n: "unat (vec_size vec + 1) = unat (vec_size vec) + 1"
    by (simp add: unat_word_ariths)
  show ?thesis
    using assms d n
    by (auto simp: vec_set_def vec_ok_def vec_elems_def word_le_nat_alt word_less_nat_alt take_Suc_conv_app_nth)
qed

lemma vec_push_ok:
  assumes "vec_ok vec" "unat (vec_size vec) < 2147483648"
  shows "\<exists>ok vec' s'. vec_push s vec p = Some (ok, vec', s') \<and> (s' = s \<or> s' = snd (malloc s)) \<and>
    (\<not> ok \<longrightarrow> (\<exists>n. oom s n)) \<and>
    (if ok then vec_ok vec' \<and> vec_elems vec' = vec_elems vec @ [p] else vec' = vec)"
proof (cases "vec_size vec = vec_capacity vec")
  case True
  from vec_grow_ok [OF assms(1) True assms(2), of s] obtain ok vec'
    where g: "vec_grow s vec = Some (ok, vec', snd (malloc s))" "ok = fst (malloc s)"
      "if ok then vec_ok vec' \<and> vec_elems vec' = vec_elems vec \<and> vec_size vec' = vec_size vec \<and>
         unat (vec_size vec') < unat (vec_capacity vec') else vec' = vec"
    by blast
  show ?thesis
  proof (cases ok)
    case ok: True
    with g have "vec_ok vec'" "unat (vec_size vec') < unat (vec_capacity vec')" by auto
    from vec_set_push [OF this, of p] g ok True show ?thesis
      by (auto simp: vec_push_def)
  qed (use g True in \<open>auto simp: vec_push_def malloc_def\<close>)
next
  case False
  with assms have "unat (vec_size vec) < unat (vec_capacity vec)"
    by (auto simp: vec_ok_def word_le_nat_alt word_unat_eq_iff split: option.splits)
  from vec_set_push [OF assms(1) this, of p] False show ?thesis
    by (auto simp: vec_push_def)
qed

section \<open>Find and delete\<close>

definition has_id :: "'a mem_scheme \<Rightarrow> ID \<Rightarrow> ptr \<Rightarrow> bool" where
  "has_id s i p \<longleftrightarrow> (case heap s p of None \<Rightarrow> False | Some t \<Rightarrow> tcb_id t = i)"

definition all_live :: "'a mem_scheme \<Rightarrow> ptr list \<Rightarrow> bool" where
  "all_live s ps \<longleftrightarrow> (\<forall>p \<in> set ps. heap s p \<noteq> None)"

definition found :: "ptr option \<Rightarrow> ptr" where
  "found r = (case r of None \<Rightarrow> NULL | Some p \<Rightarrow> p)"

lemma vec_find_from_eq:
  assumes "vec_ok vec" "mem_ok s" "all_live s (vec_elems vec)"
  shows "vec_find_from s vec i k = Some (found (find (has_id s i) (drop k (vec_elems vec))))"
  using assms
proof (induction s vec i k rule: vec_find_from.induct)
  case (1 s vec i k)
  show ?case
  proof (cases "k < unat (vec_size vec)")
    case True
    let ?p = "vec_elems vec ! k"
    have k: "k < length (vec_elems vec)" using True 1 by simp
    then obtain t where t: "heap s ?p = Some t"
      using 1 nth_mem [OF k] by (auto simp: all_live_def simp del: length_vec_elems nth_mem)
    have split: "drop k (vec_elems vec) = ?p # drop (k + 1) (vec_elems vec)"
      using k by (simp add: Cons_nth_drop_Suc)
    have get: "vec_get vec k = Some ?p"
      using True 1 by (simp add: vec_get_elems)
    show ?thesis
      using True 1 get t split
      by (simp add: vec_find_from.simps [of s vec i k] has_id_def found_def)
  next
    case False
    with 1 show ?thesis
      by (simp add: vec_find_from.simps [of s vec i k] found_def)
  qed
qed

lemma vec_find_eq:
  "vec_ok vec \<Longrightarrow> mem_ok s \<Longrightarrow> all_live s (vec_elems vec) \<Longrightarrow>
   vec_find s vec i = Some (found (find (has_id s i) (vec_elems vec)))"
  by (simp add: vec_find_def vec_find_from_eq)

text \<open>Removing the element at \<open>k\<close> by moving the last one into its place.\<close>

lemma mset_swap_remove:
  assumes "k < length xs"
  shows "add_mset (xs ! k) (mset (butlast (xs[k := last xs]))) = mset xs"
proof -
  obtain ys y where xs: "xs = ys @ [y]"
    using assms by (cases xs rule: rev_cases) auto
  show ?thesis
  proof (cases "k = length ys")
    case True
    with xs show ?thesis by simp
  next
    case False
    with assms xs have "k < length ys" by simp
    with xs show ?thesis
      by (simp add: list_update_append nth_append mset_update)
  qed
qed

lemma vec_swap_remove:
  assumes "vec_ok vec" "k < unat (vec_size vec)"
  shows "\<exists>vec'. vec_get vec (unat (vec_size vec - 1)) = Some (last (vec_elems vec)) \<and>
    vec_set vec k (last (vec_elems vec)) = Some vec' \<and>
    vec_ok (vec'\<lparr>vec_size := vec_size vec' - 1\<rparr>) \<and>
    vec_elems (vec'\<lparr>vec_size := vec_size vec' - 1\<rparr>) =
      butlast ((vec_elems vec)[k := last (vec_elems vec)])"
proof -
  from assms(1) obtain d where d: "vec_data vec = Some d" "length d = unat (vec_capacity vec)"
    "unat (vec_size vec) \<le> length d" "vec_elems vec = take (unat (vec_size vec)) d" "0 < length d"
    by (rule vec_okE)
  have n: "unat (vec_size vec - 1) = unat (vec_size vec) - 1"
    using assms(2) by (intro unat_minus_one) auto
  have ne: "vec_elems vec \<noteq> []"
    using assms d by auto
  show ?thesis
    using assms d n ne
    by (auto simp: vec_get_def vec_set_def vec_ok_def vec_elems_def word_le_nat_alt word_less_nat_alt
        last_conv_nth butlast_take take_update_swap butlast_list_update list_update_beyond)
qed

text \<open>
  With the identities in the bucket pairwise different, delete frees exactly the block it is
  given and drops its pointer, and nothing else.
\<close>

definition same_id :: "'a mem_scheme \<Rightarrow> ptr \<Rightarrow> ptr \<Rightarrow> bool" where
  "same_id s p q \<longleftrightarrow> map_option tcb_id (heap s p) = map_option tcb_id (heap s q)"

lemma vec_delete_from_eq:
  assumes "vec_ok vec" "mem_ok s" "all_live s (vec_elems vec)" "p \<in> set (drop k (vec_elems vec))"
    and "\<forall>q \<in> set (vec_elems vec). same_id s p q \<longrightarrow> q = p"
  shows "\<exists>vec'. vec_delete_from s vec p k = Some (vec', s\<lparr>heap := (heap s)(p := None)\<rparr>) \<and>
    vec_ok vec' \<and> add_mset p (mset (vec_elems vec')) = mset (vec_elems vec)"
  using assms
proof (induction s vec p k rule: vec_delete_from.induct)
  case (1 s vec p k)
  have k: "k < unat (vec_size vec)"
    using 1 by (metis drop_all empty_iff length_vec_elems list.set(1) not_less)
  let ?q = "vec_elems vec ! k"
  have kl: "k < length (vec_elems vec)" using k 1 by simp
  then have q: "?q \<in> set (vec_elems vec)" by simp
  have p: "p \<in> set (vec_elems vec)"
    using 1 by (meson in_set_dropD)
  from p q "1.prems"(3) obtain t u where t: "heap s ?q = Some t" and u: "heap s p = Some u"
    by (fastforce simp: all_live_def)
  have get: "vec_get vec k = Some ?q" using k 1 by (simp add: vec_get_elems)
  have split: "drop k (vec_elems vec) = ?q # drop (k + 1) (vec_elems vec)"
    using kl by (simp add: Cons_nth_drop_Suc)
  show ?case
  proof (cases "tcb_id t = tcb_id u")
    case True
    then have eq: "?q = p" using 1 q t u by (auto simp: same_id_def)
    have "p \<noteq> 0" using 1 u mem_okD by blast
    with u have fr: "free s p = Some (s\<lparr>heap := (heap s)(p := None)\<rparr>)"
      by (simp add: free_def)
    obtain vec' where v: "vec_get vec (unat (vec_size vec - 1)) = Some (last (vec_elems vec))"
      "vec_set vec k (last (vec_elems vec)) = Some vec'"
      "vec_ok (vec'\<lparr>vec_size := vec_size vec' - 1\<rparr>)"
      "vec_elems (vec'\<lparr>vec_size := vec_size vec' - 1\<rparr>) =
        butlast ((vec_elems vec)[k := last (vec_elems vec)])"
      using vec_swap_remove [OF _ k] 1 by blast
    have "add_mset p (mset (butlast ((vec_elems vec)[k := last (vec_elems vec)]))) = mset (vec_elems vec)"
      using mset_swap_remove [OF kl] eq by simp
    with v fr u eq get k 1(3) show ?thesis
      by (simp add: vec_delete_from.simps [of s vec p k] fun_upd_def)
  next
    case False
    with t u have "?q \<noteq> p" by auto
    with 1 split have "p \<in> set (drop (k + 1) (vec_elems vec))" by simp
    with "1.IH" [OF k get _ _ _ ] 1 False t u get k show ?thesis
      by (simp add: vec_delete_from.simps [of s vec p k])
  qed
qed

lemma vec_delete_eq:
  assumes "vec_ok vec" "mem_ok s" "all_live s (vec_elems vec)" "p \<in> set (vec_elems vec)"
    and "\<forall>q \<in> set (vec_elems vec). same_id s p q \<longrightarrow> q = p"
  shows "\<exists>vec'. vec_delete s vec p = Some (vec', s\<lparr>heap := (heap s)(p := None)\<rparr>) \<and>
    vec_ok vec' \<and> add_mset p (mset (vec_elems vec')) = mset (vec_elems vec)"
  unfolding vec_delete_def using assms by (intro vec_delete_from_eq) auto

lemma vec_free_from_eq:
  assumes "vec_ok vec" "mem_ok s" "all_live s (drop k (vec_elems vec))" "distinct (drop k (vec_elems vec))"
  shows "vec_free_from s vec k = Some (s\<lparr>heap := heap s |` (- set (drop k (vec_elems vec)))\<rparr>)"
  using assms
proof (induction s vec k rule: vec_free_from.induct)
  case (1 s vec k)
  show ?case
  proof (cases "k < unat (vec_size vec)")
    case False
    with 1 show ?thesis by (simp add: vec_free_from.simps [of s vec k])
  next
    case True
    let ?p = "vec_elems vec ! k" and ?r = "drop (k + 1) (vec_elems vec)"
    have k: "k < length (vec_elems vec)" using True 1 by simp
    have split: "drop k (vec_elems vec) = ?p # ?r"
      using k by (simp add: Cons_nth_drop_Suc)
    let ?s = "s\<lparr>heap := (heap s)(?p := None)\<rparr>"
    have p: "heap s ?p \<noteq> None" "?p \<noteq> 0"
      using 1(4) 1(3) split mem_okD [of s ?p] by (auto simp: all_live_def)
    have get: "vec_get vec k = Some ?p" and fr: "free s ?p = Some ?s"
      using True 1 p by (auto simp: vec_get_elems free_def)
    have pre: "mem_ok ?s" "all_live ?s ?r" "distinct ?r" "?p \<notin> set ?r"
      using 1(3-5) split by (auto simp: mem_ok_def all_live_def)
    have "vec_free_from ?s vec (k + 1) = Some (?s\<lparr>heap := heap ?s |` (- set ?r)\<rparr>)"
      by (rule "1.IH" [OF True get fr "1.prems"(1) pre(1-3)])
    moreover have "heap ?s |` (- set ?r) = heap s |` (- set (drop k (vec_elems vec)))"
      unfolding split by (auto simp: restrict_map_def fun_eq_iff)
    ultimately show ?thesis
      using True get fr by (simp add: vec_free_from.simps [of s vec k])
  qed
qed

lemma vec_destroy_eq:
  assumes "vec_ok vec" "mem_ok s" "all_live s (vec_elems vec)" "distinct (vec_elems vec)" "0 < arrays s"
  shows "vec_destroy s vec = Some (\<lparr>vec_data = None, vec_capacity = 0, vec_size = 0\<rparr>,
    s\<lparr>heap := heap s |` (- set (vec_elems vec)), arrays := arrays s - 1\<rparr>)"
  using assms vec_free_from_eq [of vec s 0]
  by (auto simp: vec_destroy_def free_data_def vec_ok_def split: option.splits)

end
