(* ===== verification/Connection_Table.thy ===== *)
theory Connection_Table
  imports Main
begin

text \<open>
  What the TCP layer relies on of its connection table, whatever the data structure: a partial
  map from connection identities to control blocks on the heap. Both versions of the program
  provide it, the refactored one with a hash table (theory \<open>Hash\<close>), the original one with a
  linked list threaded through the blocks (theory \<open>V1_Table\<close>).

  \<open>key s p\<close> is the identity stored in the block at \<open>p\<close>, if the block is live; \<open>table s\<close> is
  the map the table represents; the three operations are \<open>None\<close> on a memory fault. An
  insertion may fail for want of memory and then changes nothing in the map. A removal also
  frees the block.
\<close>

locale connection_table =
  fixes invar :: "'s \<Rightarrow> bool"
    and room :: "'s \<Rightarrow> bool"
    and table :: "'s \<Rightarrow> 'k \<Rightarrow> 'p option"
    and key :: "'s \<Rightarrow> 'p \<Rightarrow> 'k option"
    and lookup :: "'s \<Rightarrow> 'k \<Rightarrow> 'p option option"
    and insert :: "'s \<Rightarrow> 'p \<Rightarrow> (bool \<times> 's) option"
    and remove :: "'s \<Rightarrow> 'p \<Rightarrow> 's option"
  assumes table_key: "invar s \<Longrightarrow> table s k = Some p \<Longrightarrow> key s p = Some k"
    and lookup_table: "invar s \<Longrightarrow> lookup s k = Some (table s k)"
    and insert_table: "invar s \<Longrightarrow> room s \<Longrightarrow> key s p = Some k \<Longrightarrow> table s k = None \<Longrightarrow>
      \<exists>ok s'. insert s p = Some (ok, s') \<and> invar s' \<and> key s' = key s \<and>
        table s' = (if ok then (table s)(k \<mapsto> p) else table s)"
    and remove_table: "invar s \<Longrightarrow> table s k = Some p \<Longrightarrow>
      \<exists>s'. remove s p = Some s' \<and> invar s' \<and> key s' = (key s)(p := None) \<and>
        table s' = (table s)(k := None)"
begin

lemma table_inj: "invar s \<Longrightarrow> table s k = Some p \<Longrightarrow> table s k' = Some p \<Longrightarrow> k = k'"
  by (metis option.inject table_key)

text \<open>A lookup finds what was inserted, and every other identity as before.\<close>

lemma lookup_after_insert:
  assumes "invar s" "room s" "key s p = Some k" "table s k = None" "insert s p = Some (True, s')"
  shows "lookup s' k = Some (Some p)" "k' \<noteq> k \<Longrightarrow> lookup s' k' = lookup s k'"
  using insert_table [OF assms(1-4)] assms(1,5) by (auto simp: lookup_table)

lemma lookup_after_failed_insert:
  assumes "invar s" "room s" "key s p = Some k" "table s k = None" "insert s p = Some (False, s')"
  shows "lookup s' k' = lookup s k'"
  using insert_table [OF assms(1-4)] assms(1,5) by (auto simp: lookup_table)

lemma lookup_after_remove:
  assumes "invar s" "table s k = Some p" "remove s p = Some s'"
  shows "lookup s' k = Some None" "k' \<noteq> k \<Longrightarrow> lookup s' k' = lookup s k'"
  using remove_table [OF assms(1,2)] assms(1,3) by (auto simp: lookup_table)

text \<open>
  A block that was entered and removed again leaves the table as it was and is gone from the
  heap: the life of a connection request that is answered with a reset.
\<close>

lemma insert_then_remove:
  assumes "invar s" "room s" "key s p = Some k" "table s k = None" "insert s p = Some (True, s1)"
  shows "\<exists>s2. remove s1 p = Some s2 \<and> invar s2 \<and> table s2 = table s \<and> key s2 = (key s)(p := None)"
proof -
  from insert_table [OF assms(1-4)] assms(5)
  have s1: "invar s1" "key s1 = key s" "table s1 = (table s)(k \<mapsto> p)"
    by auto
  then have "table s1 k = Some p" by simp
  from remove_table [OF s1(1) this] s1 assms(4) show ?thesis
    by (auto simp: fun_upd_idem)
qed

end

end
