(* ===== verification/Hash.thy ===== *)
theory Hash
  imports Vector Connection_Table
begin

text \<open>
  \<open>refactor/network/tcp/hash.c\<close>: the global connection table, 256 vectors indexed by a hash of
  the connection identity, created on the first insertion. The file-scope variables
  \<open>g_con_table\<close> and \<open>g_tbl_init\<close> are fields of the server state, which extends the memory of
  theory \<open>Tcb\<close>. The abstraction \<open>conns\<close> maps an identity to the pointer of its block; under
  \<open>tbl_inv\<close> the three operations are lookup, update and deletion of that map, which is the
  contract \<open>connection_table\<close>.
\<close>

section \<open>Data and operations\<close>

abbreviation (input) HT_SIZE :: nat where "HT_SIZE \<equiv> 256"

record Hash_Table =
  ht_buckets :: "Vector list"
  ht_size :: u64

record server = mem +
  g_con_table :: Hash_Table
  g_tbl_init :: bool

definition zero_vector :: Vector where
  "zero_vector = \<lparr>vec_data = None, vec_capacity = 0, vec_size = 0\<rparr>"

text \<open>The process state before the first packet: zeroed statics and an empty heap.\<close>

definition server_start :: "(nat \<Rightarrow> bool) \<Rightarrow> server" where
  "server_start failing = \<lparr>heap = Map.empty, nalloc = 0, oom = failing, arrays = 0,
     g_con_table = \<lparr>ht_buckets = replicate HT_SIZE zero_vector, ht_size = 0\<rparr>,
     g_tbl_init = False\<rparr>"

definition hash_id :: "ID \<Rightarrow> u32" where
  "hash_id i = (
     let h = id_src_ip i XOR id_dst_ip i;
         h = h XOR (push_bit 16 (ucast (id_src_port i)) OR ucast (id_dst_port i));
         h = h + push_bit 10 h;
         h = h XOR drop_bit 6 h;
         h = h + push_bit 3 h;
         h = h XOR drop_bit 11 h;
         h = h + push_bit 15 h
     in h mod 256)"

definition bucket :: "server \<Rightarrow> nat \<Rightarrow> Vector option" where
  "bucket s i = (let bs = ht_buckets (g_con_table s) in if i < length bs then Some (bs ! i) else None)"

definition set_bucket :: "server \<Rightarrow> nat \<Rightarrow> Vector \<Rightarrow> server" where
  "set_bucket s i v = s\<lparr>g_con_table := (g_con_table s)\<lparr>ht_buckets := (ht_buckets (g_con_table s))[i := v]\<rparr>\<rparr>"

definition set_ht_size :: "server \<Rightarrow> u64 \<Rightarrow> server" where
  "set_ht_size s n = s\<lparr>g_con_table := (g_con_table s)\<lparr>ht_size := n\<rparr>\<rparr>"

function hash_init_from :: "server \<Rightarrow> nat \<Rightarrow> (bool \<times> server) option" where
  "hash_init_from s i =
     (if i < HT_SIZE
      then do {
        v \<leftarrow> bucket s i;
        let (ok, v, s) = vec_init s v;
        let s = set_bucket s i v;
        if \<not> ok then Some (False, s) else hash_init_from s (i + 1)
      }
      else Some (True, s))"
  by pat_completeness auto
termination
  by (relation "measure (\<lambda>(s, i). HT_SIZE - i)") auto

definition hash_init :: "server \<Rightarrow> (bool \<times> server) option" where
  "hash_init s = do {
     (ok, s) \<leftarrow> hash_init_from s 0;
     if \<not> ok then Some (False, s)
     else Some (True, (set_ht_size s 0)\<lparr>g_tbl_init := True\<rparr>)
   }"

definition hash_find :: "server \<Rightarrow> ID \<Rightarrow> ptr option" where
  "hash_find s i =
     (if \<not> g_tbl_init s then Some NULL
      else do {
        cons \<leftarrow> bucket s (unat (hash_id i));
        vec_find s cons i
      })"

definition hash_insert :: "server \<Rightarrow> ptr \<Rightarrow> (bool \<times> server) option" where
  "hash_insert s tcb = do {
     (ready, s) \<leftarrow> (if g_tbl_init s then Some (True, s) else hash_init s);
     if \<not> ready then Some (False, s)
     else do {
       t \<leftarrow> deref s tcb;
       let idx = unat (hash_id (tcb_id t));
       cons \<leftarrow> bucket s idx;
       (ok, cons, s) \<leftarrow> vec_push s cons tcb;
       let s = set_bucket s idx cons;
       if \<not> ok then Some (False, s)
       else Some (True, set_ht_size s (ht_size (g_con_table s) + 1))
     }
   }"

definition hash_delete :: "server \<Rightarrow> ptr \<Rightarrow> server option" where
  "hash_delete s tcb =
     (if \<not> g_tbl_init s then Some s
      else do {
        t \<leftarrow> deref s tcb;
        let idx = unat (hash_id (tcb_id t));
        cons \<leftarrow> bucket s idx;
        (cons, s) \<leftarrow> vec_delete s cons tcb;
        let s = set_bucket s idx cons;
        Some (set_ht_size s (ht_size (g_con_table s) - 1))
      })"

function hash_destroy_from :: "server \<Rightarrow> nat \<Rightarrow> server option" where
  "hash_destroy_from s i =
     (if i < HT_SIZE
      then do {
        v \<leftarrow> bucket s i;
        (v, s) \<leftarrow> vec_destroy s v;
        hash_destroy_from (set_bucket s i v) (i + 1)
      }
      else Some s)"
  by pat_completeness auto
termination
  by (relation "measure (\<lambda>(s, i). HT_SIZE - i)") auto

definition hash_destroy :: "server \<Rightarrow> server option" where
  "hash_destroy s =
     (if \<not> g_tbl_init s then Some s
      else do {
        s \<leftarrow> hash_destroy_from s 0;
        Some ((set_ht_size s 0)\<lparr>g_tbl_init := False\<rparr>)
      })"

declare hash_init_from.simps [simp del] hash_destroy_from.simps [simp del]

section \<open>The table as a map\<close>

definition conn_ptrs :: "server \<Rightarrow> ptr list" where
  "conn_ptrs s = (if g_tbl_init s then concat (map vec_elems (ht_buckets (g_con_table s))) else [])"

definition conns :: "server \<Rightarrow> ID \<Rightarrow> ptr option" where
  "conns s i = find (has_id s i) (conn_ptrs s)"

text \<open>A bucket holds live blocks whose identity hashes to the bucket's index.\<close>

definition bucket_ok :: "server \<Rightarrow> nat \<Rightarrow> Vector \<Rightarrow> bool" where
  "bucket_ok s i v \<longleftrightarrow> vec_ok v \<and>
     (\<forall>p \<in> set (vec_elems v). case heap s p of None \<Rightarrow> False | Some t \<Rightarrow> unat (hash_id (tcb_id t)) = i)"

definition tbl_inv :: "server \<Rightarrow> bool" where
  "tbl_inv s \<longleftrightarrow> mem_ok s \<and> length (ht_buckets (g_con_table s)) = HT_SIZE \<and>
     ht_size (g_con_table s) = of_nat (length (conn_ptrs s)) \<and>
     (g_tbl_init s \<longrightarrow> HT_SIZE \<le> arrays s \<and> (\<forall>i < HT_SIZE. bucket_ok s i (ht_buckets (g_con_table s) ! i)) \<and>
        distinct (conn_ptrs s) \<and>
        inj_on (\<lambda>p. map_option tcb_id (heap s p)) (set (conn_ptrs s)))"

text \<open>Room for one more block: no bucket is at the size where its capacity would wrap.\<close>

definition room :: "server \<Rightarrow> bool" where
  "room s \<longleftrightarrow> length (conn_ptrs s) < 2147483648"

lemma hash_id_less: "unat (hash_id i) < HT_SIZE"
proof -
  have "unat (x mod 256) < 256" for x :: u32
    by (simp add: unat_mod_distrib)
  then show ?thesis by (simp add: hash_id_def Let_def)
qed

section \<open>Finding\<close>

lemma find_None_iff_all: "find P xs = None \<longleftrightarrow> (\<forall>x \<in> set xs. \<not> P x)"
  by (induction xs) auto

lemma find_Some_unique:
  "\<forall>x \<in> set xs. \<forall>y \<in> set xs. P x \<longrightarrow> P y \<longrightarrow> x = y \<Longrightarrow> find P xs = Some x \<longleftrightarrow> x \<in> set xs \<and> P x"
  by (induction xs) auto

lemma find_eqI:
  assumes "\<forall>x \<in> set xs. \<forall>y \<in> set xs. P x \<longrightarrow> P y \<longrightarrow> x = y"
    and "set (filter P xs) = set (filter P ys)"
  shows "find P xs = find P ys"
proof -
  have "\<forall>x \<in> set ys. \<forall>y \<in> set ys. P x \<longrightarrow> P y \<longrightarrow> x = y"
    using assms by (auto simp: set_eq_iff)
  then have "find P xs = Some x \<longleftrightarrow> find P ys = Some x" for x
    using assms by (simp add: find_Some_unique set_eq_iff)
  then show ?thesis
    by (metis not_Some_eq)
qed

lemma has_id_iff: "has_id s i p \<longleftrightarrow> map_option tcb_id (heap s p) = Some i"
  by (auto simp: has_id_def split: option.splits)

lemma tbl_inv_unique:
  assumes "tbl_inv s"
  shows "\<forall>x \<in> set (conn_ptrs s). \<forall>y \<in> set (conn_ptrs s). has_id s i x \<longrightarrow> has_id s i y \<longrightarrow> x = y"
proof (cases "g_tbl_init s")
  case True
  with assms have "inj_on (\<lambda>p. map_option tcb_id (heap s p)) (set (conn_ptrs s))"
    by (simp add: tbl_inv_def)
  then show ?thesis
    by (auto simp: has_id_iff inj_on_def)
qed (simp add: conn_ptrs_def)

lemma conns_Some_iff: "tbl_inv s \<Longrightarrow> conns s i = Some p \<longleftrightarrow> p \<in> set (conn_ptrs s) \<and> has_id s i p"
  unfolding conns_def by (intro find_Some_unique tbl_inv_unique)

lemma conns_None_iff: "conns s i = None \<longleftrightarrow> (\<forall>p \<in> set (conn_ptrs s). \<not> has_id s i p)"
  by (simp add: conns_def find_None_iff_all)

lemma bucketE:
  assumes "tbl_inv s" "g_tbl_init s" "i < HT_SIZE"
  obtains v where "bucket s i = Some v" "v = ht_buckets (g_con_table s) ! i" "bucket_ok s i v"
    "vec_ok v" "all_live s (vec_elems v)" "set (vec_elems v) \<subseteq> set (conn_ptrs s)"
proof -
  let ?v = "ht_buckets (g_con_table s) ! i"
  have ok: "bucket_ok s i ?v" and len: "length (ht_buckets (g_con_table s)) = 256"
    using assms by (simp_all add: tbl_inv_def)
  have "?v \<in> set (ht_buckets (g_con_table s))"
    using len assms(3) by simp
  then have "set (vec_elems ?v) \<subseteq> set (conn_ptrs s)"
    using assms(2) by (auto simp: conn_ptrs_def)
  with ok len assms(3) show ?thesis
    by (intro that [of ?v]) (auto simp: bucket_def bucket_ok_def all_live_def Let_def split: option.splits)
qed

lemma tbl_inv_mem_ok: "tbl_inv s \<Longrightarrow> mem_ok s"
  by (simp add: tbl_inv_def)

text \<open>An entry is always in the bucket its identity hashes to.\<close>

lemma filter_bucket:
  assumes "tbl_inv s" "g_tbl_init s"
  shows "set (filter (has_id s i) (vec_elems (ht_buckets (g_con_table s) ! unat (hash_id i)))) =
    set (filter (has_id s i) (conn_ptrs s))" (is "?l = ?r")
proof
  have len: "length (ht_buckets (g_con_table s)) = 256"
    using assms by (simp add: tbl_inv_def)
  show "?l \<subseteq> ?r"
    using bucketE [OF assms hash_id_less [of i]] by auto
  show "?r \<subseteq> ?l"
  proof
    fix p
    assume p: "p \<in> ?r"
    then obtain v where v: "v \<in> set (ht_buckets (g_con_table s))" "p \<in> set (vec_elems v)"
      using assms by (auto simp: conn_ptrs_def)
    then obtain j where j: "j < 256" "p \<in> set (vec_elems (ht_buckets (g_con_table s) ! j))"
      using len by (metis in_set_conv_nth)
    moreover have "bucket_ok s j (ht_buckets (g_con_table s) ! j)"
      using assms j by (simp add: tbl_inv_def)
    ultimately have "j = unat (hash_id i)"
      using p by (auto simp: bucket_ok_def has_id_def split: option.splits)
    with j p show "p \<in> ?l" by simp
  qed
qed

lemma hash_find_eq [op_simps]:
  assumes "tbl_inv s"
  shows "hash_find s i = Some (found (conns s i))"
proof (cases "g_tbl_init s")
  case True
  from bucketE [OF assms True hash_id_less [of i]] obtain v
    where v: "bucket s (unat (hash_id i)) = Some v" "v = ht_buckets (g_con_table s) ! unat (hash_id i)"
      "vec_ok v" "all_live s (vec_elems v)" "set (vec_elems v) \<subseteq> set (conn_ptrs s)"
    by blast
  have "find (has_id s i) (vec_elems v) = find (has_id s i) (conn_ptrs s)"
  proof (rule find_eqI)
    show "\<forall>x\<in>set (vec_elems v). \<forall>y\<in>set (vec_elems v). has_id s i x \<longrightarrow> has_id s i y \<longrightarrow> x = y"
      using tbl_inv_unique [OF assms, of i] v by blast
    show "set (filter (has_id s i) (vec_elems v)) = set (filter (has_id s i) (conn_ptrs s))"
      using filter_bucket [OF assms True] v by simp
  qed
  with v True assms show ?thesis
    by (simp add: hash_find_def vec_find_eq tbl_inv_mem_ok conns_def)
qed (simp add: hash_find_def conns_def conn_ptrs_def found_def)

section \<open>Insertion\<close>

lemma mset_concat_update:
  "i < length bs \<Longrightarrow> mset (concat (map f (bs[i := v]))) + mset (f (bs ! i)) =
   mset (concat (map f bs)) + mset (f v)"
  by (induction bs arbitrary: i) (auto split: nat.splits)

lemma set_bucket_simps [simp]:
  "heap (set_bucket s i v) = heap s" "nalloc (set_bucket s i v) = nalloc s" "arrays (set_bucket s i v) = arrays s"
  "oom (set_bucket s i v) = oom s" "g_tbl_init (set_bucket s i v) = g_tbl_init s"
  "ht_buckets (g_con_table (set_bucket s i v)) = (ht_buckets (g_con_table s))[i := v]"
  "ht_size (g_con_table (set_bucket s i v)) = ht_size (g_con_table s)"
  by (simp_all add: set_bucket_def)

lemma set_ht_size_simps [simp]:
  "heap (set_ht_size s n) = heap s" "nalloc (set_ht_size s n) = nalloc s" "arrays (set_ht_size s n) = arrays s"
  "oom (set_ht_size s n) = oom s" "g_tbl_init (set_ht_size s n) = g_tbl_init s"
  "ht_buckets (g_con_table (set_ht_size s n)) = ht_buckets (g_con_table s)"
  "ht_size (g_con_table (set_ht_size s n)) = n"
  by (simp_all add: set_ht_size_def)

text \<open>What an operation that only allocates may change of the memory.\<close>

definition mem_grows :: "'a mem_scheme \<Rightarrow> 'a mem_scheme \<Rightarrow> bool" where
  "mem_grows s s' \<longleftrightarrow> heap s' = heap s \<and> oom s' = oom s \<and> nalloc s \<le> nalloc s' \<and> arrays s \<le> arrays s'"

lemma mem_grows_refl [simp]: "mem_grows s s"
  by (simp add: mem_grows_def)

lemma mem_grows_trans: "mem_grows s s' \<Longrightarrow> mem_grows s' s'' \<Longrightarrow> mem_grows s s''"
  by (auto simp: mem_grows_def)

lemma mem_grows_malloc [simp]: "mem_grows s (snd (malloc s))"
  by (simp add: mem_grows_def malloc_def)

lemma mem_grows_ok: "mem_grows s s' \<Longrightarrow> mem_ok s \<Longrightarrow> mem_ok s'"
  unfolding mem_grows_def mem_ok_def by (metis le_trans)

lemma malloc_server [simp]:
  "g_con_table (snd (malloc s)) = g_con_table s" "g_tbl_init (snd (malloc s)) = g_tbl_init s"
  by (simp_all add: malloc_def)

text \<open>Initialisation either fills every bucket or leaves the table marked as not created.\<close>

lemma hash_init_from_ok:
  assumes "length (ht_buckets (g_con_table s)) = 256"
  shows "\<exists>ok s'. hash_init_from s i = Some (ok, s') \<and> (\<not> ok \<longrightarrow> (\<exists>n. oom s n)) \<and>
    mem_grows s s' \<and> g_tbl_init s' = g_tbl_init s \<and>
    ht_size (g_con_table s') = ht_size (g_con_table s) \<and> length (ht_buckets (g_con_table s')) = 256 \<and>
    (\<forall>j < i. ht_buckets (g_con_table s') ! j = ht_buckets (g_con_table s) ! j) \<and>
    (ok \<longrightarrow> arrays s' = arrays s + (256 - i) \<and>
       (\<forall>j. i \<le> j \<longrightarrow> j < 256 \<longrightarrow> vec_ok (ht_buckets (g_con_table s') ! j) \<and>
         vec_elems (ht_buckets (g_con_table s') ! j) = []))"
  using assms
proof (induction s i rule: hash_init_from.induct)
  case (1 s i)
  show ?case
  proof (cases "i < 256")
    case False
    then have "hash_init_from s i = Some (True, s)"
      by (simp add: hash_init_from.simps [of s i])
    with 1 False show ?thesis by auto
  next
    case True
    let ?v = "ht_buckets (g_con_table s) ! i"
    have b: "bucket s i = Some ?v" using 1 True by (simp add: bucket_def)
    obtain ok v s1 where vi: "vec_init s ?v = (ok, v, s1)" by (cases "vec_init s ?v") auto
    from vec_init_ok [OF vi] have s1: "s1 = (if ok then (snd (malloc s))\<lparr>arrays := arrays s + 1\<rparr> else snd (malloc s))" and fail: "\<not> ok \<Longrightarrow> oom s (nalloc s)"
      and v: "ok \<Longrightarrow> vec_ok v \<and> vec_elems v = []" by (auto simp: malloc_def)
    let ?s = "set_bucket s1 i v"
    have grows: "mem_grows s ?s" using mem_grows_malloc [of s] s1 by (simp add: mem_grows_def)
    have step: "hash_init_from s i = (if \<not> ok then Some (False, ?s) else hash_init_from ?s (i + 1))"
      using True b vi by (simp add: hash_init_from.simps [of s i])
    show ?thesis
    proof (cases ok)
      case False
      with step have "hash_init_from s i = Some (False, ?s)" by simp
      with 1(2) grows s1 fail [OF False] show ?thesis by auto
    next
      case ok: True
      from "1.IH" [OF True b vi [symmetric] refl refl refl] ok s1 1(2)
      obtain ok' s' where s': "hash_init_from ?s (i + 1) = Some (ok', s')" "mem_grows ?s s'"
        "\<not> ok' \<longrightarrow> (\<exists>n. oom s1 n)"
        "g_tbl_init s' = g_tbl_init s" "ht_size (g_con_table s') = ht_size (g_con_table s)"
        "length (ht_buckets (g_con_table s')) = 256"
        "\<forall>j < i + 1. ht_buckets (g_con_table s') ! j = (ht_buckets (g_con_table s))[i := v] ! j"
        "ok' \<longrightarrow> arrays s' = arrays s1 + (256 - (i + 1))" "ok' \<longrightarrow> (\<forall>j. i + 1 \<le> j \<longrightarrow> j < 256 \<longrightarrow> vec_ok (ht_buckets (g_con_table s') ! j) \<and>
           vec_elems (ht_buckets (g_con_table s') ! j) = [])"
        by auto
      have "vec_ok (ht_buckets (g_con_table s') ! j) \<and> vec_elems (ht_buckets (g_con_table s') ! j) = []"
        if "ok'" "i \<le> j" "j < 256" for j
        using that s' v [OF ok] 1(2) by (cases "j = i") auto
      moreover have "oom s1 = oom s" "arrays s1 = arrays s + 1" using s1 ok by (simp_all add: malloc_def)
      moreover have "Suc (arrays s) + (256 - Suc i) = arrays s + (256 - i)" using True by simp
      ultimately show ?thesis
        using s' step ok mem_grows_trans [OF grows s'(2)] by auto
    qed
  qed
qed

lemma tbl_inv_empty:
  assumes "mem_ok s" "length (ht_buckets (g_con_table s)) = 256" "ht_size (g_con_table s) = 0"
    and "g_tbl_init s \<longrightarrow> 256 \<le> arrays s \<and> (\<forall>v \<in> set (ht_buckets (g_con_table s)). vec_ok v \<and> vec_elems v = [])"
  shows "tbl_inv s \<and> conn_ptrs s = []"
proof -
  have "conn_ptrs s = []" using assms(4) by (simp add: conn_ptrs_def)
  with assms show ?thesis by (simp add: tbl_inv_def bucket_ok_def)
qed

lemma hash_init_ok:
  assumes "tbl_inv s" "\<not> g_tbl_init s"
  shows "\<exists>ok s'. hash_init s = Some (ok, s') \<and> mem_grows s s' \<and> tbl_inv s' \<and> g_tbl_init s' = ok \<and>
    conn_ptrs s' = [] \<and> (\<not> ok \<longrightarrow> (\<exists>n. oom s n))"
proof -
  from assms have "length (ht_buckets (g_con_table s)) = 256" by (simp add: tbl_inv_def)
  from hash_init_from_ok [OF this, of 0] obtain ok s' where
    s': "hash_init_from s 0 = Some (ok, s')" "mem_grows s s'" "\<not> ok \<longrightarrow> (\<exists>n. oom s n)"
      "g_tbl_init s' = g_tbl_init s"
      "ht_size (g_con_table s') = ht_size (g_con_table s)" "length (ht_buckets (g_con_table s')) = 256"
      "ok \<longrightarrow> arrays s' = arrays s + 256" "ok \<longrightarrow> (\<forall>j < 256. vec_ok (ht_buckets (g_con_table s') ! j) \<and> vec_elems (ht_buckets (g_con_table s') ! j) = [])"
    by auto
  let ?s = "if ok then (set_ht_size s' 0)\<lparr>g_tbl_init := True\<rparr> else s'"
  have "hash_init s = Some (ok, ?s)" using s' by (simp add: hash_init_def)
  moreover have grows: "mem_grows s ?s" using s' by (simp add: mem_grows_def)
  moreover have "g_tbl_init ?s = ok" using s' assms by simp
  moreover have "tbl_inv ?s \<and> conn_ptrs ?s = []"
  proof (rule tbl_inv_empty)
    show "mem_ok ?s" using mem_grows_ok [OF grows] assms by (simp add: tbl_inv_def)
    show "ht_size (g_con_table ?s) = 0" using s' assms by (simp add: tbl_inv_def conn_ptrs_def)
    show "g_tbl_init ?s \<longrightarrow> 256 \<le> arrays ?s \<and> (\<forall>v \<in> set (ht_buckets (g_con_table ?s)). vec_ok v \<and> vec_elems v = [])"
      using s' assms by (auto simp: in_set_conv_nth)
  qed (use s' in simp)
  ultimately show ?thesis using s'(3) by blast
qed

text \<open>
  Replacing one bucket of a created table: the invariant needs the new bucket well formed, its
  blocks live and hashing there, and the pointers of the whole table distinct in identity.
\<close>

lemma set_bucket_inv:
  assumes "tbl_inv s" "g_tbl_init s" "k < HT_SIZE"
    and s': "ht_buckets (g_con_table s') = (ht_buckets (g_con_table s))[k := v]" "g_tbl_init s'" "mem_ok s'"
      "arrays s \<le> arrays s'"
    and "bucket_ok s' k v"
    and old: "\<forall>i < HT_SIZE. i \<noteq> k \<longrightarrow> bucket_ok s' i (ht_buckets (g_con_table s) ! i)"
    and ps: "mset (conn_ptrs s') = mset ps" "distinct ps" "ht_size (g_con_table s') = of_nat (length ps)"
    and "inj_on (\<lambda>p. map_option tcb_id (heap s' p)) (set ps)"
  shows "tbl_inv s'"
proof -
  have "set (conn_ptrs s') = set ps" "distinct (conn_ptrs s')" "length (conn_ptrs s') = length ps"
    using ps by (metis mset_eq_setD, metis mset_eq_imp_distinct_iff, metis mset_eq_length)
  moreover have "bucket_ok s' i (ht_buckets (g_con_table s') ! i)" if "i < 256" for i
    using that assms by (cases "i = k") (auto simp: tbl_inv_def)
  ultimately show ?thesis
    using assms by (simp add: tbl_inv_def)
qed

lemma mset_conn_ptrs_update:
  assumes "g_tbl_init s" "k < length (ht_buckets (g_con_table s))" "g_tbl_init s'"
    and "ht_buckets (g_con_table s') = (ht_buckets (g_con_table s))[k := v]"
  shows "mset (conn_ptrs s') + mset (vec_elems (ht_buckets (g_con_table s) ! k)) =
    mset (conn_ptrs s) + mset (vec_elems v)"
  using mset_concat_update [OF assms(2), of vec_elems v] assms by (simp add: conn_ptrs_def)

lemma vec_elems_le_conns:
  assumes "tbl_inv s" "g_tbl_init s" "k < HT_SIZE"
  shows "unat (vec_size (ht_buckets (g_con_table s) ! k)) \<le> length (conn_ptrs s)"
proof -
  from bucketE [OF assms] obtain v where v: "v = ht_buckets (g_con_table s) ! k" "vec_ok v" by blast
  have "v \<in> set (ht_buckets (g_con_table s))"
    using v assms by (simp add: tbl_inv_def)
  then have "length (vec_elems v) \<le> length (conn_ptrs s)"
    using assms(2) by (auto simp: conn_ptrs_def length_concat intro!: member_le_sum_list)
  with v show ?thesis by simp
qed

lemma hash_insert_created:
  assumes "tbl_inv s" "g_tbl_init s" "room s" "heap s p = Some t" "conns s (tcb_id t) = None"
  shows "\<exists>ok s'. hash_insert s p = Some (ok, s') \<and> mem_grows s s' \<and> tbl_inv s' \<and>
    (\<not> ok \<longrightarrow> (\<exists>n. oom s n)) \<and>
    mset (conn_ptrs s') = (if ok then {#p#} else {#}) + mset (conn_ptrs s)"
proof -
  let ?k = "unat (hash_id (tcb_id t))"
  from bucketE [OF assms(1,2) hash_id_less [of "tcb_id t"]] obtain v
    where v: "bucket s ?k = Some v" "v = ht_buckets (g_con_table s) ! ?k" "bucket_ok s ?k v" "vec_ok v"
    by blast
  have "unat (vec_size v) < 2147483648"
    using vec_elems_le_conns [OF assms(1,2) hash_id_less [of "tcb_id t"]] assms(3) v by (simp add: room_def)
  from vec_push_ok [OF v(4) this, of s p] obtain ok v' s1
    where push: "vec_push s v p = Some (ok, v', s1)" "s1 = s \<or> s1 = snd (malloc s)"
      "if ok then vec_ok v' \<and> vec_elems v' = vec_elems v @ [p] else v' = v"
      and fail: "\<not> ok \<longrightarrow> (\<exists>n. oom s n)"
    by blast
  have mem: "mem_ok s" using assms(1) by (rule tbl_inv_mem_ok)
  have s1: "mem_grows s s1" "g_tbl_init s1" "g_con_table s1 = g_con_table s" "heap s1 = heap s"
    using push(2) assms(2) by (auto simp: malloc_def mem_grows_def)
  let ?s = "if ok then set_ht_size (set_bucket s1 ?k v') (ht_size (g_con_table s) + 1) else set_bucket s1 ?k v'"
  have run: "hash_insert s p = Some (ok, ?s)"
    using assms mem v(1) push(1) s1 by (simp add: hash_insert_def)
  have grows: "mem_grows s ?s"
    using s1 by (simp add: mem_grows_def)
  have len: "?k < length (ht_buckets (g_con_table s))"
    using hash_id_less [of "tcb_id t"] assms(1) by (simp add: tbl_inv_def)
  have bs: "ht_buckets (g_con_table ?s) = (ht_buckets (g_con_table s))[?k := v']" "g_tbl_init ?s"
    "heap ?s = heap s"
    using s1 by simp_all
  define ps where "ps = (if ok then p # conn_ptrs s else conn_ptrs s)"
  have ms: "mset (conn_ptrs ?s) = mset ps"
    using mset_conn_ptrs_update [OF assms(2) len bs(2,1)] push(3) v(2)
    by (auto simp: ps_def add.commute split: if_splits)
  have new: "p \<notin> set (conn_ptrs s)" "\<forall>q \<in> set (conn_ptrs s). map_option tcb_id (heap s q) \<noteq> Some (tcb_id t)"
    using assms(4,5) by (auto simp: conns_None_iff has_id_iff)
  have "tbl_inv ?s"
  proof (rule set_bucket_inv [OF assms(1,2) hash_id_less bs(1,2) mem_grows_ok [OF grows mem] _ _ _ ms])
    show "arrays s \<le> arrays ?s" using grows by (simp add: mem_grows_def)
    show "bucket_ok ?s ?k v'"
      using push(3) v(3) assms(4) bs(3) by (auto simp: bucket_ok_def split: if_splits)
    show "\<forall>i < 256. i \<noteq> ?k \<longrightarrow> bucket_ok ?s i (ht_buckets (g_con_table s) ! i)"
      using assms(1,2) bs(3) by (simp add: tbl_inv_def bucket_ok_def)
    show "distinct ps" "ht_size (g_con_table ?s) = of_nat (length ps)"
      using assms(1,2) new(1) s1(3) by (auto simp: tbl_inv_def ps_def)
    show "inj_on (\<lambda>p. map_option tcb_id (heap ?s p)) (set ps)"
      using assms(1,2,4) new bs(3)
      by (auto simp: tbl_inv_def ps_def inj_on_insert eq_commute [of "Some (tcb_id t)"])
  qed
  with run grows ms fail show ?thesis by (auto simp: ps_def)
qed

lemma hash_insert_ok:
  assumes "tbl_inv s" "room s" "heap s p = Some t" "conns s (tcb_id t) = None"
  shows "\<exists>ok s'. hash_insert s p = Some (ok, s') \<and> mem_grows s s' \<and> tbl_inv s' \<and>
    (\<not> ok \<longrightarrow> (\<exists>n. oom s n)) \<and>
    mset (conn_ptrs s') = (if ok then {#p#} else {#}) + mset (conn_ptrs s)"
proof (cases "g_tbl_init s")
  case True
  from hash_insert_created [OF assms(1) True assms(2-4)] show ?thesis .
next
  case False
  from hash_init_ok [OF assms(1) False] obtain ok s1 where
    s1: "hash_init s = Some (ok, s1)" "mem_grows s s1" "tbl_inv s1" "g_tbl_init s1 = ok" "conn_ptrs s1 = []"
      "\<not> ok \<longrightarrow> (\<exists>n. oom s n)"
    by blast
  have none: "conn_ptrs s = []" using False by (simp add: conn_ptrs_def)
  show ?thesis
  proof (cases ok)
    case ok: True
    have eq: "hash_insert s p = hash_insert s1 p"
      using False s1(1,4) ok by (simp add: hash_insert_def)
    have "g_tbl_init s1" "room s1" "heap s1 p = Some t" "conns s1 (tcb_id t) = None"
      using s1 ok assms(3) by (simp_all add: room_def conns_def mem_grows_def)
    from hash_insert_created [OF s1(3) this] obtain b s'
      where b: "hash_insert s p = Some (b, s')" "mem_grows s1 s'" "tbl_inv s'"
        "mset (conn_ptrs s') = (if b then {#p#} else {#}) + mset (conn_ptrs s1)" "\<not> b \<longrightarrow> (\<exists>n. oom s1 n)"
      unfolding eq by (elim exE conjE)
    have "oom s1 = oom s" using s1(2) by (simp add: mem_grows_def)
    with b(5) have "\<not> b \<longrightarrow> (\<exists>n. oom s n)" by simp
    with b(1,3,4) s1(5) none mem_grows_trans [OF s1(2) b(2)] show ?thesis
      by (intro exI [of _ b] exI [of _ s']) simp
  next
    case fail: False
    then have "hash_insert s p = Some (False, s1)"
      using False s1(1) by (simp add: hash_insert_def)
    with s1(2,3,5,6) fail none show ?thesis
      by (intro exI [of _ False] exI [of _ s1]) simp
  qed
qed

section \<open>Removal\<close>

text \<open>The table once the block \<open>p\<close> is freed and the \<open>k\<close>-th bucket has lost its pointer.\<close>

definition without :: "server \<Rightarrow> ptr \<Rightarrow> nat \<Rightarrow> Vector \<Rightarrow> server" where
  "without s p k v = set_ht_size (set_bucket (s\<lparr>heap := (heap s)(p := None)\<rparr>) k v) (ht_size (g_con_table s) - 1)"

lemma without_simps [simp]:
  "heap (without s p k v) = (heap s)(p := None)" "oom (without s p k v) = oom s"
  "nalloc (without s p k v) = nalloc s" "arrays (without s p k v) = arrays s" "g_tbl_init (without s p k v) = g_tbl_init s"
  "ht_buckets (g_con_table (without s p k v)) = (ht_buckets (g_con_table s))[k := v]"
  "ht_size (g_con_table (without s p k v)) = ht_size (g_con_table s) - 1"
  by (simp_all add: without_def)

lemma bucket_ok_without:
  "bucket_ok s i w \<Longrightarrow> p \<notin> set (vec_elems w) \<Longrightarrow> bucket_ok (without s p k v) i w"
  by (auto simp: bucket_ok_def)

lemma without_ptrs:
  assumes "tbl_inv s" "g_tbl_init s" "k < HT_SIZE"
    and "add_mset p (mset (vec_elems v)) = mset (vec_elems (ht_buckets (g_con_table s) ! k))"
  shows "add_mset p (mset (conn_ptrs (without s p k v))) = mset (conn_ptrs s)"
    "mset (conn_ptrs (without s p k v)) = mset (remove1 p (conn_ptrs s))"
proof -
  have "k < length (ht_buckets (g_con_table s))" using assms by (simp add: tbl_inv_def)
  from mset_conn_ptrs_update [OF assms(2) this, of "without s p k v" v] assms(2)
  show "add_mset p (mset (conn_ptrs (without s p k v))) = mset (conn_ptrs s)"
    unfolding assms(4) [symmetric] by simp
  then show "mset (conn_ptrs (without s p k v)) = mset (remove1 p (conn_ptrs s))"
    by (metis mset_remove1 add_mset_remove_trivial)
qed

lemma without_inv:
  assumes "tbl_inv s" "g_tbl_init s" "k < HT_SIZE" "vec_ok v"
    and mv: "add_mset p (mset (vec_elems v)) = mset (vec_elems (ht_buckets (g_con_table s) ! k))"
  shows "tbl_inv (without s p k v)" (is "tbl_inv ?s")
proof -
  let ?ps = "remove1 p (conn_ptrs s)"
  have ms: "mset (conn_ptrs ?s) = mset ?ps"
    using without_ptrs(2) [OF assms(1-3) mv] .
  have dist: "distinct (conn_ptrs s)" and inj: "inj_on (\<lambda>p. map_option tcb_id (heap s p)) (set (conn_ptrs s))"
    and len: "length (ht_buckets (g_con_table s)) = 256"
    and ok: "\<And>i. i < 256 \<Longrightarrow> bucket_ok s i (ht_buckets (g_con_table s) ! i)"
    using assms(1,2) by (simp_all add: tbl_inv_def)
  have p: "p \<in> set (conn_ptrs s)"
    using without_ptrs(1) [OF assms(1-3) mv] by (metis set_mset_mset union_single_eq_member)
  have gone: "p \<notin> set (vec_elems w)" if "w \<in> set (ht_buckets (g_con_table ?s))" for w
    using that assms(2) dist mset_eq_setD [OF ms] by (auto simp: conn_ptrs_def)
  show ?thesis
  proof (rule set_bucket_inv [OF assms(1-3) _ _ _ _ _ _ ms])
    show "mem_ok ?s" using assms(1) by (auto simp: mem_ok_def tbl_inv_def)
    have "p \<notin> set (vec_elems v)"
      using gone len assms(3) by (simp add: set_update_memI)
    moreover have "set (vec_elems v) \<subseteq> set (vec_elems (ht_buckets (g_con_table s) ! k))"
      using mv by (metis set_mset_mset set_mset_add_mset_insert subset_insertI)
    ultimately show "bucket_ok ?s k v"
      using ok [OF assms(3)] assms(4) by (auto simp: bucket_ok_def subset_iff)
    show "\<forall>i < 256. i \<noteq> k \<longrightarrow> bucket_ok ?s i (ht_buckets (g_con_table s) ! i)"
    proof (intro allI impI)
      fix i :: nat
      assume i: "i < 256" "i \<noteq> k"
      then have "ht_buckets (g_con_table s) ! i \<in> set (ht_buckets (g_con_table ?s))"
        using nth_mem [of i "ht_buckets (g_con_table ?s)"] len by simp
      from bucket_ok_without [OF ok [OF i(1)] gone [OF this]]
      show "bucket_ok ?s i (ht_buckets (g_con_table s) ! i)" .
    qed
    have "length (conn_ptrs s) = length ?ps + 1"
      using p length_pos_if_in_set [OF p] by (simp add: length_remove1)
    then show "ht_size (g_con_table ?s) = of_nat (length ?ps)"
      using assms(1) by (simp add: tbl_inv_def)
    show "inj_on (\<lambda>p. map_option tcb_id (heap ?s p)) (set ?ps)"
      using inj dist by (auto simp: inj_on_def)
  qed (use dist assms(2) in auto)
qed

lemma hash_delete_ok:
  assumes "tbl_inv s" "p \<in> set (conn_ptrs s)"
  shows "\<exists>s'. hash_delete s p = Some s' \<and> tbl_inv s' \<and> heap s' = (heap s)(p := None) \<and> oom s' = oom s \<and>
    nalloc s' = nalloc s \<and> arrays s' = arrays s \<and> add_mset p (mset (conn_ptrs s')) = mset (conn_ptrs s)"
proof -
  have init: "g_tbl_init s" using assms(2) by (auto simp: conn_ptrs_def split: if_splits)
  have mem: "mem_ok s" using assms(1) by (rule tbl_inv_mem_ok)
  from assms init have inj: "inj_on (\<lambda>p. map_option tcb_id (heap s p)) (set (conn_ptrs s))"
    by (simp add: tbl_inv_def)
  from assms(2) init obtain w where "w \<in> set (ht_buckets (g_con_table s))" "p \<in> set (vec_elems w)"
    by (auto simp: conn_ptrs_def)
  then obtain k where k: "k < 256" "p \<in> set (vec_elems (ht_buckets (g_con_table s) ! k))"
    using assms(1) by (auto simp: in_set_conv_nth [of w] tbl_inv_def)
  from bucketE [OF assms(1) init k(1)] obtain v where v: "bucket s k = Some v"
    "v = ht_buckets (g_con_table s) ! k" "bucket_ok s k v" "vec_ok v" "all_live s (vec_elems v)"
    "set (vec_elems v) \<subseteq> set (conn_ptrs s)"
    by blast
  from v(2,3) k(2) obtain t where t: "heap s p = Some t" "unat (hash_id (tcb_id t)) = k"
    by (auto simp: bucket_ok_def split: option.splits)
  have "\<forall>q \<in> set (vec_elems v). same_id s p q \<longrightarrow> q = p"
    using inj v(6) assms(2) by (auto simp: same_id_def inj_on_def)
  from vec_delete_eq [OF v(4) mem v(5) _ this] k(2) v(2) obtain v'
    where del: "vec_delete s v p = Some (v', s\<lparr>heap := (heap s)(p := None)\<rparr>)" "vec_ok v'"
      "add_mset p (mset (vec_elems v')) = mset (vec_elems v)"
    by blast
  have "hash_delete s p = Some (without s p k v')"
    using init mem t v(1) del(1) by (simp add: hash_delete_def without_def set_bucket_def set_ht_size_def)
  moreover have "tbl_inv (without s p k v')"
    "add_mset p (mset (conn_ptrs (without s p k v'))) = mset (conn_ptrs s)"
    using without_inv [OF assms(1) init k(1) del(2)] without_ptrs(1) [OF assms(1) init k(1)] del(3) v(2)
    by auto
  ultimately show ?thesis by simp
qed

section \<open>Destruction\<close>

text \<open>Destroying the table frees every block that is in it, and the arrays of the buckets.\<close>

lemma hash_destroy_from_ok:
  assumes "mem_ok s" "length (ht_buckets (g_con_table s)) = HT_SIZE" "g_tbl_init s"
    and "\<forall>j. i \<le> j \<longrightarrow> j < HT_SIZE \<longrightarrow> vec_ok (ht_buckets (g_con_table s) ! j)"
    and "all_live s (concat (map vec_elems (drop i (ht_buckets (g_con_table s)))))"
    and "distinct (concat (map vec_elems (drop i (ht_buckets (g_con_table s)))))" "256 - i \<le> arrays s"
  shows "\<exists>s'. hash_destroy_from s i = Some s' \<and> nalloc s' = nalloc s \<and> oom s' = oom s \<and>
    arrays s' = arrays s - (256 - i) \<and> length (ht_buckets (g_con_table s')) = HT_SIZE \<and>
    heap s' = heap s |` (- set (concat (map vec_elems (drop i (ht_buckets (g_con_table s))))))"
  using assms
proof (induction s i rule: hash_destroy_from.induct)
  case (1 s i)
  show ?case
  proof (cases "i < 256")
    case False
    with 1 show ?thesis by (simp add: hash_destroy_from.simps [of s i])
  next
    case True
    let ?bs = "ht_buckets (g_con_table s)"
    let ?v = "?bs ! i" and ?r = "drop (i + 1) ?bs"
    have split: "drop i ?bs = ?v # ?r"
      using True 1 by (simp add: Cons_nth_drop_Suc)
    have b: "bucket s i = Some ?v" using 1 True by (simp add: bucket_def)
    let ?s1 = "s\<lparr>heap := heap s |` (- set (vec_elems ?v)), arrays := arrays s - 1\<rparr>"
    let ?s = "set_bucket ?s1 i zero_vector"
    have d: "vec_destroy s ?v = Some (zero_vector, ?s1)"
      unfolding zero_vector_def using True 1(2-8) unfolding split
      by (intro vec_destroy_eq) (auto simp: all_live_def)
    have step: "hash_destroy_from s i = hash_destroy_from ?s (i + 1)"
      using True b d by (simp add: hash_destroy_from.simps [of s i])
    have r: "drop (i + 1) (ht_buckets (g_con_table ?s)) = ?r" by simp
    have "\<exists>s'. hash_destroy_from ?s (i + 1) = Some s' \<and> nalloc s' = nalloc ?s \<and> oom s' = oom ?s \<and>
      arrays s' = arrays ?s - (256 - (i + 1)) \<and> length (ht_buckets (g_con_table s')) = 256 \<and>
      heap s' = heap ?s |` (- set (concat (map vec_elems (drop (i + 1) (ht_buckets (g_con_table ?s))))))"
    proof (rule "1.IH" [OF True b d refl])
      show "mem_ok ?s" using 1(2) by (auto simp: mem_ok_def restrict_map_def split: if_splits)
      show "all_live ?s (concat (map vec_elems (drop (i + 1) (ht_buckets (g_con_table ?s)))))"
        unfolding r using 1(6,7) unfolding split by (auto simp: all_live_def restrict_map_def)
      show "distinct (concat (map vec_elems (drop (i + 1) (ht_buckets (g_con_table ?s)))))"
        unfolding r using 1(7) unfolding split by simp
    qed (use 1(3-5,8) True in auto)
    moreover have "arrays s - 1 - (256 - (i + 1)) = arrays s - (256 - i)" using True by simp
    ultimately show ?thesis
      unfolding step r split by (auto simp: restrict_restrict)
  qed
qed

lemma hash_destroy_ok:
  assumes "tbl_inv s"
  shows "\<exists>s'. hash_destroy s = Some s' \<and> tbl_inv s' \<and> conn_ptrs s' = [] \<and>
    heap s' = heap s |` (- set (conn_ptrs s)) \<and> arrays s' = arrays s - (if g_tbl_init s then 256 else 0)"
proof (cases "g_tbl_init s")
  case False
  with assms show ?thesis
    by (simp add: hash_destroy_def conn_ptrs_def restrict_map_def)
next
  case True
  let ?bs = "ht_buckets (g_con_table s)"
  have ptrs: "conn_ptrs s = concat (map vec_elems (drop 0 ?bs))"
    using True by (simp add: conn_ptrs_def)
  have live: "all_live s (conn_ptrs s)"
    using assms True
    by (fastforce simp: all_live_def conn_ptrs_def tbl_inv_def bucket_ok_def in_set_conv_nth [of _ ?bs]
        split: option.splits)
  have dist: "distinct (conn_ptrs s)" using assms True by (simp add: tbl_inv_def)
  have "\<exists>s'. hash_destroy_from s 0 = Some s' \<and> nalloc s' = nalloc s \<and> oom s' = oom s \<and>
    arrays s' = arrays s - (256 - 0) \<and> length (ht_buckets (g_con_table s')) = 256 \<and> heap s' = heap s |` (- set (conn_ptrs s))"
    unfolding ptrs
  proof (rule hash_destroy_from_ok)
    show "all_live s (concat (map vec_elems (drop 0 ?bs)))" using live unfolding ptrs .
    show "distinct (concat (map vec_elems (drop 0 ?bs)))" using dist unfolding ptrs .
    show "\<forall>j. 0 \<le> j \<longrightarrow> j < HT_SIZE \<longrightarrow> vec_ok (?bs ! j)"
      using assms True by (simp add: tbl_inv_def bucket_ok_def)
  qed (use assms True in \<open>simp_all add: tbl_inv_def\<close>)
  then obtain s' where s': "hash_destroy_from s 0 = Some s'" "nalloc s' = nalloc s" "arrays s' = arrays s - 256"
    "length (ht_buckets (g_con_table s')) = 256" "heap s' = heap s |` (- set (conn_ptrs s))"
    unfolding diff_zero by (elim exE conjE)
  let ?s = "(set_ht_size s' 0)\<lparr>g_tbl_init := False\<rparr>"
  have "tbl_inv ?s \<and> conn_ptrs ?s = []"
    using s' assms by (intro tbl_inv_empty) (auto simp: tbl_inv_def mem_ok_def restrict_map_def split: if_splits)
  with s' True show ?thesis by (simp add: hash_destroy_def)
qed

section \<open>The contract\<close>

text \<open>
  Under the invariant the table is a map from identities to blocks: the hash table provides the
  interface \<open>connection_table\<close>.
\<close>

lemma conns_eqI:
  assumes "tbl_inv s'" "\<And>p. f = Some p \<longleftrightarrow> p \<in> set (conn_ptrs s') \<and> has_id s' i p"
  shows "conns s' i = f"
  using conns_Some_iff [OF assms(1)] assms(2) by (metis not_Some_eq)

lemma conns_insert:
  assumes "tbl_inv s" "tbl_inv s'" "mem_grows s s'" "heap s p = Some t" "conns s (tcb_id t) = None"
    and "mset (conn_ptrs s') = {#p#} + mset (conn_ptrs s)"
  shows "conns s' = (conns s)(tcb_id t \<mapsto> p)"
proof
  fix i
  have "set (conn_ptrs s') = insert p (set (conn_ptrs s))"
    using assms(6) by (metis add_mset_add_single set_mset_add_mset_insert set_mset_mset union_commute)
  moreover have "has_id s' i q = has_id s i q" for q
    using assms(3) by (simp add: has_id_def mem_grows_def)
  moreover have "has_id s i p \<longleftrightarrow> i = tcb_id t"
    using assms(4) by (auto simp: has_id_def)
  ultimately show "conns s' i = ((conns s)(tcb_id t \<mapsto> p)) i"
    using assms(2,5) conns_Some_iff [OF assms(1)] by (intro conns_eqI) (auto simp: conns_None_iff)
qed

lemma conns_same:
  assumes "tbl_inv s" "tbl_inv s'" "mem_grows s s'" "mset (conn_ptrs s') = mset (conn_ptrs s)"
  shows "conns s' = conns s"
proof
  fix i
  have "has_id s' i q = has_id s i q" for q
    using assms(3) by (simp add: has_id_def mem_grows_def)
  then show "conns s' i = conns s i"
    using assms(2) conns_Some_iff [OF assms(1)] mset_eq_setD [OF assms(4)] by (intro conns_eqI) auto
qed

lemma conns_delete:
  assumes "tbl_inv s" "tbl_inv s'" "heap s' = (heap s)(p := None)" "conns s i = Some p"
    and "add_mset p (mset (conn_ptrs s')) = mset (conn_ptrs s)"
  shows "conns s' = (conns s)(i := None)"
proof
  fix j
  have set: "set (conn_ptrs s) = insert p (set (conn_ptrs s'))"
    using assms(5) by (metis set_mset_add_mset_insert set_mset_mset)
  have p: "p \<in> set (conn_ptrs s)" "has_id s i p"
    using assms(4) conns_Some_iff [OF assms(1)] by auto
  have eq: "has_id s' j q \<longleftrightarrow> q \<noteq> p \<and> has_id s j q" for q j
    using assms(3) by (simp add: has_id_def)
  have uniq: "q = p" if "q \<in> set (conn_ptrs s)" "has_id s i q" for q
    using tbl_inv_unique [OF assms(1), of i] that p by blast
  have other: "j = i" if "has_id s j p"
    using that p(2) by (auto simp: has_id_iff)
  show "conns s' j = ((conns s)(i := None)) j"
  proof (rule conns_eqI [OF assms(2)])
    fix q
    show "((conns s)(i := None)) j = Some q \<longleftrightarrow> q \<in> set (conn_ptrs s') \<and> has_id s' j q"
    proof (cases "j = i")
      case True
      have "\<not> (q \<in> set (conn_ptrs s') \<and> has_id s' i q)" using set eq uniq by blast
      with True show ?thesis by simp
    next
      case False
      with set eq other show ?thesis by (simp add: conns_Some_iff [OF assms(1)], blast)
    qed
  qed
qed

definition hash_lookup :: "server \<Rightarrow> ID \<Rightarrow> ptr option option" where
  "hash_lookup s i = map_option (\<lambda>p. if p = NULL then None else Some p) (hash_find s i)"

definition block_id :: "'a mem_scheme \<Rightarrow> ptr \<Rightarrow> ID option" where
  "block_id s p = map_option tcb_id (heap s p)"

lemma conns_live:
  assumes "tbl_inv s" "conns s i = Some p"
  obtains t where "heap s p = Some t" "tcb_id t = i" "p \<noteq> NULL" "p \<in> set (conn_ptrs s)"
  using assms conns_Some_iff [OF assms(1)] mem_okD [OF tbl_inv_mem_ok [OF assms(1)]]
  by (auto simp: has_id_def split: option.splits)

lemma hash_lookup_eq: "tbl_inv s \<Longrightarrow> hash_lookup s i = Some (conns s i)"
  by (auto simp: hash_lookup_def hash_find_eq found_def elim: conns_live split: option.splits)

interpretation ht: connection_table tbl_inv room conns block_id hash_lookup hash_insert hash_delete
proof unfold_locales
  fix s k p
  assume inv: "tbl_inv s"
  show "hash_lookup s k = Some (conns s k)"
    using inv by (rule hash_lookup_eq)
  show "block_id s p = Some k" if "conns s k = Some p"
    using conns_live [OF inv that] by (auto simp: block_id_def)
  show "\<exists>ok s'. hash_insert s p = Some (ok, s') \<and> tbl_inv s' \<and> block_id s' = block_id s \<and>
      conns s' = (if ok then (conns s)(k \<mapsto> p) else conns s)"
    if "room s" "block_id s p = Some k" "conns s k = None"
  proof -
    from that(2) obtain t where t: "heap s p = Some t" "tcb_id t = k" by (auto simp: block_id_def)
    with that(3) have "conns s (tcb_id t) = None" by simp
    from hash_insert_ok [OF inv that(1) t(1) this] obtain ok s' where s': "hash_insert s p = Some (ok, s')"
      "mem_grows s s'" "tbl_inv s'" "mset (conn_ptrs s') = (if ok then {#p#} else {#}) + mset (conn_ptrs s)"
      by blast
    have "conns s' = (if ok then (conns s)(k \<mapsto> p) else conns s)"
      using conns_insert [OF inv s'(3,2) t(1)] conns_same [OF inv s'(3,2)] s'(4) t(2) that(3) by auto
    moreover have "block_id s' = block_id s" using s'(2) by (simp add: block_id_def fun_eq_iff mem_grows_def)
    ultimately show ?thesis using s' by blast
  qed
  show "\<exists>s'. hash_delete s p = Some s' \<and> tbl_inv s' \<and> block_id s' = (block_id s)(p := None) \<and>
      conns s' = (conns s)(k := None)"
    if "conns s k = Some p"
  proof -
    from conns_live [OF inv that] have "p \<in> set (conn_ptrs s)" .
    from hash_delete_ok [OF inv this] obtain s' where s': "hash_delete s p = Some s'" "tbl_inv s'"
      "heap s' = (heap s)(p := None)" "add_mset p (mset (conn_ptrs s')) = mset (conn_ptrs s)"
      by blast
    with conns_delete [OF inv s'(2,3) that s'(4)] show ?thesis
      by (auto simp: block_id_def fun_eq_iff)
  qed
qed

section \<open>Properties\<close>

lemma tbl_inv_start: "tbl_inv (server_start failing) \<and> conn_ptrs (server_start failing) = []"
  by (rule tbl_inv_empty) (simp_all add: server_start_def mem_ok_def)

text \<open>
  C9: inserting a live block whose identity is not in the table never faults, keeps the table
  invariant and touches no block; if it reports success, a lookup of the identity returns the
  block, otherwise an allocation failed and the identity is still absent; every other lookup is
  unchanged. The hypothesis \<open>room\<close> is that the table holds fewer than \<open>2 ^ 31\<close> blocks, the
  point where the 32-bit capacity of a bucket would wrap.
\<close>

theorem hash_insert_lookup:
  assumes "tbl_inv s" "room s" "heap s p = Some t" "hash_find s (tcb_id t) = Some NULL"
  shows "\<exists>ok s'. hash_insert s p = Some (ok, s') \<and> tbl_inv s' \<and> heap s' = heap s \<and>
    (ok \<or> (\<exists>n. oom s n)) \<and> hash_find s' (tcb_id t) = Some (if ok then p else NULL) \<and>
    (\<forall>i. i \<noteq> tcb_id t \<longrightarrow> hash_find s' i = hash_find s i)"
proof -
  have none: "conns s (tcb_id t) = None"
    using assms(1,4) conns_live by (fastforce simp: hash_find_eq found_def split: option.splits)
  from hash_insert_ok [OF assms(1-3) none] obtain ok s' where s': "hash_insert s p = Some (ok, s')"
    "mem_grows s s'" "tbl_inv s'" "\<not> ok \<longrightarrow> (\<exists>n. oom s n)" by blast
  have "block_id s p = Some (tcb_id t)" using assms(3) by (simp add: block_id_def)
  from ht.insert_table [OF assms(1,2) this none] s'(1)
  have "conns s' = (if ok then (conns s)(tcb_id t \<mapsto> p) else conns s)" by auto
  with s' assms(1) none show ?thesis
    by (auto simp: hash_find_eq found_def mem_grows_def)
qed

definition sample_id :: ID where
  "sample_id = \<lparr>id_src_port = 51000, id_dst_port = 80, id_src_ip = 0x0a000001, id_dst_ip = 0x0a000002\<rparr>"

definition sample_state :: server where
  "sample_state = (server_start (\<lambda>n. False))\<lparr>heap := [1 \<mapsto> fresh_tcb sample_id], nalloc := 1\<rparr>"

lemma sample_state_ok:
  "tbl_inv sample_state" "room sample_state" "heap sample_state 1 = Some (fresh_tcb sample_id)"
  "hash_find sample_state sample_id = Some NULL" "\<not> oom sample_state n"
  "tcb_id (fresh_tcb sample_id) = sample_id" "1 \<noteq> (0::ptr)"
  using tbl_inv_empty [of sample_state]
  by (simp_all add: sample_state_def server_start_def mem_ok_def room_def hash_find_def fresh_tcb_def)

theorem hash_insert_lookup_witness:
  "\<exists>s'. hash_insert sample_state 1 = Some (True, s') \<and> tbl_inv s' \<and> heap s' = heap sample_state \<and>
    hash_find s' sample_id = Some 1"
  using hash_insert_lookup [OF sample_state_ok(1-3)] sample_state_ok by auto

definition sample_table :: server where
  "sample_table = snd (the (hash_insert sample_state 1))"

lemma sample_table_ok: "tbl_inv sample_table" "hash_find sample_table sample_id = Some 1"
  "hash_insert sample_state 1 = Some (True, sample_table)"
proof -
  have none: "conns sample_state sample_id = None"
    using sample_state_ok conns_live by (fastforce simp: hash_find_eq found_def split: option.splits)
  have key: "block_id sample_state 1 = Some sample_id"
    using sample_state_ok by (simp add: block_id_def)
  obtain s where s: "hash_insert sample_state 1 = Some (True, s)" "tbl_inv s"
    using hash_insert_ok [OF sample_state_ok(1-3)] none sample_state_ok(5,6) by auto
  then have eq: "sample_table = s" by (simp add: sample_table_def)
  have "conns s sample_id = Some 1"
    using ht.lookup_after_insert(1) [OF sample_state_ok(1,2) key none s(1)] s(2) by (simp add: hash_lookup_eq)
  with s eq show "tbl_inv sample_table" "hash_find sample_table sample_id = Some 1"
    "hash_insert sample_state 1 = Some (True, sample_table)"
    by (simp_all add: hash_find_eq found_def)
qed

text \<open>
  C10: deleting a block that a lookup returned never faults, frees exactly that block and no
  other, keeps the table invariant (so the size field and every bucket stay right), makes the
  identity unknown and leaves every other lookup as it was.
\<close>

theorem hash_delete_lookup:
  assumes "tbl_inv s" "hash_find s i = Some p" "p \<noteq> NULL"
  shows "\<exists>s'. hash_delete s p = Some s' \<and> tbl_inv s' \<and> heap s' = (heap s)(p := None) \<and>
    hash_find s' i = Some NULL \<and> (\<forall>j. j \<noteq> i \<longrightarrow> hash_find s' j = hash_find s j)"
proof -
  have p: "conns s i = Some p"
    using assms by (auto simp: hash_find_eq found_def split: option.splits)
  from conns_live [OF assms(1) this] have "p \<in> set (conn_ptrs s)" .
  from hash_delete_ok [OF assms(1) this] obtain s' where s': "hash_delete s p = Some s'" "tbl_inv s'"
    "heap s' = (heap s)(p := None)" by blast
  from ht.remove_table [OF assms(1) p] s'(1) have "conns s' = (conns s)(i := None)" by auto
  with s' assms(1) show ?thesis
    by (auto simp: hash_find_eq found_def)
qed

theorem hash_delete_lookup_witness:
  "\<exists>s'. hash_delete sample_table 1 = Some s' \<and> tbl_inv s' \<and> hash_find s' sample_id = Some NULL \<and> heap s' 1 = None"
  using hash_delete_lookup [OF sample_table_ok(1,2) sample_state_ok(7)] by auto

text \<open>
  C17: shutting a created table down never faults or frees twice: it releases every block that is
  in the table and no other block, and the 256 bucket arrays, each once (whatever arrays exist
  besides are left allocated), and leaves an empty table that can be created again. On a table
  that was never created it does nothing.
\<close>

theorem hash_destroy_frees:
  assumes "tbl_inv s"
  shows "\<exists>s'. hash_destroy s = Some s' \<and> tbl_inv s' \<and> \<not> g_tbl_init s' \<and>
    (\<forall>i. hash_find s' i = Some NULL) \<and>
    (\<forall>p. heap s' p = (if p \<in> set (conn_ptrs s) then None else heap s p)) \<and>
    (if g_tbl_init s then 256 \<le> arrays s \<and> arrays s' = arrays s - 256 else s' = s)"
proof -
  from hash_destroy_ok [OF assms] obtain s' where s': "hash_destroy s = Some s'" "tbl_inv s'"
    "conn_ptrs s' = []" "heap s' = heap s |` (- set (conn_ptrs s))"
    "arrays s' = arrays s - (if g_tbl_init s then 256 else 0)" by blast
  have init: "\<not> g_tbl_init s'"
    using s'(1) by (auto simp: hash_destroy_def bind_eq_Some_conv split: if_splits)
  have "if g_tbl_init s then 256 \<le> arrays s \<and> arrays s' = arrays s - 256 else s' = s"
    using s'(1,5) assms by (auto simp: tbl_inv_def hash_destroy_def)
  with s' init show ?thesis
    by (simp add: hash_find_def restrict_map_def)
qed

lemma sample_table_created: "g_tbl_init sample_table" "1 \<in> set (conn_ptrs sample_table)"
proof -
  show p: "1 \<in> set (conn_ptrs sample_table)"
    using sample_table_ok(1,2) conns_Some_iff [OF sample_table_ok(1)]
    by (auto simp: hash_find_eq found_def split: option.splits)
  then show "g_tbl_init sample_table" by (auto simp: conn_ptrs_def split: if_splits)
qed

theorem hash_destroy_frees_witness:
  "\<exists>s'. hash_destroy sample_table = Some s' \<and> \<not> g_tbl_init s' \<and> heap s' 1 = None \<and>
     hash_find s' sample_id = Some NULL \<and> 256 \<le> arrays sample_table \<and> arrays s' = arrays sample_table - 256"
  using hash_destroy_frees [OF sample_table_ok(1)] sample_table_created by auto

end
