(* ===== verification/Segment.thy ===== *)
theory Segment
  imports Icmp Hash
begin

text \<open>
  \<open>refactor/network/tcp/segment.c\<close>, the header of \<open>tcp.h\<close> and \<open>tcp_checksum\<close> of \<open>tcp.c\<close>: the
  TCP header as an overlay of the packet buffer, the checksum over the pseudo header and the
  segment, and the two segments the server builds in place, SYN-ACK and RST. The lemmas give the
  built segments byte for byte.
\<close>

section \<open>The header\<close>

record TCP =
  tcp_src_port :: u16
  tcp_dst_port :: u16
  tcp_seq_num :: u32
  tcp_ack_num :: u32
  tcp_data_offset :: byte
  tcp_flags :: byte
  tcp_window :: u16
  tcp_cksum :: u16
  tcp_urgent_ptr :: u16

abbreviation (input) TCP_src_port :: int where "TCP_src_port \<equiv> 0"
abbreviation (input) TCP_dst_port :: int where "TCP_dst_port \<equiv> 2"
abbreviation (input) TCP_seq_num :: int where "TCP_seq_num \<equiv> 4"
abbreviation (input) TCP_ack_num :: int where "TCP_ack_num \<equiv> 8"
abbreviation (input) TCP_data_offset :: int where "TCP_data_offset \<equiv> 12"
abbreviation (input) TCP_flags :: int where "TCP_flags \<equiv> 13"
abbreviation (input) TCP_window :: int where "TCP_window \<equiv> 14"
abbreviation (input) TCP_checksum :: int where "TCP_checksum \<equiv> 16"
abbreviation (input) TCP_urgent_ptr :: int where "TCP_urgent_ptr \<equiv> 18"

definition tcp_header :: "buffer \<Rightarrow> int \<Rightarrow> TCP" where
  "tcp_header b tcp = \<lparr>
     tcp_src_port = peek16 b (tcp + TCP_src_port), tcp_dst_port = peek16 b (tcp + TCP_dst_port),
     tcp_seq_num = peek32 b (tcp + TCP_seq_num), tcp_ack_num = peek32 b (tcp + TCP_ack_num),
     tcp_data_offset = peek8 b (tcp + TCP_data_offset), tcp_flags = peek8 b (tcp + TCP_flags),
     tcp_window = peek16 b (tcp + TCP_window), tcp_cksum = peek16 b (tcp + TCP_checksum),
     tcp_urgent_ptr = peek16 b (tcp + TCP_urgent_ptr)\<rparr>"

abbreviation (input) TCP_LISTEN_PORT :: u16 where "TCP_LISTEN_PORT \<equiv> 8080"

abbreviation (input) FIN :: byte where "FIN \<equiv> 0x01"
abbreviation (input) SYN :: byte where "SYN \<equiv> 0x02"
abbreviation (input) RST :: byte where "RST \<equiv> 0x04"
abbreviation (input) PSH :: byte where "PSH \<equiv> 0x08"
abbreviation (input) ACK :: byte where "ACK \<equiv> 0x10"

record Flags =
  f_fin :: bool
  f_syn :: bool
  f_rst :: bool
  f_psh :: bool
  f_ack :: bool

definition flags_of :: "byte \<Rightarrow> Flags" where
  "flags_of v = \<lparr>f_fin = (v AND FIN \<noteq> 0), f_syn = (v AND SYN \<noteq> 0), f_rst = (v AND RST \<noteq> 0),
                 f_psh = (v AND PSH \<noteq> 0), f_ack = (v AND ACK \<noteq> 0)\<rparr>"

record Pseudo =
  ps_src :: u32
  ps_dst :: u32
  ps_zero :: byte
  ps_proto :: byte
  ps_tcp_len :: u16

abbreviation (input) sizeof_Pseudo :: int where "sizeof_Pseudo \<equiv> 12"

text \<open>The object representation of the packed struct.\<close>

definition pseudo_bytes :: "Pseudo \<Rightarrow> buffer" where
  "pseudo_bytes p =
     [byte_of 0 (ps_src p), byte_of 1 (ps_src p), byte_of 2 (ps_src p), byte_of 3 (ps_src p),
      byte_of 0 (ps_dst p), byte_of 1 (ps_dst p), byte_of 2 (ps_dst p), byte_of 3 (ps_dst p),
      ps_zero p, ps_proto p, byte_of 0 (ps_tcp_len p), byte_of 1 (ps_tcp_len p)]"

section \<open>Operations\<close>

text \<open>
  \<open>tcp_checksum\<close> of \<open>tcp.c\<close>. \<open>ghost_seg\<close> is a variable-length array; all of it is written before
  it is read. With a negative length the first copy already faults. The header is changed and
  restored, so the buffer is an input and an output.
\<close>

definition tcp_checksum :: "buffer \<Rightarrow> int \<Rightarrow> int \<Rightarrow> (u16 \<times> buffer) option" where
  "tcp_checksum buf len offset = do {
     org_cs \<leftarrow> load16 buf (offset + TCP_checksum);
     let seg_len = len - offset;
     src \<leftarrow> load32 buf IP_src;
     dst \<leftarrow> load32 buf IP_dst;
     proto \<leftarrow> load8 buf IP_proto;
     let pseudo = \<lparr>ps_src = src, ps_dst = dst, ps_zero = 0, ps_proto = proto,
                   ps_tcp_len = htons (word_of_int seg_len)\<rparr>;
     buf \<leftarrow> store16 buf (offset + TCP_checksum) 0;
     let ghost_seg = replicate (nat (sizeof_Pseudo + seg_len)) 0;
     ghost_seg \<leftarrow> memcpy ghost_seg 0 (pseudo_bytes pseudo) 0 sizeof_Pseudo;
     ghost_seg \<leftarrow> memcpy ghost_seg sizeof_Pseudo buf offset seg_len;
     cs \<leftarrow> checksum ghost_seg 0 (sizeof_Pseudo + seg_len);
     buf \<leftarrow> store16 buf (offset + TCP_checksum) org_cs;
     Some (cs, buf)
   }"

definition tcp_swap_port :: "buffer \<Rightarrow> int \<Rightarrow> buffer option" where
  "tcp_swap_port buf tcp = do {
     src_port \<leftarrow> load16 buf (tcp + TCP_src_port);
     dst_port \<leftarrow> load16 buf (tcp + TCP_dst_port);
     buf \<leftarrow> store16 buf (tcp + TCP_src_port) dst_port;
     store16 buf (tcp + TCP_dst_port) src_port
   }"

definition tcp_syn_ack :: "'a mem_scheme \<Rightarrow> ptr \<Rightarrow> buffer \<Rightarrow> int \<Rightarrow> int \<Rightarrow> (int \<times> buffer) option" where
  "tcp_syn_ack s state buf len offset = do {
     buf \<leftarrow> ip_swap_dst buf;
     buf \<leftarrow> tcp_swap_port buf offset;
     d \<leftarrow> load8 buf (offset + TCP_data_offset);
     let tcp_hlen = hlen_high d;
     tcb \<leftarrow> deref s state;
     buf \<leftarrow> store32 buf (offset + TCP_seq_num) (htonl (snd_iss (tcb_send tcb)));
     buf \<leftarrow> store32 buf (offset + TCP_ack_num) (htonl (rcv_next (tcb_recv tcb)));
     buf \<leftarrow> store8 buf (offset + TCP_data_offset) (set_hlen_high tcp_hlen);
     buf \<leftarrow> store8 buf (offset + TCP_flags) (SYN OR ACK);
     buf \<leftarrow> store16 buf (offset + TCP_window) (htons (ucast (rcv_window (tcb_recv tcb))));
     buf \<leftarrow> store16 buf (offset + TCP_urgent_ptr) 0;
     v \<leftarrow> load8 buf IP_version_ihl;
     let ip_hlen = hlen_low v;
     buf \<leftarrow> store16 buf IP_len (htons (word_of_int (ip_hlen + tcp_hlen)));
     buf \<leftarrow> ip_checksum buf;
     (cs, buf) \<leftarrow> tcp_checksum buf len offset;
     buf \<leftarrow> store16 buf (offset + TCP_checksum) cs;
     Some (ip_hlen + tcp_hlen, buf)
   }"

text \<open>
  \<open>tcp_rst\<close> assigns its locals \<open>seq_no\<close> and \<open>pl_flags\<close> only when the segment has ACK set and
  \<open>ack_no\<close> only when it has not. What the uninitialised ones hold is the record \<open>rst_junk\<close>, an
  arbitrary input of the model. The \<open>int\<close> locals are their 32-bit patterns.
\<close>

record rst_junk =
  junk_seq_no :: u32
  junk_ack_no :: u32
  junk_pl_flags :: u32

definition tcp_rst ::
  "server \<Rightarrow> ptr \<Rightarrow> buffer \<Rightarrow> int \<Rightarrow> int \<Rightarrow> rst_junk \<Rightarrow> (int \<times> buffer \<times> server) option" where
  "tcp_rst s state buf len offset junk = do {
     fl \<leftarrow> load8 buf (offset + TCP_flags);
     let flags = flags_of fl;
     d \<leftarrow> load8 buf (offset + TCP_data_offset);
     let tcp_hlen = hlen_high d;
     v \<leftarrow> load8 buf IP_version_ihl;
     let ip_hlen = hlen_low v;
     l \<leftarrow> load16 buf IP_len;
     let tot_len = uint (ntohs l);
     let seg_len = tot_len - ip_hlen - tcp_hlen;
     (seq_no, ack_no, pl_flags) \<leftarrow>
       (if f_ack flags
        then do {
          a \<leftarrow> load32 buf (offset + TCP_ack_num);
          Some (ucast (htons (ucast a)), junk_ack_no junk, ucast RST)
        }
        else do {
          let seg_len = seg_len + (of_bool (f_fin flags) + of_bool (f_syn flags));
          q \<leftarrow> load32 buf (offset + TCP_seq_num);
          Some (junk_seq_no junk, ntohl q + word_of_int seg_len, junk_pl_flags junk)
        });
     buf \<leftarrow> ip_swap_dst buf;
     buf \<leftarrow> tcp_swap_port buf offset;
     buf \<leftarrow> store16 buf IP_len (htons (word_of_int (ip_hlen + tcp_hlen)));
     buf \<leftarrow> store32 buf (offset + TCP_seq_num) (htonl seq_no);
     buf \<leftarrow> store32 buf (offset + TCP_ack_num) (htonl ack_no);
     buf \<leftarrow> store8 buf (offset + TCP_data_offset) (set_hlen_high tcp_hlen);
     buf \<leftarrow> store8 buf (offset + TCP_flags) (ucast pl_flags);
     buf \<leftarrow> store16 buf (offset + TCP_window) 0;
     buf \<leftarrow> store16 buf (offset + TCP_urgent_ptr) 0;
     s \<leftarrow> hash_delete s state;
     Some (ip_hlen + tcp_hlen, buf, s)
   }"

section \<open>The checksum over pseudo header and segment\<close>

definition pseudo_of :: "buffer \<Rightarrow> int \<Rightarrow> Pseudo" where
  "pseudo_of b n = \<lparr>ps_src = peek32 b IP_src, ps_dst = peek32 b IP_dst, ps_zero = 0,
     ps_proto = peek8 b IP_proto, ps_tcp_len = htons (word_of_int n)\<rparr>"

definition tcp_cks :: "buffer \<Rightarrow> int \<Rightarrow> int \<Rightarrow> u16" where
  "tcp_cks b len off = cks (pseudo_bytes (pseudo_of b (len - off)) @
     bytes_at (poke16 b (off + TCP_checksum) 0) off (len - off))"

lemma length_pseudo_bytes [simp]: "length (pseudo_bytes p) = 12"
  by (simp add: pseudo_bytes_def)

text \<open>A local array filled by two adjacent copies from two sources.\<close>

lemma blit_concat:
  assumes "0 \<le> n" "length p = nat m" "in_range s j n" "0 \<le> m"
  shows "blit (blit (replicate (nat (m + n)) 0) 0 p 0 m) m s j n = p @ bytes_at s j n"
  using assms by (simp add: blit_def bytes_at_def in_range_def nat_add_distrib)

lemma tcp_checksum_eq [op_simps]:
  assumes "20 \<le> off" "off \<le> len" "len \<le> int (length b)" "off + 18 \<le> int (length b)" "len \<le> 65536"
  shows "tcp_checksum b len off = Some (tcp_cks b len off, b)"
proof -
  let ?z = "poke16 b (off + 16) 0" and ?n = "len - off" and ?p = "pseudo_of b (len - off)"
  have n: "0 \<le> ?n" and r: "in_range ?z off ?n" "in_range b (off + 16) 2" "20 \<le> length b"
    using assms by (auto simp: in_range_def)
  let ?g = "blit (replicate (nat (12 + ?n)) 0) 0 (pseudo_bytes ?p) 0 12"
  have m1: "memcpy (replicate (nat (12 + ?n)) 0) 0 (pseudo_bytes ?p) 0 12 = Some ?g"
    using n by (simp add: memcpy_def in_range_def)
  have m2: "memcpy ?g 12 ?z off ?n = Some (pseudo_bytes ?p @ bytes_at ?z off ?n)"
    using blit_concat [of ?n "pseudo_bytes ?p" 12 ?z off] n r by (simp add: memcpy_def in_range_def)
  have c: "checksum (pseudo_bytes ?p @ bytes_at ?z off ?n) 0 (12 + ?n) = Some (tcp_cks b len off)"
    using n r assms by (simp add: checksum_eq in_range_def tcp_cks_def bytes_at_def nat_add_distrib)
  have undo: "poke16 ?z (off + 16) (peek16 b (off + 16)) = b"
    using r by (simp add: c16.poke_poke c16.poke_peek)
  show ?thesis
    using assms r m1 m2 c undo
    by (simp add: tcp_checksum_def pseudo_of_def Let_def in_range_def mem_simps)
qed

lemma tcp_cks_poke_checksum:
  "20 \<le> off \<Longrightarrow> off + 18 \<le> int (length b) \<Longrightarrow> tcp_cks (poke16 b (off + 16) v) len off = tcp_cks b len off"
  by (simp add: tcp_cks_def pseudo_of_def in_range_def mem_simps c16.poke_poke)

section \<open>The built segments\<close>

definition ports_swapped :: "buffer \<Rightarrow> int \<Rightarrow> buffer" where
  "ports_swapped b off = poke16 (poke16 b off (peek16 b (off + 2))) (off + 2) (peek16 b off)"

lemma length_ports_swapped [simp]: "length (ports_swapped b off) = length b"
  by (simp add: ports_swapped_def)

lemma tcp_swap_port_eq [op_simps]:
  "0 \<le> off \<Longrightarrow> off + 4 \<le> int (length b) \<Longrightarrow> tcp_swap_port b off = Some (ports_swapped b off)"
  by (simp add: tcp_swap_port_def ports_swapped_def in_range_def mem_simps)

lemma peek_ports_swapped [mem_simps]:
  assumes "0 \<le> off" "0 \<le> i"
  shows "i + 1 \<le> off \<or> off + 4 \<le> i \<Longrightarrow> peek8 (ports_swapped b off) i = peek8 b i"
    and "i + 2 \<le> off \<or> off + 4 \<le> i \<Longrightarrow> peek16 (ports_swapped b off) i = peek16 b i"
    and "i + 4 \<le> off \<or> off + 4 \<le> i \<Longrightarrow> peek32 (ports_swapped b off) i = peek32 b i"
  using assms by (auto simp: ports_swapped_def mem_simps)

lemma peek_ports_swapped_port [mem_simps]:
  assumes "0 \<le> off" "off + 4 \<le> int (length b)"
  shows "peek16 (ports_swapped b off) off = peek16 b (off + 2)"
    and "peek16 (ports_swapped b off) (off + 2) = peek16 b off"
  using assms by (auto simp: ports_swapped_def in_range_def mem_simps)

text \<open>The five fields both kinds of reply set, from the sequence number to the urgent pointer.\<close>

definition reply_fields :: "buffer \<Rightarrow> int \<Rightarrow> u32 \<Rightarrow> u32 \<Rightarrow> byte \<Rightarrow> u16 \<Rightarrow> buffer" where
  "reply_fields b off sq ak fl win =
     poke16 (poke16 (poke8 (poke8 (poke32 (poke32 b (off + 4) (htonl sq)) (off + 8) (htonl ak))
       (off + 12) (set_hlen_high (hlen_high (peek8 b (off + 12))))) (off + 13) fl) (off + 14) win) (off + 18) 0"

lemma length_reply_fields [simp]: "length (reply_fields b off sq ak fl win) = length b"
  by (simp add: reply_fields_def)

lemma peek_reply_fields [mem_simps]:
  assumes "0 \<le> off" "0 \<le> i"
  shows "i + 1 \<le> off + 4 \<Longrightarrow> peek8 (reply_fields b off sq ak fl win) i = peek8 b i"
    and "i + 2 \<le> off + 4 \<Longrightarrow> peek16 (reply_fields b off sq ak fl win) i = peek16 b i"
    and "i + 4 \<le> off + 4 \<Longrightarrow> peek32 (reply_fields b off sq ak fl win) i = peek32 b i"
  using assms by (auto simp: reply_fields_def mem_simps)

lemma tcp_header_reply_fields:
  assumes "0 \<le> off" "off + 20 \<le> int (length b)"
  shows "tcp_header (reply_fields b off sq ak fl win) off =
    (tcp_header b off)\<lparr>tcp_seq_num := htonl sq, tcp_ack_num := htonl ak,
       tcp_data_offset := set_hlen_high (hlen_high (peek8 b (off + 12))), tcp_flags := fl,
       tcp_window := win, tcp_urgent_ptr := 0\<rparr>"
  using assms by (simp add: tcp_header_def reply_fields_def in_range_def mem_simps)

lemma tcp_header_ports_swapped:
  assumes "0 \<le> off" "off + 20 \<le> int (length b)"
  shows "tcp_header (ports_swapped b off) off =
    (tcp_header b off)\<lparr>tcp_src_port := tcp_dst_port (tcp_header b off),
      tcp_dst_port := tcp_src_port (tcp_header b off)\<rparr>"
  using assms by (simp add: tcp_header_def mem_simps)

lemma tcp_header_low [simp]:
  "20 \<le> off \<Longrightarrow> 20 \<le> length b \<Longrightarrow> tcp_header (swapped b) off = tcp_header b off"
  "20 \<le> off \<Longrightarrow> 20 \<le> length b \<Longrightarrow> tcp_header (ip_summed b) off = tcp_header b off"
  "20 \<le> off \<Longrightarrow> tcp_header (poke16 b 2 v) off = tcp_header b off"
  by (simp_all add: tcp_header_def mem_simps)

lemma tcp_header_cksum:
  "0 \<le> off \<Longrightarrow> off + 20 \<le> int (length b) \<Longrightarrow>
   tcp_header (poke16 b (off + 16) v) off = (tcp_header b off)\<lparr>tcp_cksum := v\<rparr>"
  by (simp add: tcp_header_def in_range_def mem_simps)

definition reply_ip :: "buffer \<Rightarrow> int \<Rightarrow> u32 \<Rightarrow> u32 \<Rightarrow> byte \<Rightarrow> u16 \<Rightarrow> buffer" where
  "reply_ip b off sq ak fl win = poke16 (reply_fields (ports_swapped (swapped b) off) off sq ak fl win)
     IP_len (htons (word_of_int (ihl_of b + hlen_high (peek8 b (off + TCP_data_offset)))))"

definition syn_ack :: "buffer \<Rightarrow> int \<Rightarrow> int \<Rightarrow> TCB \<Rightarrow> buffer" where
  "syn_ack b len off t = (let r = ip_summed (reply_ip b off (snd_iss (tcb_send t)) (rcv_next (tcb_recv t))
       (SYN OR ACK) (htons (ucast (rcv_window (tcb_recv t)))))
     in poke16 r (off + TCP_checksum) (tcp_cks r len off))"

lemma length_reply_ip [simp]: "length (reply_ip b off sq ak fl win) = length b"
  by (simp add: reply_ip_def)

lemma length_syn_ack [simp]: "length (syn_ack b len off t) = length b"
  by (simp add: syn_ack_def Let_def)

text \<open>The buffer and the header length with which the handlers are called.\<close>

definition segment_at :: "buffer \<Rightarrow> int \<Rightarrow> int \<Rightarrow> bool" where
  "segment_at b len off \<longleftrightarrow> length b = 1500 \<and> len \<le> MTU_SIZE \<and> off = ihl_of b \<and> 20 \<le> off \<and> off \<le> len"

lemma segment_atD:
  assumes "segment_at b len off"
  shows "length b = 1500" "20 \<le> off" "off \<le> 60" "off \<le> len" "len \<le> 1500" "ihl_of b = off"
  using assms hlen_low_bounds [of "peek8 b 0"] by (auto simp: segment_at_def)

lemma tcp_syn_ack_eq [op_simps]:
  assumes "segment_at b len off" "deref s p = Some t"
  shows "tcp_syn_ack s p b len off = Some (off + hlen_high (peek8 b (off + 12)), syn_ack b len off t)"
  using segment_atD [OF assms(1)] assms(2)
  by (simp add: tcp_syn_ack_def syn_ack_def reply_ip_def reply_fields_def in_range_def mem_simps op_simps Let_def)

definition rst_reply :: "buffer \<Rightarrow> int \<Rightarrow> u32 \<Rightarrow> u32 \<Rightarrow> byte \<Rightarrow> buffer" where
  "rst_reply b off sq ak fl = reply_fields (poke16 (ports_swapped (swapped b) off) IP_len
     (htons (word_of_int (ihl_of b + hlen_high (peek8 b (off + TCP_data_offset)))))) off sq ak fl 0"

lemma length_rst_reply [simp]: "length (rst_reply b off sq ak fl) = length b"
  by (simp add: rst_reply_def)

text \<open>The values a reset carries, taken from the segment or, where nothing is assigned, from the junk.\<close>

definition rst_seq :: "buffer \<Rightarrow> int \<Rightarrow> rst_junk \<Rightarrow> u32" where
  "rst_seq b off junk = (if f_ack (flags_of (peek8 b (off + TCP_flags)))
     then ucast (htons (ucast (peek32 b (off + TCP_ack_num)))) else junk_seq_no junk)"

definition rst_ack :: "buffer \<Rightarrow> int \<Rightarrow> rst_junk \<Rightarrow> u32" where
  "rst_ack b off junk = (let fl = flags_of (peek8 b (off + TCP_flags)) in
     if f_ack fl then junk_ack_no junk
     else htonl (peek32 b (off + TCP_seq_num)) +
       word_of_int (uint (htons (peek16 b IP_len)) - off - hlen_high (peek8 b (off + TCP_data_offset)) +
         (of_bool (f_fin fl) + of_bool (f_syn fl))))"

definition rst_flags :: "buffer \<Rightarrow> int \<Rightarrow> rst_junk \<Rightarrow> byte" where
  "rst_flags b off junk = (if f_ack (flags_of (peek8 b (off + TCP_flags))) then RST else ucast (junk_pl_flags junk))"

lemma tcp_rst_eq [op_simps]:
  assumes "segment_at b len off" "hash_delete s p = Some s'"
  shows "tcp_rst s p b len off junk = Some (off + hlen_high (peek8 b (off + 12)),
    rst_reply b off (rst_seq b off junk) (rst_ack b off junk) (rst_flags b off junk), s')"
  using segment_atD [OF assms(1)] assms(2)
  by (auto simp: tcp_rst_def rst_reply_def reply_fields_def rst_seq_def rst_ack_def rst_flags_def
      in_range_def mem_simps op_simps Let_def split: if_splits)

section \<open>Properties\<close>

text \<open>
  C19: for a connection block that is live, \<open>tcp_syn_ack\<close> turns the received segment in place into
  the SYN-ACK of that connection: ports and addresses exchanged, sequence number ISS,
  acknowledgment the next expected number, flags SYN and ACK, the advertised window, no payload,
  and an IP length field and return value that cover just the two headers. The IP header
  verifies, and when the received packet had no payload so does the TCP checksum.
\<close>

theorem tcp_syn_ack_built:
  assumes "segment_at buf len offset" "drop_bit 4 (peek8 buf 0) = 4" "deref s p = Some t"
  defines "hlen \<equiv> hlen_high (tcp_data_offset (tcp_header buf offset))"
  shows "\<exists>buf'. tcp_syn_ack s p buf len offset = Some (offset + hlen, buf') \<and> length buf' = length buf \<and>
    ipv4_src (ip_header buf') = ipv4_dst (ip_header buf) \<and>
    ipv4_dst (ip_header buf') = ipv4_src (ip_header buf) \<and>
    ipv4_len (ip_header buf') = htons (word_of_int (offset + hlen)) \<and>
    tcp_src_port (tcp_header buf' offset) = tcp_dst_port (tcp_header buf offset) \<and>
    tcp_dst_port (tcp_header buf' offset) = tcp_src_port (tcp_header buf offset) \<and>
    ntohl (tcp_seq_num (tcp_header buf' offset)) = snd_iss (tcb_send t) \<and>
    ntohl (tcp_ack_num (tcp_header buf' offset)) = rcv_next (tcb_recv t) \<and>
    hlen_high (tcp_data_offset (tcp_header buf' offset)) = hlen \<and>
    tcp_flags (tcp_header buf' offset) = (SYN OR ACK) \<and>
    ntohs (tcp_window (tcp_header buf' offset)) = ucast (rcv_window (tcb_recv t)) \<and>
    ip_validate buf' (offset + hlen) = Some 1 \<and>
    (len = offset + hlen \<longrightarrow>
       tcp_checksum buf' len offset = Some (tcp_cksum (tcp_header buf' offset), buf'))"
proof -
  note seg = segment_atD [OF assms(1)]
  let ?b = "syn_ack buf len offset t"
  let ?i = "reply_ip buf offset (snd_iss (tcb_send t)) (rcv_next (tcb_recv t)) (SYN OR ACK)
    (htons (ucast (rcv_window (tcb_recv t))))"
  have h: "hlen = hlen_high (peek8 buf (offset + 12))" "0 \<le> hlen" "hlen \<le> 60"
    using hlen_high_bounds by (simp_all add: hlen_def tcp_header_def)
  have i0: "peek8 ?i 0 = peek8 buf 0" and b0: "peek8 ?b 0 = peek8 buf 0"
    using seg by (simp_all add: syn_ack_def reply_ip_def Let_def mem_simps)
  have run: "tcp_syn_ack s p buf len offset = Some (offset + hlen, ?b)"
    using assms(1,3) h by (simp add: op_simps)
  have th: "tcp_header ?b offset = (tcp_header ?i offset)\<lparr>tcp_cksum := tcp_cks (ip_summed ?i) len offset\<rparr>"
    using seg by (simp add: syn_ack_def Let_def tcp_header_cksum)
  have ti: "tcp_header ?i offset = (tcp_header buf offset)\<lparr>tcp_src_port := tcp_dst_port (tcp_header buf offset),
      tcp_dst_port := tcp_src_port (tcp_header buf offset), tcp_seq_num := htonl (snd_iss (tcb_send t)),
      tcp_ack_num := htonl (rcv_next (tcb_recv t)), tcp_data_offset := set_hlen_high hlen,
      tcp_flags := SYN OR ACK, tcp_window := htons (ucast (rcv_window (tcb_recv t))), tcp_urgent_ptr := 0\<rparr>"
    using seg h by (simp add: reply_ip_def tcp_header_reply_fields tcp_header_ports_swapped mem_simps)
  have ip: "peek32 ?b 12 = peek32 buf 16" "peek32 ?b 16 = peek32 buf 12"
    "peek16 ?b 2 = htons (word_of_int (offset + hlen))"
    using seg h by (simp_all add: syn_ack_def reply_ip_def Let_def in_range_def mem_simps)
  have "cks (bytes_at ?b 0 offset) = 0"
    using cks_ip_summed [of ?i] seg i0 by (simp add: syn_ack_def Let_def mem_simps)
  then have "ip_validate ?b (offset + hlen) = Some 1"
    using seg h b0 assms(2) by (intro ip_validate_1I) (simp_all add: received_def)
  moreover have sum: "tcp_checksum ?b len offset = Some (tcp_cksum (tcp_header ?b offset), ?b)"
    using seg th tcp_cks_poke_checksum [of offset "ip_summed ?i"]
    by (simp add: op_simps) (simp add: syn_ack_def Let_def)
  moreover have "hlen_high (set_hlen_high hlen) = hlen" using h by simp
  ultimately show ?thesis
    using run th ti ip by (intro exI [of _ ?b] conjI impI sum) (simp_all add: ip_header_def)
qed

definition syn_packet :: buffer where
  "syn_packet = [0x45, 0, 0, 0x28, 0, 1, 0, 0, 0x40, 6, 0x66, 0xcd, 0xa, 0, 0, 1, 0xa, 0, 0, 2, 0xc7, 0x38, 0x1f, 0x90, 0, 0, 3, 0xe8, 0, 0, 0, 0, 0x50, 2, 0xfa, 0xf0, 0xb6, 0x3e, 0, 0] @ replicate 1460 0"

definition syn_data_packet :: buffer where
  "syn_data_packet = [0x45, 0, 0, 0x2d, 0, 1, 0, 0, 0x40, 6, 0x66, 0xc8, 0xa, 0, 0, 1, 0xa, 0, 0, 2, 0xc7, 0x38, 0x1f, 0x90, 0, 0, 3, 0xe8, 0, 0, 0, 0, 0x50, 2, 0xfa, 0xf0, 0xeb, 0xd3, 0, 0, 0x47, 0x45, 0x54, 0x20, 0x2f] @ replicate 1455 0"

definition ack_packet :: buffer where
  "ack_packet = [0x45, 0, 0, 0x28, 0, 1, 0, 0, 0x40, 6, 0x66, 0xcd, 0xa, 0, 0, 1, 0xa, 0, 0, 2, 0xc7, 0x38, 0, 0x51, 0, 0, 3, 0xe9, 1, 2, 3, 4, 0x50, 0x10, 0xfa, 0xf0, 0xd1, 0x68, 0, 0] @ replicate 1460 0"

lemma packets_at: "segment_at syn_packet 40 20" "segment_at syn_data_packet 45 20" "segment_at ack_packet 40 20"
  by (simp_all add: segment_at_def syn_packet_def syn_data_packet_def ack_packet_def peek8_def hlen_low_def)

theorem tcp_syn_ack_built_witness:
  "\<exists>buf'. tcp_syn_ack sample_state 1 syn_packet 40 20 = Some (40, buf') \<and> ip_validate buf' 40 = Some 1 \<and>
    tcp_checksum buf' 40 20 = Some (tcp_cksum (tcp_header buf' 20), buf')"
proof -
  have "drop_bit 4 (peek8 syn_packet 0) = 4" "hlen_high (tcp_data_offset (tcp_header syn_packet 20)) = 20"
    by code_simp+
  moreover have "deref sample_state 1 = Some (fresh_tcb sample_id)"
    using sample_state_ok by (simp add: deref_def)
  ultimately show ?thesis
    using tcp_syn_ack_built [OF packets_at(1), of sample_state 1] by auto
qed

text \<open>
  The restriction to segments without payload is needed: the checksum of the SYN-ACK covers the
  length of the received packet, not of the reply. A SYN that carries data is answered with a
  segment the peer discards.
\<close>

lemma syn_ack_to_data_rejected:
  assumes "tcb_send t = \<lparr>snd_unac = 5000, snd_next = 5001, snd_window = 64240, snd_iss = 5000\<rparr>"
    and "tcb_recv t = \<lparr>rcv_next = 1001, rcv_window = 8192, rcv_irs = 1000\<rparr>" "deref s p = Some t"
  shows "\<exists>buf' c. tcp_syn_ack s p syn_data_packet 45 20 = Some (40, buf') \<and>
    tcp_checksum buf' 40 20 = Some (c, buf') \<and> c \<noteq> tcp_cksum (tcp_header buf' 20)"
proof -
  let ?r = "ip_summed (reply_ip syn_data_packet 20 5000 1001 (SYN OR ACK) (htons (ucast (8192 :: u32))))"
  let ?b = "poke16 ?r 36 (tcp_cks ?r 45 20)"
  have run: "tcp_syn_ack s p syn_data_packet 45 20 = Some (40, ?b)"
  proof -
    have "hlen_high (peek8 syn_data_packet 32) = 20" by code_simp
    with tcp_syn_ack_eq [OF packets_at(2) assms(3)] assms(1,2) show ?thesis
      by (simp add: syn_ack_def Let_def)
  qed
  have "do { r \<leftarrow> ip_checksum (reply_ip syn_data_packet 20 5000 1001 (SYN OR ACK) (htons (ucast (8192 :: u32))));
      (c, r) \<leftarrow> tcp_checksum r 45 20; (d, r) \<leftarrow> tcp_checksum (poke16 r 36 c) 40 20; Some (c = d) } = Some False"
    by code_simp
  moreover have len: "length syn_data_packet = 1500" by (simp add: syn_data_packet_def)
  ultimately have "tcp_cks ?r 45 20 \<noteq> tcp_cks ?b 40 20" by (simp add: op_simps)
  moreover have "peek16 ?b 36 = tcp_cks ?r 45 20"
    using len by (intro c16.peek_poke) (simp add: in_range_def)
  ultimately show ?thesis
    using run len by (auto simp: tcp_checksum_eq tcp_header_def)
qed

text \<open>
  C20: \<open>tcp_rst\<close> on a connection of the table, whatever the uninitialised locals hold, stays in
  bounds, turns the segment in place into a reply to the sender of the length of the two
  headers, with window and urgent pointer 0, and
  releases the connection: its block is freed and the table no longer knows it. If the segment
  had ACK set, the reply has just RST set and its sequence number is the upper half of the
  acknowledgment number, because of the 16-bit conversion. Neither checksum field is renewed.
\<close>

theorem tcp_rst_built:
  assumes "segment_at buf len offset" "tbl_inv s" "hash_find s i = Some p" "p \<noteq> NULL"
  defines "hlen \<equiv> hlen_high (tcp_data_offset (tcp_header buf offset))"
  shows "\<exists>buf' s'. tcp_rst s p buf len offset junk = Some (offset + hlen, buf', s') \<and> length buf' = length buf \<and>
    ipv4_src (ip_header buf') = ipv4_dst (ip_header buf) \<and>
    ipv4_dst (ip_header buf') = ipv4_src (ip_header buf) \<and>
    ipv4_len (ip_header buf') = htons (word_of_int (offset + hlen)) \<and>
    ipv4_checksum (ip_header buf') = ipv4_checksum (ip_header buf) \<and>
    tcp_src_port (tcp_header buf' offset) = tcp_dst_port (tcp_header buf offset) \<and>
    tcp_dst_port (tcp_header buf' offset) = tcp_src_port (tcp_header buf offset) \<and>
    tcp_window (tcp_header buf' offset) = 0 \<and> tcp_urgent_ptr (tcp_header buf' offset) = 0 \<and>
    tcp_cksum (tcp_header buf' offset) = tcp_cksum (tcp_header buf offset) \<and>
    (f_ack (flags_of (tcp_flags (tcp_header buf offset))) \<longrightarrow> tcp_flags (tcp_header buf' offset) = RST \<and>
       ntohl (tcp_seq_num (tcp_header buf' offset)) = ucast (ntohs (ucast (tcp_ack_num (tcp_header buf offset))))) \<and>
    tbl_inv s' \<and> heap s' = (heap s)(p := None) \<and> hash_find s' i = Some NULL"
proof -
  note seg = segment_atD [OF assms(1)]
  have c: "conns s i = Some p"
    using assms(2-4) by (auto simp: hash_find_eq found_def split: option.splits)
  from conns_live [OF assms(2) c] have "p \<in> set (conn_ptrs s)" .
  from hash_delete_ok [OF assms(2) this] obtain s' where s': "hash_delete s p = Some s'" "tbl_inv s'"
    "heap s' = (heap s)(p := None)" by blast
  from ht.remove_table [OF assms(2) c] s'(1) have "conns s' i = None" by auto
  then have gone: "hash_find s' i = Some NULL" using s'(2) by (simp add: hash_find_eq found_def)
  have h: "hlen = hlen_high (peek8 buf (offset + 12))" by (simp add: hlen_def tcp_header_def)
  let ?b = "rst_reply buf offset (rst_seq buf offset junk) (rst_ack buf offset junk) (rst_flags buf offset junk)"
  have "tcp_rst s p buf len offset junk = Some (offset + hlen, ?b, s')"
    using tcp_rst_eq [OF assms(1) s'(1)] h by simp
  moreover have th: "tcp_header ?b offset = (tcp_header buf offset)\<lparr>
      tcp_src_port := tcp_dst_port (tcp_header buf offset), tcp_dst_port := tcp_src_port (tcp_header buf offset),
      tcp_seq_num := htonl (rst_seq buf offset junk), tcp_ack_num := htonl (rst_ack buf offset junk),
      tcp_data_offset := set_hlen_high hlen, tcp_flags := rst_flags buf offset junk,
      tcp_window := 0, tcp_urgent_ptr := 0\<rparr>"
    using seg h by (simp add: rst_reply_def tcp_header_reply_fields tcp_header_ports_swapped mem_simps)
  moreover have "ip_header ?b = (ip_header buf)\<lparr>ipv4_src := ipv4_dst (ip_header buf),
      ipv4_dst := ipv4_src (ip_header buf), ipv4_len := htons (word_of_int (offset + hlen))\<rparr>"
    using seg h by (simp add: rst_reply_def ip_header_def in_range_def mem_simps)
  moreover have fl: "f_ack (flags_of (tcp_flags (tcp_header buf offset))) \<longrightarrow> tcp_flags (tcp_header ?b offset) = RST \<and>
      ntohl (tcp_seq_num (tcp_header ?b offset)) = ucast (ntohs (ucast (tcp_ack_num (tcp_header buf offset))))"
    unfolding th by (simp add: rst_flags_def rst_seq_def tcp_header_def)
  ultimately show ?thesis
    using gone s' by (intro exI [of _ ?b] exI [of _ s'] conjI fl) simp_all
qed

theorem tcp_rst_built_witness:
  "\<exists>buf' s'. tcp_rst sample_table 1 ack_packet 40 20 \<lparr>junk_seq_no = 0, junk_ack_no = 7, junk_pl_flags = 9\<rparr> =
      Some (40, buf', s') \<and> tcp_flags (tcp_header buf' 20) = RST \<and> hash_find s' sample_id = Some NULL"
proof -
  have "hlen_high (tcp_data_offset (tcp_header ack_packet 20)) = 20"
    "f_ack (flags_of (tcp_flags (tcp_header ack_packet 20)))" by code_simp+
  with tcp_rst_built [OF packets_at(3) sample_table_ok(1,2), of "\<lparr>junk_seq_no = 0, junk_ack_no = 7, junk_pl_flags = 9\<rparr>"]
  show ?thesis by auto
qed

text \<open>
  The sequence number of a reset should be the acknowledgment number of the segment it answers;
  \<open>htons\<close> in place of \<open>ntohl\<close> keeps only its upper half.
\<close>

lemma rst_seq_truncated:
  "ntohl (tcp_ack_num (tcp_header ack_packet 20)) = 0x01020304 \<and> rst_seq ack_packet 20 junk = 0x0102"
proof -
  have "ntohl (tcp_ack_num (tcp_header ack_packet 20)) = 0x01020304"
    "f_ack (flags_of (peek8 ack_packet 33))" "(ucast (htons (ucast (peek32 ack_packet 28))) :: u32) = 0x0102"
    by code_simp+
  then show ?thesis by (simp add: rst_seq_def)
qed

end
