(* ===== verification/Tcp.thy ===== *)
theory Tcp
  imports Segment
begin

text \<open>
  \<open>refactor/network/tcp/tcp.c\<close> and \<open>tcb_state_update\<close> of \<open>tcb.c\<close>: classification of a received
  segment, the state change it causes and the reply. The server state is that of theory \<open>Hash\<close>.
  \<open>tcp_spec\<close> is what the handler promises on the abstract state, a map from connection identities
  to control blocks; the refinement theorem says that \<open>tcp_dispatch\<close> implements it, that no
  memory fault occurs and that every live control block is in the table.
\<close>

section \<open>Operations\<close>

text \<open>
  What the processing of one packet draws from outside the program: the clock, \<open>rand()\<close> and the
  contents of the uninitialised locals of \<open>tcp_rst\<close>.
\<close>

record ambient =
  tv_sec :: int
  tv_usec :: int
  rand_value :: int
  amb_junk :: rst_junk

text \<open>\<open>time_t\<close> arithmetic at 64 bits, cut down to \<open>uint32_t\<close> on return.\<close>

definition tcp_gen_iss :: "ambient \<Rightarrow> u32" where
  "tcp_gen_iss a = word_of_int (tv_sec a * 1000000 + tv_usec a + rand_value a)"

definition tcb_state_update ::
  "server \<Rightarrow> buffer \<Rightarrow> int \<Rightarrow> ptr \<Rightarrow> Edge \<Rightarrow> ambient \<Rightarrow> (bool \<times> server) option" where
  "tcb_state_update s buf tcp tcb edge a =
     (case edge of
       EVT_SYN \<Rightarrow> do {
         t \<leftarrow> deref s tcb;
         q \<leftarrow> load32 buf (tcp + TCP_seq_num);
         w \<leftarrow> load16 buf (tcp + TCP_window);
         let irs = ntohl q;
         let t = t\<lparr>tcb_recv := (tcb_recv t)\<lparr>rcv_irs := irs, rcv_next := irs + 1\<rparr>,
                   tcb_send := (tcb_send t)\<lparr>snd_window := ucast (ntohs w)\<rparr>\<rparr>;
         let t = (if con_state t = CON_CLOSED
                  then let iss = tcp_gen_iss a
                       in t\<lparr>tcb_send := (tcb_send t)\<lparr>snd_iss := iss, snd_next := iss + 1, snd_unac := iss\<rparr>\<rparr>
                  else t);
         s \<leftarrow> assign s tcb (t\<lparr>con_state := CON_SYN_RECEIVED\<rparr>);
         Some (True, s)
       }
     | EVT_ACK \<Rightarrow> do {
         k \<leftarrow> load32 buf (tcp + TCP_ack_num);
         let ack_no = ntohl k;
         t \<leftarrow> deref s tcb;
         if ack_no = snd_next (tcb_send t)
         then do {
           s \<leftarrow> assign s tcb (t\<lparr>con_state := CON_ESTABLISHED,
                                  tcb_send := (tcb_send t)\<lparr>snd_unac := ack_no\<rparr>\<rparr>);
           Some (True, s)
         }
         else Some (False, s)
       }
     | EVT_RST \<Rightarrow> do {
         q \<leftarrow> load32 buf (tcp + TCP_seq_num);
         let seq_no = ntohl q;
         t \<leftarrow> deref s tcb;
         let r = tcb_recv t;
         if SEQ_GEQ seq_no (rcv_next r) \<and> SEQ_LT seq_no (rcv_next r + rcv_window r)
         then do {
           s \<leftarrow> hash_delete s tcb;
           Some (True, s)
         }
         else Some (False, s)
       }
     | _ \<Rightarrow> Some (True, s))"

text \<open>
  The part of \<open>tcp_parse_edge\<close> after the connection is at hand: a chain of tests, each of which
  jumps to the exit, then the switch on the state.
\<close>

definition parse_edge_known :: "Flags \<Rightarrow> ID \<Rightarrow> Con_State \<Rightarrow> Edge" where
  "parse_edge_known flags i st =
     (if id_dst_port i \<noteq> TCP_LISTEN_PORT then EVT_SEND_RST
      else if f_rst flags then EVT_RST
      else if st = CON_CLOSED then
        (if f_rst flags then EVT_DROP
         else if f_syn flags \<and> \<not> f_ack flags then EVT_SYN
         else EVT_SEND_RST)
      else (case st of
          CON_SYN_RECEIVED \<Rightarrow> if f_ack flags \<and> \<not> f_syn flags then EVT_ACK else EVT_SEND_RST
        | CON_ESTABLISHED \<Rightarrow>
            if f_rst flags then EVT_RST else if f_syn flags then EVT_SEND_RST else EVT_DATA
        | _ \<Rightarrow> EVT_DROP))"

text \<open>The branch of \<open>tcp_parse_edge\<close> for an unknown identity: create a block and enter it.\<close>

definition new_con :: "server \<Rightarrow> ID \<Rightarrow> (ptr \<times> server) option" where
  "new_con s i = do {
     let (con, s) = tcb_init s i;
     if con = NULL then Some (NULL, s)
     else do {
       (ok, s) \<leftarrow> hash_insert s con;
       if ok then Some (con, s)
       else do {
         s \<leftarrow> free s con;
         Some (NULL, s)
       }
     }
   }"

text \<open>The second component is what \<open>*tcb\<close> holds afterwards; the caller initialised it to \<open>NULL\<close>.\<close>

definition tcp_parse_edge :: "server \<Rightarrow> Flags \<Rightarrow> ID \<Rightarrow> (Edge \<times> ptr \<times> server) option" where
  "tcp_parse_edge s flags i = do {
     con \<leftarrow> hash_find s i;
     (con, s) \<leftarrow> (if con = NULL then new_con s i else Some (con, s));
     if con = NULL then Some (EVT_DROP, NULL, s)
     else do {
       t \<leftarrow> deref s con;
       let edge = parse_edge_known flags i (con_state t);
       Some (edge, if edge \<noteq> EVT_DROP then con else NULL, s)
     }
   }"

text \<open>The second half of \<open>tcp_dispatch\<close>: state update, then the reply.\<close>

definition tcp_respond ::
  "server \<Rightarrow> ptr \<Rightarrow> Edge \<Rightarrow> buffer \<Rightarrow> int \<Rightarrow> int \<Rightarrow> ambient \<Rightarrow> (int \<times> buffer \<times> server) option" where
  "tcp_respond s tcb edge buf len offset a = do {
     (ok, s) \<leftarrow> tcb_state_update s buf offset tcb edge a;
     (case (if ok then edge else EVT_DROP) of
       EVT_SYN \<Rightarrow> do {
         (n, buf) \<leftarrow> tcp_syn_ack s tcb buf len offset;
         Some (n, buf, s)
       }
     | EVT_SEND_RST \<Rightarrow> tcp_rst s tcb buf len offset (amb_junk a)
     | _ \<Rightarrow> Some (0, buf, s))
   }"

definition tcp_dispatch ::
  "server \<Rightarrow> buffer \<Rightarrow> int \<Rightarrow> int \<Rightarrow> ambient \<Rightarrow> (int \<times> buffer \<times> server) option" where
  "tcp_dispatch s buf len offset a = do {
     (valid, buf) \<leftarrow> tcp_checksum buf len offset;
     c \<leftarrow> load16 buf (offset + TCP_checksum);
     if c \<noteq> valid then Some (0, buf, s)
     else do {
       sp \<leftarrow> load16 buf (offset + TCP_src_port);
       dp \<leftarrow> load16 buf (offset + TCP_dst_port);
       si \<leftarrow> load32 buf IP_src;
       di \<leftarrow> load32 buf IP_dst;
       fl \<leftarrow> load8 buf (offset + TCP_flags);
       let i = \<lparr>id_src_port = ntohs sp, id_dst_port = ntohs dp, id_src_ip = ntohl si, id_dst_ip = ntohl di\<rparr>;
       (edge, tcb, s) \<leftarrow> tcp_parse_edge s (flags_of fl) i;
       tcp_respond s tcb edge buf len offset a
     }
   }"

section \<open>The server state without leaks\<close>

text \<open>
  The live blocks are exactly those in the table. \<open>conn_view\<close> is the state the TCP layer
  works on, identities mapped to control blocks.
\<close>

definition srv_mem :: "server \<Rightarrow> bool" where
  "srv_mem s \<longleftrightarrow> tbl_inv s \<and> dom (heap s) = set (conn_ptrs s)"

definition conn_view :: "server \<Rightarrow> ID \<Rightarrow> TCB option" where
  "conn_view s i = (case conns s i of None \<Rightarrow> None | Some p \<Rightarrow> heap s p)"

lemma tbl_inv_cong:
  assumes "tbl_inv s" "mem_ok s'" "g_con_table s' = g_con_table s" "g_tbl_init s' = g_tbl_init s"
    and arr: "arrays s \<le> arrays s'" and id: "\<forall>p \<in> set (conn_ptrs s). block_id s' p = block_id s p"
  shows "tbl_inv s'" "conn_ptrs s' = conn_ptrs s" "conns s' = conns s"
proof -
  show ptrs: "conn_ptrs s' = conn_ptrs s" using assms by (simp add: conn_ptrs_def)
  have ok: "bucket_ok s' i v" if "bucket_ok s i v" "set (vec_elems v) \<subseteq> set (conn_ptrs s)" for i v
    using that id by (auto simp: bucket_ok_def block_id_def subset_iff split: option.splits) force+
  have "bucket_ok s' i (ht_buckets (g_con_table s) ! i)" if "g_tbl_init s" "i < 256" for i
    using bucketE [OF assms(1) that] ok by blast
  then show inv: "tbl_inv s'"
    using assms ptrs by (auto simp: tbl_inv_def block_id_def inj_on_def)
  show "conns s' = conns s"
  proof
    fix i
    have "has_id s' i p = has_id s i p" if "p \<in> set (conn_ptrs s)" for p
      using that id unfolding has_id_iff block_id_def by metis
    then show "conns s' i = conns s i"
      using ptrs conns_Some_iff [OF assms(1)] by (intro conns_eqI [OF inv]) auto
  qed
qed

lemma srv_mem_start: "srv_mem (server_start failing)"
  using tbl_inv_start [of failing] by (simp add: srv_mem_def) (simp add: server_start_def)

lemma srv_mem_live:
  assumes "srv_mem s" "conns s i = Some p"
  obtains t where "heap s p = Some t" "tcb_id t = i" "p \<noteq> NULL" "conn_view s i = Some t"
  using conns_live [OF _ assms(2)] assms by (auto simp: srv_mem_def conn_view_def)

lemma conn_view_None: "srv_mem s \<Longrightarrow> conn_view s i = None \<longleftrightarrow> conns s i = None"
  using srv_mem_live by (fastforce simp: conn_view_def split: option.splits)

text \<open>Writing through the pointer of a connection updates the view at its identity.\<close>

lemma assign_ok:
  assumes "srv_mem s" "conns s i = Some p" "tcb_id t = i"
  shows "\<exists>s'. assign s p t = Some s' \<and> srv_mem s' \<and> conns s' = conns s \<and> oom s' = oom s \<and>
    heap s' p = Some t \<and> conn_view s' = (conn_view s)(i \<mapsto> t)"
proof -
  from srv_mem_live [OF assms(1,2)] obtain u where u: "heap s p = Some u" "tcb_id u = i" "p \<noteq> 0" by blast
  have inv: "tbl_inv s" and dom: "dom (heap s) = set (conn_ptrs s)" using assms(1) by (auto simp: srv_mem_def)
  let ?s = "s\<lparr>heap := (heap s)(p \<mapsto> t)\<rparr>"
  have mem: "mem_ok ?s"
    using tbl_inv_mem_ok [OF inv] u by (auto simp: mem_ok_def)
  note cong = tbl_inv_cong [OF inv mem]
  have c: "tbl_inv ?s" "conn_ptrs ?s = conn_ptrs s" "conns ?s = conns s"
    using cong u assms(3) by (auto simp: block_id_def)
  have "conn_view ?s = (conn_view s)(i \<mapsto> t)"
  proof
    fix j
    show "conn_view ?s j = ((conn_view s)(i \<mapsto> t)) j"
    proof (cases "j = i")
      case False
      then have "conns s j \<noteq> Some p" using ht.table_inj [OF inv assms(2)] by auto
      with False c(3) show ?thesis by (auto simp: conn_view_def split: option.splits)
    qed (use c(3) assms(2) in \<open>simp add: conn_view_def\<close>)
  qed
  moreover have "srv_mem ?s" using c dom u by (auto simp: srv_mem_def)
  ultimately show ?thesis
    using c u by (simp add: assign_def deref_def)
qed

lemma delete_ok:
  assumes "srv_mem s" "conns s i = Some p"
  shows "\<exists>s'. hash_delete s p = Some s' \<and> srv_mem s' \<and> oom s' = oom s \<and> conn_view s' = (conn_view s)(i := None)"
proof -
  have inv: "tbl_inv s" and dom: "dom (heap s) = set (conn_ptrs s)" using assms(1) by (auto simp: srv_mem_def)
  from conns_live [OF inv assms(2)] have p: "p \<in> set (conn_ptrs s)" .
  from hash_delete_ok [OF inv p] obtain s' where s': "hash_delete s p = Some s'" "tbl_inv s'"
    "heap s' = (heap s)(p := None)" "oom s' = oom s" "add_mset p (mset (conn_ptrs s')) = mset (conn_ptrs s)"
    by blast
  have c: "conns s' = (conns s)(i := None)"
    using conns_delete [OF inv s'(2,3) assms(2) s'(5)] .
  have "distinct (conn_ptrs s)" using inv by (cases "g_tbl_init s") (auto simp: tbl_inv_def conn_ptrs_def)
  then have "set (conn_ptrs s') = set (conn_ptrs s) - {p}"
    using s'(5) by (metis (no_types) distinct_remove1_removeAll mset_remove1 add_mset_remove_trivial
        mset_eq_setD set_removeAll)
  then have "srv_mem s'" using s' dom by (auto simp: srv_mem_def)
  moreover have "conn_view s' j = ((conn_view s)(i := None)) j" for j
    using c s'(3) ht.table_inj [OF inv assms(2), of j] by (auto simp: conn_view_def split: option.splits)
  ultimately show ?thesis using s' by blast
qed

lemma fresh_tcb_id [simp]: "tcb_id (fresh_tcb i) = i"
  by (simp add: fresh_tcb_def)

text \<open>
  Creating a block and entering it: either a failed allocation left the view and the live
  blocks as they were, or the identity maps to a fresh block.
\<close>

lemma same_table:
  assumes "srv_mem s" "tbl_inv s'" "mset (conn_ptrs s') = mset (conn_ptrs s)" "heap s' = heap s"
  shows "srv_mem s' \<and> conn_view s' = conn_view s"
proof -
  have "has_id s' i q = has_id s i q" for i q using assms(4) by (simp add: has_id_def)
  then have "conns s' i = conns s i" for i
    using assms conns_Some_iff [of s] mset_eq_setD [OF assms(3)]
    by (intro conns_eqI) (auto simp: srv_mem_def)
  with assms mset_eq_setD [OF assms(3)] show ?thesis
    by (auto simp: srv_mem_def conn_view_def split: option.splits)
qed

text \<open>A block just allocated for a new connection, and the state after giving it back.\<close>

lemma fresh_block_ok:
  fixes i :: ID
  assumes "srv_mem s"
  defines "s1 \<equiv> s\<lparr>nalloc := nalloc s + 1, heap := (heap s)(nalloc s + 1 \<mapsto> fresh_tcb i)\<rparr>"
  shows "heap s (nalloc s + 1) = None" "tbl_inv s1" "conn_ptrs s1 = conn_ptrs s" "conns s1 = conns s"
proof -
  have inv: "tbl_inv s" and dom: "dom (heap s) = set (conn_ptrs s)" using assms(1) by (auto simp: srv_mem_def)
  show new: "heap s (nalloc s + 1) = None" using mem_ok_fresh [OF tbl_inv_mem_ok [OF inv]] by simp
  have "mem_ok s1"
    by (auto simp: s1_def mem_ok_def dest!: mem_okD [OF tbl_inv_mem_ok [OF inv]])
  moreover have "\<forall>q \<in> set (conn_ptrs s). block_id s1 q = block_id s q"
    using new dom by (auto simp: s1_def block_id_def)
  ultimately show "tbl_inv s1" "conn_ptrs s1 = conn_ptrs s" "conns s1 = conns s"
    using tbl_inv_cong [OF inv, of s1] by (auto simp: s1_def)
qed

lemma fresh_block_undone:
  assumes "srv_mem s" "tbl_inv s2" "nalloc s < nalloc s2" "heap s2 = (heap s)(nalloc s + 1 \<mapsto> t)"
    and "mset (conn_ptrs s2) = mset (conn_ptrs s)"
  shows "free s2 (nalloc s + 1) = Some (s2\<lparr>heap := heap s\<rparr>)" "tbl_inv (s2\<lparr>heap := heap s\<rparr>)"
    "conn_ptrs (s2\<lparr>heap := heap s\<rparr>) = conn_ptrs s2"
proof -
  let ?t = "s2\<lparr>heap := heap s\<rparr>"
  have inv: "tbl_inv s" and dom: "dom (heap s) = set (conn_ptrs s)" using assms(1) by (auto simp: srv_mem_def)
  have new: "heap s (nalloc s + 1) = None" using fresh_block_ok(1) [OF assms(1)] .
  then show "free s2 (nalloc s + 1) = Some ?t" using assms(4) by (simp add: free_def fun_upd_idem)
  have "mem_ok ?t" using mem_grows_ok [of s "s\<lparr>nalloc := nalloc s2\<rparr>"] tbl_inv_mem_ok [OF inv] assms(3)
    by (simp add: mem_grows_def mem_ok_def)
  moreover have "\<forall>q \<in> set (conn_ptrs s2). block_id ?t q = block_id s2 q"
    using new dom assms(4) mset_eq_setD [OF assms(5)] by (auto simp: block_id_def)
  ultimately show "tbl_inv ?t" "conn_ptrs ?t = conn_ptrs s2"
    using tbl_inv_cong [OF assms(2), of ?t] by auto
qed

lemma new_con_ok:
  assumes "srv_mem s" "room s" "conns s i = None"
  shows "\<exists>con s'. new_con s i = Some (con, s') \<and> srv_mem s' \<and> oom s' = oom s \<and>
    (if con = NULL then (\<exists>k. oom s k) \<and> conn_view s' = conn_view s
     else conns s' i = Some con \<and> heap s' con = Some (fresh_tcb i) \<and> conn_view s' = (conn_view s)(i \<mapsto> fresh_tcb i))"
proof (cases "oom s (nalloc s)")
  case True
  let ?s = "s\<lparr>nalloc := nalloc s + 1\<rparr>"
  have inv: "tbl_inv s" using assms(1) by (simp add: srv_mem_def)
  have "mem_ok ?s" using mem_grows_ok [of s ?s] tbl_inv_mem_ok [OF inv] by (simp add: mem_grows_def)
  from tbl_inv_cong [OF inv this] have "tbl_inv ?s" "conn_ptrs ?s = conn_ptrs s"
    by (simp_all add: block_id_def)
  with same_table [OF assms(1), of ?s] True show ?thesis
    by (auto simp: new_con_def tcb_init_def malloc_def)
next
  case False
  have inv: "tbl_inv s" and dom: "dom (heap s) = set (conn_ptrs s)" using assms(1) by (auto simp: srv_mem_def)
  let ?p = "nalloc s + 1"
  let ?s = "s\<lparr>nalloc := ?p, heap := (heap s)(?p \<mapsto> fresh_tcb i)\<rparr>"
  note new = fresh_block_ok(1) [OF assms(1)] and s1 = fresh_block_ok(2-4) [OF assms(1), of i]
  have "room ?s" "heap ?s ?p = Some (fresh_tcb i)" "conns ?s (tcb_id (fresh_tcb i)) = None"
    using assms s1 by (simp_all add: room_def)
  note ins = this
  from hash_insert_ok [OF s1(1) ins] obtain ok s2 where s2: "hash_insert ?s ?p = Some (ok, s2)"
    "mem_grows ?s s2" "tbl_inv s2" "\<not> ok \<longrightarrow> (\<exists>n. oom ?s n)"
    "mset (conn_ptrs s2) = (if ok then {#?p#} else {#}) + mset (conn_ptrs ?s)" by blast
  have h2: "heap s2 = (heap s)(?p \<mapsto> fresh_tcb i)" "oom s2 = oom s" using s2(2) by (auto simp: mem_grows_def)
  have init: "tcb_init s i = (?p, ?s)" using False by (simp add: tcb_init_def malloc_def)
  show ?thesis
  proof (cases ok)
    case True
    with s2(5) s1(2) have "set (conn_ptrs s2) = insert ?p (set (conn_ptrs s))"
      by (metis add_mset_add_single set_mset_add_mset_insert set_mset_mset union_commute)
    then have mem: "srv_mem s2" using s2(3) h2 dom by (auto simp: srv_mem_def)
    have c: "conns s2 = (conns s)(i \<mapsto> ?p)"
      using conns_insert [OF s1(1) s2(3,2) ins(2,3)] s2(5) True s1(3) by simp
    have "conn_view s2 j = ((conn_view s)(i \<mapsto> fresh_tcb i)) j" for j
    proof -
      have "conns s j \<noteq> Some ?p" using conns_live [OF inv] new by fastforce
      then show ?thesis using c h2 by (auto simp: conn_view_def split: option.splits)
    qed
    with mem c h2 init s2(1) True show ?thesis by (auto simp: new_con_def)
  next
    case fail: False
    let ?t = "s2\<lparr>heap := heap s\<rparr>"
    have ps: "mset (conn_ptrs s2) = mset (conn_ptrs s)" using s2(5) fail s1(2) by simp
    have "nalloc s < nalloc s2" using s2(2) by (simp add: mem_grows_def)
    note undo = fresh_block_undone [OF assms(1) s2(3) this h2(1) ps]
    then have "new_con s i = Some (NULL, ?t)" using init s2(1) fail by (simp add: new_con_def)
    with same_table [OF assms(1), of ?t] undo(2,3) ps h2 s2(4) fail show ?thesis by auto
  qed
qed

lemma tcp_parse_edge_ok:
  fixes i :: ID and fl :: Flags
  assumes "srv_mem s" "room s"
  defines "t \<equiv> case conn_view s i of None \<Rightarrow> fresh_tcb i | Some t \<Rightarrow> t"
  defines "e \<equiv> parse_edge_known fl i (con_state t)"
  shows "(\<exists>con s'. tcp_parse_edge s fl i = Some (e, if e \<noteq> EVT_DROP then con else NULL, s') \<and> srv_mem s' \<and>
      oom s' = oom s \<and> conns s' i = Some con \<and> heap s' con = Some t \<and> conn_view s' = (conn_view s)(i \<mapsto> t)) \<or>
    (\<exists>s'. tcp_parse_edge s fl i = Some (EVT_DROP, NULL, s') \<and> srv_mem s' \<and> oom s' = oom s \<and>
      (\<exists>k. oom s k) \<and> conn_view s i = None \<and> conn_view s' = conn_view s)"
proof (cases "conns s i")
  case (Some p)
  have inv: "tbl_inv s" using assms(1) by (simp add: srv_mem_def)
  from srv_mem_live [OF assms(1) Some] obtain u where u: "heap s p = Some u" "p \<noteq> 0" "conn_view s i = Some u"
    by blast
  then have "t = u" by (simp add: t_def)
  with u Some inv have "tcp_parse_edge s fl i = Some (e, if e \<noteq> EVT_DROP then p else NULL, s)"
    by (simp add: tcp_parse_edge_def hash_find_eq found_def deref_def e_def)
  moreover have "(conn_view s)(i \<mapsto> t) = conn_view s" using u \<open>t = u\<close> by (simp add: fun_upd_idem)
  ultimately show ?thesis using u \<open>t = u\<close> Some assms(1) by auto
next
  case None
  have inv: "tbl_inv s" using assms(1) by (simp add: srv_mem_def)
  have view: "conn_view s i = None" using None by (simp add: conn_view_def)
  then have t: "t = fresh_tcb i" by (simp add: t_def)
  from new_con_ok [OF assms(1,2) None] obtain con s' where n: "new_con s i = Some (con, s')" "srv_mem s'"
    "oom s' = oom s" and c: "if con = NULL then (\<exists>k. oom s k) \<and> conn_view s' = conn_view s
       else conns s' i = Some con \<and> heap s' con = Some (fresh_tcb i) \<and> conn_view s' = (conn_view s)(i \<mapsto> fresh_tcb i)"
    by blast
  show ?thesis
  proof (cases "con = NULL")
    case True
    with n None inv have "tcp_parse_edge s fl i = Some (EVT_DROP, NULL, s')"
      by (simp add: tcp_parse_edge_def hash_find_eq found_def)
    with True c n view show ?thesis by auto
  next
    case False
    with n None inv c t have "tcp_parse_edge s fl i = Some (e, if e \<noteq> EVT_DROP then con else NULL, s')"
      by (simp add: tcp_parse_edge_def hash_find_eq found_def deref_def e_def)
    with False c n t show ?thesis by auto
  qed
qed

section \<open>The specification\<close>

text \<open>
  What the listener does with one segment, on the map of connections: \<open>h\<close> is the received
  header, \<open>iss\<close> the initial sequence number it would pick.
\<close>

datatype Reply = No_Reply | Syn_Ack TCB | Send_Rst

definition syn_received :: "TCB \<Rightarrow> TCP \<Rightarrow> u32 \<Rightarrow> TCB" where
  "syn_received t h iss = t\<lparr>
     tcb_recv := (tcb_recv t)\<lparr>rcv_irs := ntohl (tcp_seq_num h), rcv_next := ntohl (tcp_seq_num h) + 1\<rparr>,
     tcb_send := \<lparr>snd_unac = iss, snd_next = iss + 1, snd_window = ucast (ntohs (tcp_window h)), snd_iss = iss\<rparr>,
     con_state := CON_SYN_RECEIVED\<rparr>"

definition established :: "TCB \<Rightarrow> TCB" where
  "established t = t\<lparr>con_state := CON_ESTABLISHED, tcb_send := (tcb_send t)\<lparr>snd_unac := snd_next (tcb_send t)\<rparr>\<rparr>"

definition in_window :: "TCB \<Rightarrow> TCP \<Rightarrow> bool" where
  "in_window t h \<longleftrightarrow> unat (ntohl (tcp_seq_num h) - rcv_next (tcb_recv t)) < unat (rcv_window (tcb_recv t))"

definition tcp_spec :: "(ID \<Rightarrow> TCB option) \<Rightarrow> ID \<Rightarrow> TCP \<Rightarrow> u32 \<Rightarrow> Reply \<times> (ID \<Rightarrow> TCB option)" where
  "tcp_spec m i h iss = (
     let t = (case m i of None \<Rightarrow> fresh_tcb i | Some t \<Rightarrow> t); fl = flags_of (tcp_flags h)
     in if id_dst_port i \<noteq> TCP_LISTEN_PORT then (Send_Rst, m(i := None))
        else if f_rst fl then (No_Reply, if in_window t h then m(i := None) else m(i \<mapsto> t))
        else case con_state t of
          CON_CLOSED \<Rightarrow>
            if f_syn fl \<and> \<not> f_ack fl
            then (Syn_Ack (syn_received t h iss), m(i \<mapsto> syn_received t h iss))
            else (Send_Rst, m(i := None))
        | CON_SYN_RECEIVED \<Rightarrow>
            if f_ack fl \<and> \<not> f_syn fl
            then (No_Reply, if ntohl (tcp_ack_num h) = snd_next (tcb_send t) then m(i \<mapsto> established t) else m)
            else (Send_Rst, m(i := None))
        | CON_ESTABLISHED \<Rightarrow> if f_syn fl then (Send_Rst, m(i := None)) else (No_Reply, m)
        | _ \<Rightarrow> (No_Reply, m))"

text \<open>
  The control blocks of a server that was started and fed packets: a connection is to the
  listening port, its state is one of the three that are reached, its sequence variables fit
  the state, and nothing is ever put in the receive buffer.
\<close>

definition tcb_wf :: "ID \<Rightarrow> TCB \<Rightarrow> bool" where
  "tcb_wf i t \<longleftrightarrow> tcb_id t = i \<and> id_dst_port i = TCP_LISTEN_PORT \<and>
     rcv_window (tcb_recv t) = TCP_WIN_DEF \<and>
     recv_buf t = replicate TCP_RCVBUF 0 \<and> recv_size t = 0 \<and> recv_consumed t = 0 \<and>
     (case con_state t of
        CON_CLOSED \<Rightarrow> t = fresh_tcb i
      | CON_SYN_RECEIVED \<Rightarrow> rcv_next (tcb_recv t) = rcv_irs (tcb_recv t) + 1 \<and>
          snd_next (tcb_send t) = snd_iss (tcb_send t) + 1 \<and> snd_unac (tcb_send t) = snd_iss (tcb_send t)
      | CON_ESTABLISHED \<Rightarrow> rcv_next (tcb_recv t) = rcv_irs (tcb_recv t) + 1 \<and>
          snd_next (tcb_send t) = snd_iss (tcb_send t) + 1 \<and> snd_unac (tcb_send t) = snd_next (tcb_send t)
      | _ \<Rightarrow> False)"

definition view_wf :: "(ID \<Rightarrow> TCB option) \<Rightarrow> bool" where
  "view_wf m \<longleftrightarrow> (\<forall>i t. m i = Some t \<longrightarrow> tcb_wf i t)"

definition srv_inv :: "server \<Rightarrow> bool" where
  "srv_inv s \<longleftrightarrow> srv_mem s \<and> view_wf (conn_view s)"

lemma tcb_wf_fresh: "id_dst_port i = TCP_LISTEN_PORT \<Longrightarrow> tcb_wf i (fresh_tcb i)"
  by (simp add: tcb_wf_def fresh_tcb_def)

lemma tcb_wf_syn_received: "tcb_wf i t \<Longrightarrow> tcb_wf i (syn_received t h iss)"
  by (simp add: tcb_wf_def syn_received_def)

lemma tcb_wf_established:
  "tcb_wf i t \<Longrightarrow> con_state t = CON_SYN_RECEIVED \<Longrightarrow> tcb_wf i (established t)"
  by (simp add: tcb_wf_def established_def)

lemma view_wf_upd: "view_wf m \<Longrightarrow> tcb_wf i t \<Longrightarrow> view_wf (m(i \<mapsto> t))"
  by (simp add: view_wf_def)

lemma view_wf_del: "view_wf m \<Longrightarrow> view_wf (m(i := None))"
  by (simp add: view_wf_def)

lemma view_wf_at:
  assumes "view_wf m" "id_dst_port i = TCP_LISTEN_PORT"
  shows "tcb_wf i (case m i of None \<Rightarrow> fresh_tcb i | Some t \<Rightarrow> t)"
  using assms tcb_wf_fresh by (auto simp: view_wf_def split: option.splits)

lemma tcp_spec_wf:
  assumes "view_wf m"
  shows "view_wf (snd (tcp_spec m i h iss))"
proof (cases "id_dst_port i = TCP_LISTEN_PORT")
  case True
  from view_wf_at [OF assms True] show ?thesis
    using assms by (auto simp: tcp_spec_def Let_def view_wf_upd view_wf_del tcb_wf_syn_received tcb_wf_established
        split: Con_State.splits)
qed (use assms in \<open>simp add: tcp_spec_def view_wf_del Let_def\<close>)

section \<open>The handler implements the specification\<close>

definition seg_id :: "buffer \<Rightarrow> int \<Rightarrow> ID" where
  "seg_id b off = \<lparr>id_src_port = ntohs (peek16 b (off + TCP_src_port)), id_dst_port = ntohs (peek16 b (off + TCP_dst_port)),
     id_src_ip = ntohl (peek32 b IP_src), id_dst_ip = ntohl (peek32 b IP_dst)\<rparr>"

text \<open>The bytes and the length that carry a reply.\<close>

definition carries :: "Reply \<Rightarrow> buffer \<Rightarrow> int \<Rightarrow> int \<Rightarrow> rst_junk \<Rightarrow> int \<Rightarrow> buffer \<Rightarrow> bool" where
  "carries r b len off junk n b' \<longleftrightarrow> (case r of
     No_Reply \<Rightarrow> n = 0 \<and> b' = b
   | Syn_Ack t \<Rightarrow> n = off + hlen_high (tcp_data_offset (tcp_header b off)) \<and> b' = syn_ack b len off t
   | Send_Rst \<Rightarrow> n = off + hlen_high (tcp_data_offset (tcp_header b off)) \<and>
       b' = rst_reply b off (rst_seq b off junk) (rst_ack b off junk) (rst_flags b off junk))"

lemmas tcp_field = tcp_header_def in_range_def mem_simps

lemma respond_syn:
  fixes a :: ambient
  assumes "segment_at b len off" "srv_mem s" "conns s i = Some p" "heap s p = Some t" "con_state t = CON_CLOSED"
  defines "t' \<equiv> syn_received t (tcp_header b off) (tcp_gen_iss a)"
  shows "\<exists>n b' s'. tcp_respond s p EVT_SYN b len off a = Some (n, b', s') \<and> srv_mem s' \<and> oom s' = oom s \<and>
    conn_view s' = (conn_view s)(i \<mapsto> t') \<and> carries (Syn_Ack t') b len off (amb_junk a) n b'"
proof -
  note seg = segment_atD [OF assms(1)]
  from srv_mem_live [OF assms(2,3)] assms(4) have t: "tcb_id t = i" "p \<noteq> 0" by auto
  have "tcb_id t' = i" using t by (simp add: t'_def syn_received_def)
  from assign_ok [OF assms(2,3) this] obtain s' where s': "assign s p t' = Some s'" "srv_mem s'" "oom s' = oom s"
    "heap s' p = Some t'" "conn_view s' = (conn_view s)(i \<mapsto> t')" by blast
  have "tcb_state_update s b off p EVT_SYN a = Some (True, s')"
    using seg t assms(4,5) s'(1)
    by (cases "tcb_send t") (simp add: tcb_state_update_def deref_def t'_def syn_received_def tcp_field Let_def)
  moreover have "tcp_syn_ack s' p b len off = Some (off + hlen_high (peek8 b (off + 12)), syn_ack b len off t')"
    using t s'(4) by (intro tcp_syn_ack_eq assms(1)) (simp add: deref_def)
  ultimately show ?thesis
    using s' by (simp add: tcp_respond_def carries_def tcp_header_def)
qed

lemma respond_ack:
  assumes "segment_at b len off" "srv_mem s" "conns s i = Some p" "heap s p = Some t"
  shows "\<exists>s'. tcp_respond s p EVT_ACK b len off a = Some (0, b, s') \<and> srv_mem s' \<and> oom s' = oom s \<and>
    conn_view s' = (if ntohl (tcp_ack_num (tcp_header b off)) = snd_next (tcb_send t)
      then (conn_view s)(i \<mapsto> established t) else conn_view s)"
proof -
  note seg = segment_atD [OF assms(1)]
  from srv_mem_live [OF assms(2,3)] assms(4) have t: "tcb_id t = i" "p \<noteq> 0" by auto
  then have "tcb_id (established t) = i" by (simp add: established_def)
  from assign_ok [OF assms(2,3) this] obtain s' where s': "assign s p (established t) = Some s'" "srv_mem s'"
    "oom s' = oom s" "conn_view s' = (conn_view s)(i \<mapsto> established t)" by blast
  show ?thesis
  proof (cases "ntohl (tcp_ack_num (tcp_header b off)) = snd_next (tcb_send t)")
    case True
    then have "tcb_state_update s b off p EVT_ACK a = Some (True, s')"
      using seg t assms(4) s'(1) by (simp add: tcb_state_update_def deref_def established_def tcp_field)
    with s' True show ?thesis by (simp add: tcp_respond_def)
  next
    case False
    then have "tcb_state_update s b off p EVT_ACK a = Some (False, s)"
      using seg t assms(4) by (simp add: tcb_state_update_def deref_def tcp_field)
    with False assms(2) show ?thesis by (simp add: tcp_respond_def)
  qed
qed

lemma respond_rst:
  assumes "segment_at b len off" "srv_mem s" "conns s i = Some p" "heap s p = Some t"
    and "rcv_window (tcb_recv t) = TCP_WIN_DEF"
  shows "\<exists>s'. tcp_respond s p EVT_RST b len off a = Some (0, b, s') \<and> srv_mem s' \<and> oom s' = oom s \<and>
    conn_view s' = (if in_window t (tcp_header b off) then (conn_view s)(i := None) else conn_view s)"
proof -
  note seg = segment_atD [OF assms(1)]
  from srv_mem_live [OF assms(2,3)] assms(4) have t: "p \<noteq> 0" by auto
  let ?q = "htonl (peek32 b (off + 4))" and ?r = "tcb_recv t"
  have win: "SEQ_GEQ ?q (rcv_next ?r) \<and> SEQ_LT ?q (rcv_next ?r + rcv_window ?r) \<longleftrightarrow> in_window t (tcp_header b off)"
    unfolding in_window_def by (subst seq_window) (simp_all add: assms(5) tcp_header_def)
  from delete_ok [OF assms(2,3)] obtain s' where s': "hash_delete s p = Some s'" "srv_mem s'"
    "oom s' = oom s" "conn_view s' = (conn_view s)(i := None)" by blast
  show ?thesis
  proof (cases "in_window t (tcp_header b off)")
    case True
    then have "tcb_state_update s b off p EVT_RST a = Some (True, s')"
      using seg t assms(4) s'(1) win by (simp add: tcb_state_update_def deref_def in_range_def mem_simps Let_def)
    with s' True show ?thesis by (simp add: tcp_respond_def)
  next
    case False
    then have "tcb_state_update s b off p EVT_RST a = Some (False, s)"
      using seg t assms(4) win by (auto simp: tcb_state_update_def deref_def in_range_def mem_simps Let_def)
    with False assms(2) show ?thesis by (simp add: tcp_respond_def)
  qed
qed

lemma respond_send_rst:
  assumes "segment_at b len off" "srv_mem s" "conns s i = Some p"
  shows "\<exists>n b' s'. tcp_respond s p EVT_SEND_RST b len off a = Some (n, b', s') \<and> srv_mem s' \<and> oom s' = oom s \<and>
    conn_view s' = (conn_view s)(i := None) \<and> carries Send_Rst b len off (amb_junk a) n b'"
proof -
  from delete_ok [OF assms(2,3)] obtain s' where s': "hash_delete s p = Some s'" "srv_mem s'"
    "oom s' = oom s" "conn_view s' = (conn_view s)(i := None)" by blast
  with tcp_rst_eq [OF assms(1) s'(1), of "amb_junk a"] show ?thesis
    by (simp add: tcp_respond_def tcb_state_update_def carries_def tcp_header_def)
qed

lemma respond_quiet:
  "e = EVT_DATA \<or> e = EVT_DROP \<Longrightarrow> tcp_respond s p e b len off a = Some (0, b, s)"
  by (auto simp: tcp_respond_def tcb_state_update_def)

text \<open>The specification for the listening port, on the block the connection has or would start with.\<close>

lemma tcp_spec_listening:
  fixes m :: "ID \<Rightarrow> TCB option"
  assumes "id_dst_port i = TCP_LISTEN_PORT" "t = (case m i of None \<Rightarrow> fresh_tcb i | Some t \<Rightarrow> t)"
  shows "tcp_spec m i h iss = (let fl = flags_of (tcp_flags h) in
     if f_rst fl then (No_Reply, if in_window t h then m(i := None) else m(i \<mapsto> t))
     else case con_state t of
       CON_CLOSED \<Rightarrow> if f_syn fl \<and> \<not> f_ack fl then (Syn_Ack (syn_received t h iss), m(i \<mapsto> syn_received t h iss))
         else (Send_Rst, m(i := None))
     | CON_SYN_RECEIVED \<Rightarrow> if f_ack fl \<and> \<not> f_syn fl
         then (No_Reply, if ntohl (tcp_ack_num h) = snd_next (tcb_send t) then m(i \<mapsto> established t) else m)
         else (Send_Rst, m(i := None))
     | CON_ESTABLISHED \<Rightarrow> if f_syn fl then (Send_Rst, m(i := None)) else (No_Reply, m)
     | _ \<Rightarrow> (No_Reply, m))"
  using assms(1) by (simp add: tcp_spec_def Let_def flip: assms(2))

lemma tcp_respond_ok:
  fixes m :: "ID \<Rightarrow> TCB option"
  assumes "segment_at b len off" "srv_mem s" "conns s i = Some p" "heap s p = Some t"
    and view: "conn_view s = m(i \<mapsto> t)" "t = (case m i of None \<Rightarrow> fresh_tcb i | Some t \<Rightarrow> t)"
    and wf: "view_wf m"
  defines "h \<equiv> tcp_header b off"
  defines "e \<equiv> parse_edge_known (flags_of (tcp_flags h)) i (con_state t)"
  shows "\<exists>n b' s'. tcp_respond s (if e \<noteq> EVT_DROP then p else NULL) e b len off a = Some (n, b', s') \<and>
    srv_mem s' \<and> oom s' = oom s \<and> conn_view s' = snd (tcp_spec m i h (tcp_gen_iss a)) \<and>
    carries (fst (tcp_spec m i h (tcp_gen_iss a))) b len off (amb_junk a) n b'"
proof (cases "id_dst_port i = TCP_LISTEN_PORT")
  case False
  then have "e = EVT_SEND_RST" "tcp_spec m i h (tcp_gen_iss a) = (Send_Rst, m(i := None))"
    by (simp_all add: e_def parse_edge_known_def tcp_spec_def Let_def)
  with respond_send_rst [OF assms(1-3), of a] view show ?thesis by simp
next
  case True
  note port = True
  from view_wf_at [OF wf True] view(2) have t: "tcb_wf i t" by simp
  then have win: "rcv_window (tcb_recv t) = TCP_WIN_DEF" by (simp add: tcb_wf_def)
  have known: "m(i \<mapsto> t) = m" if "con_state t \<noteq> CON_CLOSED"
    using that view(2) by (auto simp: fresh_tcb_def split: option.splits)
  let ?fl = "flags_of (tcp_flags h)"
  note spec = tcp_spec_listening [where m = m and i = i and t = t and h = h, OF port view(2), unfolded Let_def]
  note resp = respond_send_rst [OF assms(1-3), of a] respond_rst [OF assms(1-4) win, of a]
    respond_ack [OF assms(1-4), of a] respond_syn [OF assms(1-4), of a]
  show ?thesis
  proof (cases "f_rst ?fl")
    case True
    with port have "e = EVT_RST" by (simp add: e_def parse_edge_known_def)
    with True resp(2) view(1) spec show ?thesis by (auto simp: carries_def h_def)
  next
    case False
    show ?thesis
    proof (cases "con_state t")
      case CON_CLOSED
      with port False have "e = (if f_syn ?fl \<and> \<not> f_ack ?fl then EVT_SYN else EVT_SEND_RST)"
        by (simp add: e_def parse_edge_known_def)
      with False CON_CLOSED resp(1,4) view(1) spec show ?thesis by (simp add: h_def)
    next
      case CON_SYN_RECEIVED
      with port False have "e = (if f_ack ?fl \<and> \<not> f_syn ?fl then EVT_ACK else EVT_SEND_RST)"
        by (simp add: e_def parse_edge_known_def)
      with False CON_SYN_RECEIVED resp(1,3) view(1) spec known show ?thesis by (auto simp: h_def carries_def)
    next
      case CON_ESTABLISHED
      with port False have "e = (if f_syn ?fl then EVT_SEND_RST else EVT_DATA)"
        by (simp add: e_def parse_edge_known_def)
      with False CON_ESTABLISHED resp(1) view(1) spec known assms(2) show ?thesis
        by (auto simp: h_def carries_def respond_quiet)
    qed (use t in \<open>auto simp: tcb_wf_def\<close>)
  qed
qed

text \<open>The number of connections is the number of entries of the view.\<close>

lemma conn_ptrs_view:
  assumes "srv_mem s"
  shows "length (conn_ptrs s) = card (dom (conn_view s))" "finite (dom (conn_view s))"
proof -
  have inv: "tbl_inv s" using assms by (simp add: srv_mem_def)
  let ?f = "\<lambda>p. tcb_id (the (heap s p))"
  have dist: "distinct (conn_ptrs s)" and inj: "inj_on (\<lambda>p. map_option tcb_id (heap s p)) (set (conn_ptrs s))"
    using inv by (cases "g_tbl_init s"; auto simp: tbl_inv_def conn_ptrs_def)+
  have live: "heap s p \<noteq> None" if "p \<in> set (conn_ptrs s)" for p
    using that assms by (auto simp: srv_mem_def)
  have inj_f: "inj_on ?f (set (conn_ptrs s))"
  proof (rule inj_onI)
    fix x y
    assume x: "x \<in> set (conn_ptrs s)" and y: "y \<in> set (conn_ptrs s)" and eq: "?f x = ?f y"
    then have "map_option tcb_id (heap s x) = map_option tcb_id (heap s y)"
      using live [OF x] live [OF y] by auto
    from inj_onD [OF inj this x y] show "x = y" .
  qed
  have dom: "dom (conn_view s) = ?f ` set (conn_ptrs s)"
  proof (intro set_eqI iffI)
    fix i
    assume "i \<in> dom (conn_view s)"
    then obtain p where p: "conns s i = Some p" by (auto simp: conn_view_def split: option.splits)
    obtain t where "heap s p = Some t" "tcb_id t = i" "p \<in> set (conn_ptrs s)"
      by (rule conns_live [OF inv p])
    then show "i \<in> ?f ` set (conn_ptrs s)" by (intro image_eqI [of _ _ p]) simp_all
  next
    fix i
    assume "i \<in> ?f ` set (conn_ptrs s)"
    then obtain p where p: "p \<in> set (conn_ptrs s)" "i = ?f p" by auto
    then have "conns s i = Some p"
      using live [OF p(1)] by (auto simp: conns_Some_iff [OF inv] has_id_def)
    then show "i \<in> dom (conn_view s)" using live [OF p(1)] by (auto simp: conn_view_def)
  qed
  show "length (conn_ptrs s) = card (dom (conn_view s))" "finite (dom (conn_view s))"
    unfolding dom using card_image [OF inj_f] distinct_card [OF dist] by simp_all
qed

lemma tcp_spec_other: "j \<noteq> i \<Longrightarrow> snd (tcp_spec m i h iss) j = m j"
  by (simp add: tcp_spec_def Let_def split: Con_State.split)

lemma tcp_spec_dom: "dom (snd (tcp_spec m i h iss)) \<subseteq> insert i (dom m)"
  by (rule subsetI) (metis domIff insert_iff tcp_spec_other)

section \<open>Properties\<close>

lemma srv_inv_start: "srv_inv (server_start failing)" "conn_view (server_start failing) = Map.empty"
  using srv_mem_start [of failing] tbl_inv_start [of failing]
  by (auto simp: srv_inv_def view_wf_def conn_view_def conns_def fun_eq_iff)

lemma tcp_dispatch_run:
  assumes "segment_at buf len offset"
  shows "tcp_dispatch s buf len offset a =
    (if peek16 buf (offset + 16) \<noteq> tcp_cks buf len offset then Some (0, buf, s)
     else do {
       (edge, tcb, s) \<leftarrow> tcp_parse_edge s (flags_of (tcp_flags (tcp_header buf offset))) (seg_id buf offset);
       tcp_respond s tcb edge buf len offset a
     })"
  using segment_atD [OF assms]
  by (simp add: tcp_dispatch_def op_simps in_range_def mem_simps seg_id_def tcp_header_def)

lemma tcp_dispatch_ok:
  fixes a :: ambient
  assumes "srv_inv s" "room s" "segment_at buf len offset"
    and "peek16 buf (offset + 16) = tcp_cks buf len offset"
  defines "spec \<equiv> tcp_spec (conn_view s) (seg_id buf offset) (tcp_header buf offset) (tcp_gen_iss a)"
  shows "\<exists>n buf' s'. tcp_dispatch s buf len offset a = Some (n, buf', s') \<and> srv_inv s' \<and> oom s' = oom s \<and>
    (conn_view s' = snd spec \<and> carries (fst spec) buf len offset (amb_junk a) n buf' \<or>
     (\<exists>k. oom s k) \<and> conn_view s (seg_id buf offset) = None \<and> conn_view s' = conn_view s \<and> n = 0 \<and> buf' = buf)"
proof -
  have mem: "srv_mem s" and wf: "view_wf (conn_view s)" using assms(1) by (auto simp: srv_inv_def)
  let ?i = "seg_id buf offset" and ?fl = "flags_of (tcp_flags (tcp_header buf offset))"
  let ?t = "case conn_view s ?i of None \<Rightarrow> fresh_tcb ?i | Some t \<Rightarrow> t"
  let ?e = "parse_edge_known ?fl ?i (con_state ?t)"
  from tcp_parse_edge_ok [OF mem assms(2), of ?fl ?i] show ?thesis
  proof (elim disjE exE conjE)
    fix con s1
    assume s1: "tcp_parse_edge s ?fl ?i = Some (?e, if ?e \<noteq> EVT_DROP then con else NULL, s1)" "srv_mem s1"
      "oom s1 = oom s" "conns s1 ?i = Some con" "heap s1 con = Some ?t" "conn_view s1 = (conn_view s)(?i \<mapsto> ?t)"
    from tcp_respond_ok [OF assms(3) s1(2,4,5,6) refl wf, of a] obtain n b' s' where
      r: "tcp_respond s1 (if ?e \<noteq> EVT_DROP then con else NULL) ?e buf len offset a = Some (n, b', s')"
        "srv_mem s'" "oom s' = oom s1" "conn_view s' = snd spec"
        "carries (fst spec) buf len offset (amb_junk a) n b'"
      unfolding spec_def by blast
    have "srv_inv s'" using r(2,4) tcp_spec_wf [OF wf] by (simp add: srv_inv_def spec_def)
    with r s1(1,3) assms(4) show ?thesis
      by (simp add: tcp_dispatch_run [OF assms(3)])
  next
    fix s1 k
    assume s1: "tcp_parse_edge s ?fl ?i = Some (EVT_DROP, NULL, s1)" "srv_mem s1" "oom s1 = oom s"
      "oom s k" "conn_view s ?i = None" "conn_view s1 = conn_view s"
    then have "srv_inv s1" using wf by (simp add: srv_inv_def)
    with s1 assms(4) show ?thesis
      by (auto simp: tcp_dispatch_run [OF assms(3)] respond_quiet)
  qed
qed

text \<open>A segment whose checksum the handler accepts.\<close>

definition tcp_valid :: "buffer \<Rightarrow> int \<Rightarrow> int \<Rightarrow> bool" where
  "tcp_valid buf len offset \<longleftrightarrow> segment_at buf len offset \<and>
     tcp_checksum buf len offset = Some (tcp_cksum (tcp_header buf offset), buf)"

lemma tcp_valid_iff:
  "tcp_valid buf len offset \<longleftrightarrow> segment_at buf len offset \<and> peek16 buf (offset + 16) = tcp_cks buf len offset"
  using segment_atD [of buf len offset] by (auto simp: tcp_valid_def tcp_checksum_eq tcp_header_def)

text \<open>
  C3: refinement. From a state without leaks in which every block is well formed, a segment that
  verifies is handled without any memory fault exactly as the specification \<open>tcp_spec\<close> says: the
  connection map becomes the specified one and the buffer carries the specified reply, unless the
  segment is for an unknown connection and an allocation failed, in which case it is dropped and
  nothing changes. The resulting state again has no leak and only well-formed blocks.
\<close>

theorem tcp_dispatch_refines:
  assumes "srv_inv s" "room s" "tcp_valid buf len offset"
  shows "\<exists>n buf' s'. tcp_dispatch s buf len offset a = Some (n, buf', s') \<and> srv_inv s' \<and>
    (let spec = tcp_spec (conn_view s) (seg_id buf offset) (tcp_header buf offset) (tcp_gen_iss a)
     in conn_view s' = snd spec \<and> carries (fst spec) buf len offset (amb_junk a) n buf' \<or>
        (\<exists>k. oom s k) \<and> conn_view s (seg_id buf offset) = None \<and>
        conn_view s' = conn_view s \<and> n = 0 \<and> buf' = buf)"
  using tcp_dispatch_ok [OF assms(1,2), of buf len offset a] assms(3)
  unfolding Let_def tcp_valid_iff by blast

definition quiet_ambient :: ambient where
  "quiet_ambient = \<lparr>tv_sec = 0, tv_usec = 5000, rand_value = 0,
     amb_junk = \<lparr>junk_seq_no = 0, junk_ack_no = 0, junk_pl_flags = 0\<rparr>\<rparr>"

abbreviation idle :: server where "idle \<equiv> server_start (\<lambda>n. False)"

lemma idle_ok: "srv_inv idle" "room idle" "conn_view idle = Map.empty" "\<not> oom idle k"
  using srv_inv_start [of "\<lambda>n. False"] tbl_inv_start [of "\<lambda>n. False"]
  by (simp_all add: room_def) (simp add: server_start_def)

lemma syn_packet_ok:
  "tcp_valid syn_packet 40 20" "seg_id syn_packet 20 = sample_id\<lparr>id_dst_port := 8080\<rparr>"
  "f_syn (flags_of (tcp_flags (tcp_header syn_packet 20)))"
  "\<not> f_ack (flags_of (tcp_flags (tcp_header syn_packet 20)))"
  "\<not> f_rst (flags_of (tcp_flags (tcp_header syn_packet 20)))"
  "hlen_high (tcp_data_offset (tcp_header syn_packet 20)) = 20"
  "tcp_seq_num (tcp_header syn_packet 20) = htonl 1000"
proof -
  have "tcp_checksum syn_packet 40 20 = Some (tcp_cksum (tcp_header syn_packet 20), syn_packet)" by code_simp
  then show "tcp_valid syn_packet 40 20" by (simp add: tcp_valid_def packets_at)
qed code_simp+

theorem tcp_dispatch_refines_witness:
  "\<exists>buf' s' t. tcp_dispatch idle syn_packet 40 20 quiet_ambient = Some (40, buf', s') \<and> srv_inv s' \<and>
    conn_view s' = [sample_id\<lparr>id_dst_port := 8080\<rparr> \<mapsto> t] \<and> buf' = syn_ack syn_packet 40 20 t"
proof -
  have "tcp_spec (conn_view idle) (seg_id syn_packet 20) (tcp_header syn_packet 20) iss =
      (let t = syn_received (fresh_tcb (sample_id\<lparr>id_dst_port := 8080\<rparr>)) (tcp_header syn_packet 20) iss
       in (Syn_Ack t, [sample_id\<lparr>id_dst_port := 8080\<rparr> \<mapsto> t]))" for iss
    using syn_packet_ok idle_ok by (simp add: tcp_spec_def Let_def fresh_tcb_def)
  then show ?thesis
    using tcp_dispatch_refines [OF idle_ok(1,2) syn_packet_ok(1), of quiet_ambient] idle_ok(4) syn_packet_ok(6)
    by (auto simp: Let_def carries_def)
qed

text \<open>
  C22: a segment that does not verify over the pseudo header and its bytes is dropped: no reply,
  the buffer restored to what was received, and no connection created, changed or removed.
\<close>

theorem tcp_dispatch_bad_checksum:
  assumes "segment_at buf len offset" "\<not> tcp_valid buf len offset"
  shows "tcp_dispatch s buf len offset a = Some (0, buf, s)"
  using assms by (simp add: tcp_dispatch_run tcp_valid_iff)

theorem tcp_dispatch_bad_checksum_witness:
  "tcp_dispatch idle (poke8 syn_packet 25 7) 40 20 quiet_ambient = Some (0, poke8 syn_packet 25 7, idle)"
proof (rule tcp_dispatch_bad_checksum)
  show "segment_at (poke8 syn_packet 25 7) 40 20"
    by (simp add: segment_at_def syn_packet_def peek8_def poke8_def hlen_low_def)
  have "tcp_checksum (poke8 syn_packet 25 7) 40 20 \<noteq>
      Some (tcp_cksum (tcp_header (poke8 syn_packet 25 7) 20), poke8 syn_packet 25 7)" by code_simp
  then show "\<not> tcp_valid (poke8 syn_packet 25 7) 40 20" by (simp add: tcp_valid_def)
qed

lemma syn_ack_header:
  assumes "segment_at b len off"
  shows "tcp_flags (tcp_header (syn_ack b len off t) off) = (SYN OR ACK)"
    "tcp_seq_num (tcp_header (syn_ack b len off t) off) = htonl (snd_iss (tcb_send t))"
    "tcp_ack_num (tcp_header (syn_ack b len off t) off) = htonl (rcv_next (tcb_recv t))"
    "tcp_src_port (tcp_header (syn_ack b len off t) off) = tcp_dst_port (tcp_header b off)"
    "tcp_dst_port (tcp_header (syn_ack b len off t) off) = tcp_src_port (tcp_header b off)"
    "tcp_data_offset (tcp_header (syn_ack b len off t) off) = set_hlen_high (hlen_high (peek8 b (off + TCP_data_offset)))"
  using segment_atD [OF assms]
  by (simp_all add: syn_ack_def Let_def tcp_header_cksum reply_ip_def tcp_header_reply_fields
      tcp_header_ports_swapped mem_simps)

text \<open>
  C5: three-way handshake. On a server with memory left, a SYN to the listening port from an
  unknown peer is answered with a SYN-ACK that carries the chosen ISS and acknowledges the peer's
  sequence number plus one, and the peer's acknowledgment of ISS plus one then makes the
  connection ESTABLISHED, with the next expected and the next sent numbers set and everything
  sent acknowledged; no other connection is affected.
\<close>

theorem three_way_handshake:
  assumes "srv_inv s" "length (conn_ptrs s) < 2147483647" "\<forall>k. \<not> oom s k"
    and syn: "tcp_valid b1 l1 o1" "flags_of (tcp_flags (tcp_header b1 o1)) = fl1"
      "f_syn fl1" "\<not> f_ack fl1" "\<not> f_rst fl1"
    and i: "seg_id b1 o1 = i" "id_dst_port i = TCP_LISTEN_PORT" "conn_view s i = None"
    and ack: "tcp_valid b2 l2 o2" "seg_id b2 o2 = i" "flags_of (tcp_flags (tcp_header b2 o2)) = fl2"
      "f_ack fl2" "\<not> f_syn fl2" "\<not> f_rst fl2" "ntohl (tcp_ack_num (tcp_header b2 o2)) = tcp_gen_iss a1 + 1"
  shows "\<exists>n b1' s1 s2 t. tcp_dispatch s b1 l1 o1 a1 = Some (n, b1', s1) \<and>
    tcp_flags (tcp_header b1' o1) = (SYN OR ACK) \<and>
    ntohl (tcp_seq_num (tcp_header b1' o1)) = tcp_gen_iss a1 \<and>
    ntohl (tcp_ack_num (tcp_header b1' o1)) = ntohl (tcp_seq_num (tcp_header b1 o1)) + 1 \<and>
    tcp_dispatch s1 b2 l2 o2 a2 = Some (0, b2, s2) \<and> srv_inv s2 \<and>
    conn_view s2 i = Some t \<and> con_state t = CON_ESTABLISHED \<and>
    rcv_next (tcb_recv t) = ntohl (tcp_seq_num (tcp_header b1 o1)) + 1 \<and>
    snd_next (tcb_send t) = tcp_gen_iss a1 + 1 \<and> snd_unac (tcb_send t) = snd_next (tcb_send t) \<and>
    (\<forall>j. j \<noteq> i \<longrightarrow> conn_view s2 j = conn_view s j)"
proof -
  have room: "room s" using assms(2) by (simp add: room_def)
  let ?h1 = "tcp_header b1 o1"
  let ?t = "syn_received (fresh_tcb i) ?h1 (tcp_gen_iss a1)"
  have seg: "segment_at b1 l1 o1" using syn(1) by (simp add: tcp_valid_def)
  have "tcp_spec (conn_view s) i ?h1 (tcp_gen_iss a1) = (Syn_Ack ?t, (conn_view s)(i \<mapsto> ?t))"
    using syn(2-5) i by (simp add: tcp_spec_def Let_def fresh_tcb_def)
  with tcp_dispatch_ok [OF assms(1) room seg, of a1] syn(1) i(1) assms(3) obtain n s1
    where s1: "tcp_dispatch s b1 l1 o1 a1 = Some (n, syn_ack b1 l1 o1 ?t, s1)" "srv_inv s1" "oom s1 = oom s"
      "conn_view s1 = (conn_view s)(i \<mapsto> ?t)"
    by (auto simp: tcp_valid_iff carries_def)
  have fields: "tcp_flags (tcp_header (syn_ack b1 l1 o1 ?t) o1) = (SYN OR ACK)"
    "ntohl (tcp_seq_num (tcp_header (syn_ack b1 l1 o1 ?t) o1)) = tcp_gen_iss a1"
    "ntohl (tcp_ack_num (tcp_header (syn_ack b1 l1 o1 ?t) o1)) = ntohl (tcp_seq_num ?h1) + 1"
    using syn_ack_header [OF seg, of ?t] by (simp_all add: syn_received_def)
  have "card (dom (conn_view s1)) \<le> card (dom (conn_view s)) + 1"
    using s1(4) conn_ptrs_view(2) [of s] assms(1) by (simp add: srv_inv_def card_insert_if)
  then have "room s1"
    using conn_ptrs_view(1) [of s] conn_ptrs_view(1) [of s1] assms(1,2) s1(2) by (simp add: room_def srv_inv_def)
  moreover have "tcp_spec (conn_view s1) i (tcp_header b2 o2) iss = (No_Reply, (conn_view s)(i \<mapsto> established ?t))" for iss
    using ack(3-7) i s1(4) by (simp add: tcp_spec_def Let_def syn_received_def)
  ultimately obtain s2 where s2: "tcp_dispatch s1 b2 l2 o2 a2 = Some (0, b2, s2)" "srv_inv s2"
      "conn_view s2 = (conn_view s)(i \<mapsto> established ?t)"
    using tcp_dispatch_ok [OF s1(2), of b2 l2 o2 a2] ack(1,2) assms(3) s1(3) by (auto simp: tcp_valid_iff carries_def)
  moreover have "con_state (established ?t) = CON_ESTABLISHED"
    "rcv_next (tcb_recv (established ?t)) = ntohl (tcp_seq_num ?h1) + 1"
    "snd_next (tcb_send (established ?t)) = tcp_gen_iss a1 + 1"
    "snd_unac (tcb_send (established ?t)) = snd_next (tcb_send (established ?t))"
    by (simp_all add: established_def syn_received_def)
  ultimately show ?thesis
    using s1(1) fields by auto
qed

definition handshake_ack_packet :: buffer where
  "handshake_ack_packet = [0x45, 0, 0, 0x28, 0, 1, 0, 0, 0x40, 6, 0x66, 0xcd, 0xa, 0, 0, 1, 0xa, 0, 0, 2, 0xc7, 0x38, 0x1f, 0x90, 0, 0, 3, 0xe9, 0, 0, 0x13, 0x89, 0x50, 0x10, 0xfa, 0xf0, 0xa2, 0xa6, 0, 0] @ replicate 1460 0"

definition rst_packet :: buffer where
  "rst_packet = [0x45, 0, 0, 0x28, 0, 1, 0, 0, 0x40, 6, 0x66, 0xcd, 0xa, 0, 0, 1, 0xa, 0, 0, 2, 0xc7, 0x38, 0x1f, 0x90, 0, 0, 5, 0xdc, 0, 0, 0, 0, 0x50, 4, 0, 0, 0xaf, 0x39, 0, 0] @ replicate 1460 0"

lemma handshake_ack_ok:
  "tcp_valid handshake_ack_packet 40 20" "seg_id handshake_ack_packet 20 = sample_id\<lparr>id_dst_port := 8080\<rparr>"
  "f_ack (flags_of (tcp_flags (tcp_header handshake_ack_packet 20)))"
  "\<not> f_syn (flags_of (tcp_flags (tcp_header handshake_ack_packet 20)))"
  "\<not> f_rst (flags_of (tcp_flags (tcp_header handshake_ack_packet 20)))"
  "tcp_ack_num (tcp_header handshake_ack_packet 20) = htonl 5001"
proof -
  have "tcp_checksum handshake_ack_packet 40 20 = Some (tcp_cksum (tcp_header handshake_ack_packet 20), handshake_ack_packet)"
    by code_simp
  moreover have "segment_at handshake_ack_packet 40 20"
    by (simp add: segment_at_def handshake_ack_packet_def peek8_def hlen_low_def)
  ultimately show "tcp_valid handshake_ack_packet 40 20" by (simp add: tcp_valid_def)
qed code_simp+

theorem three_way_handshake_witness:
  "\<exists>n b1' s1 s2 t. tcp_dispatch idle syn_packet 40 20 quiet_ambient = Some (n, b1', s1) \<and>
    tcp_dispatch s1 handshake_ack_packet 40 20 quiet_ambient = Some (0, handshake_ack_packet, s2) \<and>
    conn_view s2 (sample_id\<lparr>id_dst_port := 8080\<rparr>) = Some t \<and> con_state t = CON_ESTABLISHED"
proof -
  have "tcp_gen_iss quiet_ambient = 5000" by (simp add: tcp_gen_iss_def quiet_ambient_def)
  moreover have "length (conn_ptrs idle) < 2147483647" using tbl_inv_start [of "\<lambda>n. False"] by simp
  ultimately show ?thesis
    using three_way_handshake [of idle syn_packet 40 20 _ "sample_id\<lparr>id_dst_port := 8080\<rparr>"
        handshake_ack_packet 40 20 _ quiet_ambient quiet_ambient] idle_ok syn_packet_ok handshake_ack_ok
    by fastforce
qed

text \<open>
  C21: a reset is honoured exactly when its sequence number lies in the receive window, taken modulo
  \<open>2 ^ 32\<close>: then the connection is removed and its block freed, otherwise everything stays as it
  is. No reply is sent either way.
\<close>

theorem tcp_reset_in_window:
  assumes "srv_inv s" "room s" "tcp_valid buf len offset" "f_rst (flags_of (tcp_flags (tcp_header buf offset)))"
    and "seg_id buf offset = i" "conn_view s i = Some t"
  shows "\<exists>s'. tcp_dispatch s buf len offset a = Some (0, buf, s') \<and> srv_inv s' \<and>
    conn_view s' = (if unat (ntohl (tcp_seq_num (tcp_header buf offset)) - rcv_next (tcb_recv t)) < 8192
      then (conn_view s)(i := None) else conn_view s)"
proof -
  have wf: "tcb_wf i t" using assms(1,6) by (simp add: srv_inv_def view_wf_def)
  then have "tcp_spec (conn_view s) i (tcp_header buf offset) iss = (No_Reply,
      if unat (ntohl (tcp_seq_num (tcp_header buf offset)) - rcv_next (tcb_recv t)) < 8192
      then (conn_view s)(i := None) else conn_view s)" for iss
    using assms(4,6) by (simp add: tcp_spec_def Let_def in_window_def tcb_wf_def fun_upd_idem)
  then show ?thesis
    using tcp_dispatch_ok [OF assms(1,2), of buf len offset a] assms(3,5,6)
    by (auto simp: tcp_valid_iff carries_def)
qed

theorem tcp_reset_in_window_witness:
  "\<exists>b1 s1 s2. tcp_dispatch idle syn_packet 40 20 quiet_ambient = Some (40, b1, s1) \<and>
     tcp_dispatch s1 rst_packet 40 20 quiet_ambient = Some (0, rst_packet, s2) \<and> conn_view s2 = Map.empty"
proof -
  let ?i = "sample_id\<lparr>id_dst_port := 8080\<rparr>"
  let ?t = "syn_received (fresh_tcb ?i) (tcp_header syn_packet 20) (tcp_gen_iss quiet_ambient)"
  have "tcp_spec (conn_view idle) ?i (tcp_header syn_packet 20) (tcp_gen_iss quiet_ambient) = (Syn_Ack ?t, [?i \<mapsto> ?t])"
    using syn_packet_ok idle_ok by (simp add: tcp_spec_def Let_def fresh_tcb_def)
  then obtain b1 s1 where s1: "tcp_dispatch idle syn_packet 40 20 quiet_ambient = Some (40, b1, s1)" "srv_inv s1"
    "conn_view s1 = [?i \<mapsto> ?t]"
    using tcp_dispatch_ok [OF idle_ok(1,2), of syn_packet 40 20 quiet_ambient] syn_packet_ok(1,2,6) idle_ok(4)
    by (auto simp: carries_def tcp_valid_iff)
  then have room: "room s1" using conn_ptrs_view(1) [of s1] by (simp add: room_def srv_inv_def)
  have "tcp_checksum rst_packet 40 20 = Some (tcp_cksum (tcp_header rst_packet 20), rst_packet)"
    "f_rst (flags_of (tcp_flags (tcp_header rst_packet 20)))" "seg_id rst_packet 20 = ?i"
    "ntohl (tcp_seq_num (tcp_header rst_packet 20)) = 1500" by code_simp+
  moreover have "segment_at rst_packet 40 20"
    by (simp add: segment_at_def rst_packet_def peek8_def hlen_low_def)
  moreover have "rcv_next (tcb_recv ?t) = 1001" using syn_packet_ok(7) by (simp add: syn_received_def)
  ultimately show ?thesis
    using tcp_reset_in_window [OF s1(2) room, of rst_packet 40 20 ?i ?t quiet_ambient] s1(1,3)
    by (auto simp: tcp_valid_def)
qed

section \<open>The connection state machine\<close>

text \<open>
  The moves a segment with given flags may make on one connection; \<open>None\<close> is no connection.
\<close>

inductive con_step :: "Flags \<Rightarrow> Con_State option \<Rightarrow> Con_State option \<Rightarrow> bool" for fl where
  stays: "con_step fl x x"
| removed: "con_step fl x None"
| stray_rst: "f_rst fl \<Longrightarrow> con_step fl None (Some CON_CLOSED)"
| opened: "x = None \<or> x = Some CON_CLOSED \<Longrightarrow> f_syn fl \<Longrightarrow> \<not> f_ack fl \<Longrightarrow> \<not> f_rst fl \<Longrightarrow>
    con_step fl x (Some CON_SYN_RECEIVED)"
| confirmed: "f_ack fl \<Longrightarrow> \<not> f_syn fl \<Longrightarrow> \<not> f_rst fl \<Longrightarrow>
    con_step fl (Some CON_SYN_RECEIVED) (Some CON_ESTABLISHED)"

inductive_cases to_established: "con_step fl x (Some CON_ESTABLISHED)"
inductive_cases to_syn_received: "con_step fl x (Some CON_SYN_RECEIVED)"

definition states :: "(ID \<Rightarrow> TCB option) \<Rightarrow> ID \<Rightarrow> Con_State option" where
  "states m i = map_option con_state (m i)"

lemma tcp_spec_con_step:
  assumes "view_wf m"
  shows "con_step (flags_of (tcp_flags h)) (states m i) (states (snd (tcp_spec m i h iss)) i)"
proof (cases "m i")
  case None
  then show ?thesis
    by (auto simp: tcp_spec_def Let_def states_def syn_received_def fresh_tcb_def intro: con_step.intros)
next
  case (Some t)
  with assms have "tcb_wf i t" by (simp add: view_wf_def)
  with Some show ?thesis
    by (cases "con_state t")
      (auto simp: tcp_spec_def Let_def states_def syn_received_def established_def tcb_wf_def intro: con_step.intros)
qed

text \<open>
  C16: state machine. Whatever segment arrives and whatever happens in the allocator, every
  connection other than the segment's own keeps its control block, and the segment's own
  connection moves along \<open>con_step\<close>: in particular it becomes ESTABLISHED only from SYN-RECEIVED
  and by a segment with ACK set and SYN and RST clear, and SYN-RECEIVED only by a plain SYN.
\<close>

theorem tcp_dispatch_con_step:
  assumes "srv_inv s" "room s" "segment_at buf len offset"
  shows "\<exists>n buf' s'. tcp_dispatch s buf len offset a = Some (n, buf', s') \<and> srv_inv s' \<and>
    (\<forall>j. j \<noteq> seg_id buf offset \<longrightarrow> conn_view s' j = conn_view s j) \<and>
    (\<forall>j. con_step (flags_of (tcp_flags (tcp_header buf offset))) (states (conn_view s) j) (states (conn_view s') j))"
proof (cases "tcp_valid buf len offset")
  case False
  with assms have "tcp_dispatch s buf len offset a = Some (0, buf, s)"
    by (simp add: tcp_dispatch_run tcp_valid_iff)
  with assms(1) show ?thesis by (auto intro: con_step.stays)
next
  case True
  let ?i = "seg_id buf offset" and ?h = "tcp_header buf offset"
  have wf: "view_wf (conn_view s)" using assms(1) by (simp add: srv_inv_def)
  from tcp_dispatch_ok [OF assms, of a] True obtain n buf' s' where
    s': "tcp_dispatch s buf len offset a = Some (n, buf', s')" "srv_inv s'"
    and v: "conn_view s' = snd (tcp_spec (conn_view s) ?i ?h (tcp_gen_iss a)) \<or> conn_view s' = conn_view s"
    by (auto simp: tcp_valid_iff)
  have other: "conn_view s' j = conn_view s j" if "j \<noteq> ?i" for j
    using v tcp_spec_other [OF that] by auto
  moreover have "con_step (flags_of (tcp_flags ?h)) (states (conn_view s) j) (states (conn_view s') j)" for j
    using v tcp_spec_con_step [OF wf, of ?h ?i] other [of j] con_step.stays
    by (cases "j = ?i") (auto simp: states_def)
  ultimately show ?thesis using s' by auto
qed

theorem tcp_dispatch_con_step_witness:
  "\<exists>n buf' s'. tcp_dispatch idle syn_packet 40 20 quiet_ambient = Some (n, buf', s') \<and> srv_inv s'"
  using tcp_dispatch_con_step [OF idle_ok(1,2) packets_at(1), of quiet_ambient] by auto

end
