(* ===== verification/Network.thy ===== *)
theory Network
  imports Tcp
begin

text \<open>
  \<open>net_demux\<close> of \<open>refactor/network/network.c\<close>: validation of the IP header and the choice of the
  protocol handler. The file descriptor argument is only handed on to \<open>tcp_dispatch\<close>, which does
  not use it, and is left out. The lemmas combine what the handlers guarantee: whatever bytes
  arrive, the call returns, stays inside the buffer and keeps the connection table intact.
\<close>

section \<open>Operation\<close>

definition net_demux :: "server \<Rightarrow> buffer \<Rightarrow> int \<Rightarrow> ambient \<Rightarrow> (int \<times> buffer \<times> server) option" where
  "net_demux s buf len a = do {
     ok \<leftarrow> ip_validate buf len;
     if ok = 0 then Some (0, buf, s)
     else do {
       proto \<leftarrow> load8 buf IP_proto;
       v \<leftarrow> load8 buf IP_version_ihl;
       let ihl = hlen_low v;
       if proto = PROTO_ICMP then do {
         (n, buf) \<leftarrow> icmp_dispatch buf len ihl;
         Some (n, buf, s)
       }
       else if proto = PROTO_TCP then tcp_dispatch s buf len ihl a
       else do {
         (n, buf) \<leftarrow> icmp_dest_unreachable buf len ihl;
         Some (n, buf, s)
       }
     }
   }"

section \<open>Bounds of the replies\<close>

lemma icmp_dispatch_bounds:
  assumes "segment_at b len off"
  shows "\<exists>n b'. icmp_dispatch b len off = Some (n, b') \<and> 0 \<le> n \<and> n \<le> 1500 \<and> length b' = 1500"
proof -
  note seg = segment_atD [OF assms]
  have r: "in_range b off (len - off)" "len - off \<le> 131072" using seg by (simp_all add: in_range_def)
  have ld: "load8 b off = Some (peek8 b off)" using seg by (simp add: in_range_def mem_simps)
  show ?thesis
  proof (cases "8 \<le> len - off")
    case True
    then have "icmp_echo_reply b len off = Some (len, echo_reply b len off)"
      using seg by (intro icmp_echo_reply_eq) auto
    with r ld seg show ?thesis by (simp add: icmp_dispatch_def icmp_validate_eq)
  qed (use r seg in \<open>simp add: icmp_dispatch_def icmp_validate_eq\<close>)
qed

lemma carries_bounds:
  assumes "segment_at b len off" "carries r b len off j n b'"
  shows "0 \<le> n \<and> n \<le> 120 \<and> length b' = 1500"
  using segment_atD [OF assms(1)] assms(2) hlen_high_bounds [of "tcp_data_offset (tcp_header b off)"]
  by (auto simp: carries_def split: Reply.splits)

lemma tcp_dispatch_bounds:
  assumes "srv_inv s" "room s" "segment_at b len off"
  shows "\<exists>n b' s'. tcp_dispatch s b len off a = Some (n, b', s') \<and> 0 \<le> n \<and> n \<le> 120 \<and> length b' = 1500 \<and>
    srv_inv s' \<and> oom s' = oom s \<and> dom (conn_view s') \<subseteq> insert (seg_id b off) (dom (conn_view s))"
proof (cases "peek16 b (off + 16) = tcp_cks b len off")
  case False
  with assms segment_atD [OF assms(3)] show ?thesis by (auto simp: tcp_dispatch_run)
next
  case True
  from tcp_dispatch_ok [OF assms True, of a] obtain n b' s' where
    r: "tcp_dispatch s b len off a = Some (n, b', s')" "srv_inv s'" "oom s' = oom s"
    and c: "conn_view s' = snd (tcp_spec (conn_view s) (seg_id b off) (tcp_header b off) (tcp_gen_iss a)) \<and>
        carries (fst (tcp_spec (conn_view s) (seg_id b off) (tcp_header b off) (tcp_gen_iss a))) b len off (amb_junk a) n b' \<or>
      conn_view s' = conn_view s \<and> n = 0 \<and> b' = b"
    by blast
  from c have "dom (conn_view s') \<subseteq> insert (seg_id b off) (dom (conn_view s))"
    using tcp_spec_dom by (elim disjE conjE) (simp_all, blast)
  moreover from c have "0 \<le> n \<and> n \<le> 120 \<and> length b' = 1500"
    using carries_bounds [OF assms(3)] segment_atD(1) [OF assms(3)] by (elim disjE conjE) (blast, simp)
  ultimately show ?thesis using r by blast
qed

lemma validated_segment: "received buf len \<Longrightarrow> ip_validate buf len = Some 1 \<Longrightarrow> segment_at buf len (ihl_of buf)"
  using validatedD [of buf len] by (simp add: segment_at_def received_def)

text \<open>The call after the two loads.\<close>

lemma net_demux_eq:
  assumes "received buf len"
  shows "net_demux s buf len a =
    (if ip_validate buf len \<noteq> Some 1 then Some (0, buf, s)
     else if peek8 buf IP_proto = PROTO_ICMP then map_option (\<lambda>(n, b). (n, b, s)) (icmp_dispatch buf len (ihl_of buf))
     else if peek8 buf IP_proto = PROTO_TCP then tcp_dispatch s buf len (ihl_of buf) a
     else map_option (\<lambda>(n, b). (n, b, s)) (icmp_dest_unreachable buf len (ihl_of buf)))"
proof -
  have v: "ip_validate buf len = Some (if ip_validate buf len = Some 1 then 1 else 0)"
    using ip_validate_eq [of len buf] assms by (auto simp: received_def)
  have "map_option (\<lambda>(n, b). (n, b, s)) x = x \<bind> (\<lambda>(n, b). Some (n, b, s))" for x :: "(int \<times> buffer) option"
    by (cases x) auto
  then show ?thesis
    using assms v by (auto simp: net_demux_def received_def in_range_def mem_simps)
qed

lemma net_demux_ok:
  assumes "srv_inv s" "room s" "received buf len"
  shows "\<exists>n buf' s'. net_demux s buf len a = Some (n, buf', s') \<and> 0 \<le> n \<and> n \<le> 1500 \<and> length buf' = 1500 \<and>
    srv_inv s' \<and> oom s' = oom s \<and> (\<exists>i. dom (conn_view s') \<subseteq> insert i (dom (conn_view s)))"
proof (cases "ip_validate buf len = Some 1")
  case False
  with assms show ?thesis by (auto simp: net_demux_eq received_def)
next
  case True
  note seg = validated_segment [OF assms(3) True]
  have u: "icmp_dest_unreachable buf len (ihl_of buf) =
      Some (ihl_of buf + 8 + quoted_len len (ihl_of buf), unreachable buf len (ihl_of buf))"
    using segment_atD [OF seg] by (intro icmp_dest_unreachable_eq) auto
  have "length (unreachable buf len (ihl_of buf)) = 1500" "0 \<le> quoted_len len (ihl_of buf)"
      "quoted_len len (ihl_of buf) \<le> 68"
    using segment_atD [OF seg] quoted_len_bounds [of "ihl_of buf" len]
    by (auto simp: unreachable_def Let_def in_range_def)
  with True u segment_atD [OF seg] icmp_dispatch_bounds [OF seg] tcp_dispatch_bounds [OF assms(1,2) seg, of a] assms
  show ?thesis by (fastforce simp: net_demux_eq)
qed

text \<open>On every connection a packet either does nothing or makes a move of the state machine.\<close>

lemma net_demux_con_step:
  assumes "srv_inv s" "room s" "received buf len" "net_demux s buf len a = Some (n, buf', s')"
  shows "conn_view s' j = conn_view s j \<or> j = seg_id buf (ihl_of buf) \<and>
    con_step (flags_of (tcp_flags (tcp_header buf (ihl_of buf)))) (states (conn_view s) j) (states (conn_view s') j)"
proof (cases "ip_validate buf len = Some 1 \<and> peek8 buf IP_proto = PROTO_TCP")
  case True
  then have run: "tcp_dispatch s buf len (ihl_of buf) a = Some (n, buf', s')"
    using assms(4) by (simp add: net_demux_eq [OF assms(3)])
  have seg: "segment_at buf len (ihl_of buf)" using True validated_segment [OF assms(3)] by simp
  have wf: "view_wf (conn_view s)" using assms(1) by (simp add: srv_inv_def)
  have "conn_view s' = conn_view s \<or> conn_view s' = snd (tcp_spec (conn_view s) (seg_id buf (ihl_of buf))
      (tcp_header buf (ihl_of buf)) (tcp_gen_iss a))"
  proof (cases "peek16 buf (ihl_of buf + 16) = tcp_cks buf len (ihl_of buf)")
    case True
    from tcp_dispatch_ok [OF assms(1,2) seg True, of a] run show ?thesis by auto
  qed (use run in \<open>simp add: tcp_dispatch_run [OF seg]\<close>)
  then show ?thesis
    using tcp_spec_other [of j "seg_id buf (ihl_of buf)"] tcp_spec_con_step [OF wf]
    by (cases "j = seg_id buf (ihl_of buf)") auto
next
  case False
  with assms(4) show ?thesis by (auto simp: net_demux_eq [OF assms(3)] split: if_splits)
qed

section \<open>Properties\<close>

text \<open>
  C18: memory safety and bounds. For any contents of the 1500-byte buffer and any received length,
  with any allocation failing, one packet is processed without an access outside an object or
  through a stale pointer; the returned length is between 0 and 1500, so it fits the buffer; and
  afterwards the live control blocks are again exactly the well-formed ones in the table.
\<close>

theorem net_demux_safe:
  assumes "srv_inv s" "room s" "length buf = 1500" "len \<le> MTU_SIZE"
  shows "\<exists>n buf' s'. net_demux s buf len a = Some (n, buf', s') \<and> 0 \<le> n \<and> n \<le> MTU_SIZE \<and>
    length buf' = 1500 \<and> srv_inv s'"
  using net_demux_ok [OF assms(1,2), of buf len a] assms(3,4) by (auto simp: received_def)

theorem net_demux_safe_witness:
  "\<exists>n buf' s'. net_demux idle syn_packet 40 quiet_ambient = Some (n, buf', s') \<and> n \<le> MTU_SIZE"
  using net_demux_safe [OF idle_ok(1,2), of syn_packet 40 quiet_ambient] by (auto simp: syn_packet_def)

text \<open>
  What reaches TCP. A packet that is not TCP, or whose IP header is not acceptable, never
  changes the connection state; one whose header is not acceptable also gets no reply and leaves
  the buffer as it is.
\<close>

theorem net_demux_isolates:
  assumes "received buf len" "net_demux s buf len a = Some (n, buf', s')"
  shows "(peek8 buf IP_proto \<noteq> PROTO_TCP \<or> ip_validate buf len \<noteq> Some 1 \<longrightarrow> s' = s) \<and>
    (ip_validate buf len \<noteq> Some 1 \<longrightarrow> n = 0 \<and> buf' = buf)"
  using assms(2) by (auto simp: net_demux_eq [OF assms(1)] split: if_splits)

theorem net_demux_isolates_witness:
  "\<exists>n buf'. net_demux idle ping 28 quiet_ambient = Some (n, buf', idle)"
proof -
  obtain n buf' s' where "net_demux idle ping 28 quiet_ambient = Some (n, buf', s')"
    using net_demux_ok [OF idle_ok(1,2) ping_facts(1)] by blast
  moreover have "peek8 ping 9 \<noteq> 6" by code_simp
  ultimately show ?thesis
    using net_demux_isolates [OF ping_facts(1)] by blast
qed

text \<open>
  C25: the stack answers pings. A valid echo request in a valid IP packet addressed to the device
  is answered with a packet of the same length whose addresses are exchanged and whose payload
  is the request's, and the connection state is not touched.
\<close>

theorem net_demux_answers_ping:
  assumes "received buf len" "ip_validate buf len = Some 1" "peek8 buf IP_proto = PROTO_ICMP" "offset = ihl_of buf"
    and "icmp_validate buf offset (len - offset) = Some 1" "icmp_type (icmp_header buf offset) = ICMP_ECHO"
  shows "\<exists>buf'. net_demux s buf len a = Some (len, buf', s) \<and>
    ipv4_src (ip_header buf') = ipv4_dst (ip_header buf) \<and> ipv4_dst (ip_header buf') = ipv4_src (ip_header buf) \<and>
    bytes_at buf' (offset + 4) (len - offset - 4) = bytes_at buf (offset + 4) (len - offset - 4)"
proof -
  note seg = segment_atD [OF validated_segment [OF assms(1,2)]]
  have off: "in_range buf offset (len - offset)" "20 \<le> offset" using seg assms(4) by (auto simp: in_range_def)
  then have n: "offset + 8 \<le> len"
    using assms(5) seg icmp_validate_eq [OF off(1)] by (auto split: if_splits)
  have "icmp_dispatch buf len offset = Some (len, echo_reply buf len offset)"
    using assms(5,6) seg off n assms(4)
    by (simp add: icmp_dispatch_def icmp_header_def icmp_echo_reply_eq in_range_def mem_simps)
  then show ?thesis
    using assms(1-4) off(2) seg
    by (simp add: net_demux_eq echo_reply_def ip_header_summed ip_header_swapped mem_simps)
qed

theorem net_demux_answers_ping_witness:
  "\<exists>buf'. net_demux idle ping 28 quiet_ambient = Some (28, buf', idle)"
proof -
  have "peek8 ping IP_proto = PROTO_ICMP" by code_simp
  then show ?thesis
    using net_demux_answers_ping [of ping 28 20 idle quiet_ambient] ping_facts by auto
qed

end
