(* ===== verification/Tun.thy ===== *)
theory Tun
  imports Prelude "HOL-Library.Multiset"
begin

text \<open>
  \<open>refactor/tun/tun_device.c\<close>: creation, configuration and destruction of the TUN device. The
  outcome of every system call is an input (record \<open>tun_env\<close>); what is modelled is the
  program's side: which calls it makes in which order, what it sends to the kernel, which
  descriptors and heap blocks it holds, and which error it returns. \<open>tun_read\<close> and \<open>tun_write\<close>
  are in theory \<open>Server\<close>.
\<close>

section \<open>Data\<close>

abbreviation (input) TUN_FILE_ERROR :: int where "TUN_FILE_ERROR \<equiv> -3"
abbreviation (input) TUN_KWRITE_ERROR :: int where "TUN_KWRITE_ERROR \<equiv> -1"
abbreviation (input) TUN_DSOCK_ERROR :: int where "TUN_DSOCK_ERROR \<equiv> -2"
abbreviation (input) TUN_INET_ERROR :: int where "TUN_INET_ERROR \<equiv> -4"
abbreviation (input) TUN_SEND_ERROR :: int where "TUN_SEND_ERROR \<equiv> -5"

record Tun =
  tun_name :: "string option"
  tun_ip :: "string option"
  tun_fd :: int

text \<open>
  The two Netlink requests. Each is zeroed before it is filled in, so a field the program does not
  set is 0; the constructor is \<open>nlmsg_type\<close>. Flag words are sets of flags, and \<open>AF_UNSPEC\<close>,
  \<open>RT_SCOPE_UNIVERSE\<close> are 0, \<open>AF_INET\<close> is 2, \<open>IFA_LOCAL\<close> is 2 in the kernel's headers.
\<close>

datatype nlm_flag = NLM_F_REQUEST | NLM_F_CREATE | NLM_F_EXCL
datatype if_flag = IFF_UP
datatype tun_flag = IFF_TUN | IFF_NO_PI

record nlmsghdr =
  nlmsg_len :: nat
  nlmsg_flags :: "nlm_flag set"
  nlmsg_seq :: nat

record ifinfomsg =
  ifi_family :: nat
  ifi_index :: int
  ifi_flags :: "if_flag set"
  ifi_change :: "if_flag set"

record ifaddrmsg =
  ifa_family :: nat
  ifa_prefixlen :: nat
  ifa_scope :: nat
  ifa_index :: int

record rtattr =
  rta_len :: nat
  rta_type :: nat
  rta_data :: u32

datatype nl_msg =
  RTM_NEWLINK nlmsghdr ifinfomsg
| RTM_NEWADDR nlmsghdr ifaddrmsg rtattr

record tun_env =
  te_open :: int
  te_ioctl :: "tun_flag set \<Rightarrow> string \<Rightarrow> int"
  te_ifr_name :: "string \<Rightarrow> string"
  te_malloc :: bool
  te_strdup_name :: bool
  te_strdup_ip :: bool
  te_add_sock :: int
  te_add_send :: int
  te_wake_sock :: int
  te_wake_send :: int
  te_index :: "string \<Rightarrow> int"
  te_inet_pton :: "string \<Rightarrow> u32 option"

text \<open>What the process holds and has sent: open descriptors, live heap blocks, Netlink requests.\<close>

record os =
  os_fds :: "int multiset"
  os_blocks :: nat
  os_sent :: "nl_msg list"

definition os_open :: "int \<Rightarrow> os \<Rightarrow> os" where
  "os_open fd k = k\<lparr>os_fds := add_mset fd (os_fds k)\<rparr>"

definition os_close :: "int \<Rightarrow> os \<Rightarrow> os" where
  "os_close fd k = k\<lparr>os_fds := os_fds k - {#fd#}\<rparr>"

definition os_alloc :: "bool \<Rightarrow> os \<Rightarrow> os" where
  "os_alloc ok k = (if ok then k\<lparr>os_blocks := os_blocks k + 1\<rparr> else k)"

definition os_free :: "bool \<Rightarrow> os \<Rightarrow> os" where
  "os_free live k = (if live then k\<lparr>os_blocks := os_blocks k - 1\<rparr> else k)"

text \<open>\<open>os_hold n\<close>: \<open>n\<close> more blocks are held.\<close>

definition os_hold :: "nat \<Rightarrow> os \<Rightarrow> os" where
  "os_hold n k = k\<lparr>os_blocks := os_blocks k + n\<rparr>"

definition os_send :: "nl_msg \<Rightarrow> os \<Rightarrow> os" where
  "os_send m k = k\<lparr>os_sent := os_sent k @ [m]\<rparr>"

section \<open>Operations\<close>

text \<open>
  \<open>NLMSG_LENGTH\<close> adds the 16-byte header; \<open>struct ifinfomsg\<close> has 16 bytes, \<open>struct ifaddrmsg\<close> 8,
  the address attribute 8 including its own header.
\<close>

definition NLMSG_LENGTH :: "nat \<Rightarrow> nat" where "NLMSG_LENGTH n = n + 16"
definition NLMSG_ALIGN :: "nat \<Rightarrow> nat" where "NLMSG_ALIGN n = (n + 3) div 4 * 4"
definition RTA_LENGTH :: "nat \<Rightarrow> nat" where "RTA_LENGTH n = n + 4"

definition tun_ip_wake :: "tun_env \<Rightarrow> string \<Rightarrow> os \<Rightarrow> int \<times> os" where
  "tun_ip_wake e name k = (
     let sock = te_wake_sock e
     in if sock < 0 then (TUN_DSOCK_ERROR, k)
        else let k = os_open sock k;
                 req = RTM_NEWLINK
                   \<lparr>nlmsg_len = NLMSG_LENGTH 16, nlmsg_flags = {NLM_F_REQUEST}, nlmsg_seq = 1\<rparr>
                   \<lparr>ifi_family = 0, ifi_index = te_index e name, ifi_flags = {IFF_UP}, ifi_change = {IFF_UP}\<rparr>
             in if te_wake_send e < 0 then (TUN_SEND_ERROR, os_close sock k)
                else (0, os_close sock (os_send req k)))"

definition tun_ip_add :: "tun_env \<Rightarrow> string \<Rightarrow> string \<Rightarrow> os \<Rightarrow> int \<times> os" where
  "tun_ip_add e name ip k = (
     let sock = te_add_sock e
     in if sock < 0 then (TUN_DSOCK_ERROR, k)
        else let k = os_open sock k
        in case te_inet_pton e ip of
             None \<Rightarrow> (TUN_INET_ERROR, os_close sock k)
           | Some addr \<Rightarrow>
               let req = RTM_NEWADDR
                     \<lparr>nlmsg_len = NLMSG_ALIGN (NLMSG_LENGTH 8) + RTA_LENGTH 4,
                      nlmsg_flags = {NLM_F_REQUEST, NLM_F_CREATE, NLM_F_EXCL}, nlmsg_seq = 1\<rparr>
                     \<lparr>ifa_family = 2, ifa_prefixlen = 24, ifa_scope = 0, ifa_index = te_index e name\<rparr>
                     \<lparr>rta_len = RTA_LENGTH 4, rta_type = 2, rta_data = addr\<rparr>
               in if te_add_send e < 0 then (TUN_SEND_ERROR, os_close sock k)
                  else (0, os_close sock (os_send req k)))"

text \<open>
  \<open>tun_alloc\<close> returns the descriptor or an error and writes the name the kernel chose back to the
  caller's buffer. \<open>te_ioctl\<close> is the kernel's answer to the flags and the name requested; \<open>te_ifr_name\<close> maps the requested name, empty if none, to the one the kernel
  leaves in \<open>ifr_name\<close>.
\<close>

definition tun_alloc :: "tun_env \<Rightarrow> string \<Rightarrow> os \<Rightarrow> int \<times> string \<times> os" where
  "tun_alloc e name k = (
     let fd = te_open e
     in if fd < 0 then (TUN_FILE_ERROR, name, k)
        else let k = os_open fd k;
                 ifr_name = (if name \<noteq> [] then take 16 name else [])
        in if te_ioctl e {IFF_TUN, IFF_NO_PI} ifr_name < 0 then (TUN_KWRITE_ERROR, name, os_close fd k)
           else (fd, te_ifr_name e ifr_name, k))"

definition tun_destroy :: "Tun option \<Rightarrow> os \<Rightarrow> os" where
  "tun_destroy tun k = (case tun of None \<Rightarrow> k
     | Some t \<Rightarrow> os_free True (os_close (tun_fd t)
         (os_free (tun_ip t \<noteq> None) (os_free (tun_name t \<noteq> None) k))))"

definition strdup :: "bool \<Rightarrow> string \<Rightarrow> string option" where
  "strdup ok s = (if ok then Some s else None)"

definition tun_init :: "tun_env \<Rightarrow> string \<Rightarrow> string \<Rightarrow> os \<Rightarrow> Tun option \<times> os" where
  "tun_init e name ip k = (
     let (fd, name, k) = tun_alloc e name k
     in if fd = TUN_FILE_ERROR then (None, k)
        else if fd = TUN_KWRITE_ERROR then (None, k)
        else if \<not> te_malloc e then (None, os_close fd k)
        else let k = os_alloc True k;
                 k = os_alloc (te_strdup_name e) k;
                 k = os_alloc (te_strdup_ip e) k;
                 tun = \<lparr>tun_name = strdup (te_strdup_name e) name, tun_ip = strdup (te_strdup_ip e) ip, tun_fd = fd\<rparr>;
                 (ip_add, k) = tun_ip_add e name ip k;
                 (ip_wake, k) = tun_ip_wake e name k
        in if ip_add = TUN_DSOCK_ERROR \<or> ip_wake = TUN_DSOCK_ERROR then (None, tun_destroy (Some tun) k)
           else if ip_add = TUN_SEND_ERROR \<or> ip_wake = TUN_SEND_ERROR then (None, tun_destroy (Some tun) k)
           else if ip_add = TUN_INET_ERROR then (None, tun_destroy (Some tun) k)
           else (Some tun, k))"

section \<open>Lemmas\<close>

text \<open>What the kernel has to be asked: add the address to the interface, then bring it up.\<close>

definition addr_request :: "int \<Rightarrow> u32 \<Rightarrow> nl_msg" where
  "addr_request ix a = RTM_NEWADDR \<lparr>nlmsg_len = 32, nlmsg_flags = {NLM_F_REQUEST, NLM_F_CREATE, NLM_F_EXCL}, nlmsg_seq = 1\<rparr>
     \<lparr>ifa_family = 2, ifa_prefixlen = 24, ifa_scope = 0, ifa_index = ix\<rparr> \<lparr>rta_len = 8, rta_type = 2, rta_data = a\<rparr>"

definition up_request :: "int \<Rightarrow> nl_msg" where
  "up_request ix = RTM_NEWLINK \<lparr>nlmsg_len = 32, nlmsg_flags = {NLM_F_REQUEST}, nlmsg_seq = 1\<rparr>
     \<lparr>ifi_family = 0, ifi_index = ix, ifi_flags = {IFF_UP}, ifi_change = {IFF_UP}\<rparr>"

lemmas os_defs = os_open_def os_close_def os_alloc_def os_free_def os_send_def os_hold_def

text \<open>Each configuration call gives back the socket it opened.\<close>

lemma tun_ip_add_frame:
  "tun_ip_add e name ip k = (r, k') \<Longrightarrow> os_fds k' = os_fds k \<and> os_blocks k' = os_blocks k \<and>
   r \<in> {0, TUN_DSOCK_ERROR, TUN_INET_ERROR, TUN_SEND_ERROR}"
  by (auto simp: tun_ip_add_def Let_def os_defs split: if_splits option.splits)

lemma tun_ip_wake_frame:
  "tun_ip_wake e name k = (r, k') \<Longrightarrow> os_fds k' = os_fds k \<and> os_blocks k' = os_blocks k \<and>
   r \<in> {0, TUN_DSOCK_ERROR, TUN_SEND_ERROR}"
  by (auto simp: tun_ip_wake_def Let_def os_defs split: if_splits)

lemma tun_ip_sent:
  "tun_ip_add e name ip k = (0, k') \<Longrightarrow>
   \<exists>a. te_inet_pton e ip = Some a \<and> os_sent k' = os_sent k @ [addr_request (te_index e name) a]"
  "tun_ip_wake e name k = (0, k') \<Longrightarrow> os_sent k' = os_sent k @ [up_request (te_index e name)]"
  by (auto simp: tun_ip_add_def tun_ip_wake_def Let_def os_defs NLMSG_LENGTH_def NLMSG_ALIGN_def RTA_LENGTH_def
      addr_request_def up_request_def
      split: if_splits option.splits)

lemma tun_init_frame:
  "case tun_init e name ip k of
     (None, k') \<Rightarrow> os_fds k' = os_fds k \<and> os_blocks k' = os_blocks k
   | (Some t, k') \<Rightarrow> os_fds k' = add_mset (tun_fd t) (os_fds k) \<and> tun_fd t = te_open e \<and> 0 \<le> tun_fd t \<and>
       (\<exists>a. te_inet_pton e ip = Some a \<and> os_sent k' = os_sent k @
          [addr_request (te_index e (te_ifr_name e (take 16 name))) a, up_request (te_index e (te_ifr_name e (take 16 name)))]) \<and>
       os_fds (tun_destroy (Some t) k') = os_fds k \<and> os_blocks (tun_destroy (Some t) k') = os_blocks k"
proof (cases "te_open e < 0 \<or> te_ioctl e {IFF_TUN, IFF_NO_PI} (take 16 name) < 0 \<or> \<not> te_malloc e")
  case True
  then show ?thesis by (auto simp: tun_init_def tun_alloc_def Let_def os_defs)
next
  case False
  let ?n = "te_ifr_name e (take 16 name)"
  let ?k0 = "os_alloc (te_strdup_ip e) (os_alloc (te_strdup_name e) (os_alloc True (os_open (te_open e) k)))"
  let ?t = "\<lparr>tun_name = strdup (te_strdup_name e) ?n, tun_ip = strdup (te_strdup_ip e) ip, tun_fd = te_open e\<rparr>"
  obtain r1 k1 where a: "tun_ip_add e ?n ip ?k0 = (r1, k1)" by fastforce
  obtain r2 k2 where w: "tun_ip_wake e ?n k1 = (r2, k2)" by fastforce
  note fr = tun_ip_add_frame [OF a] tun_ip_wake_frame [OF w]
  have run: "tun_init e name ip k = (if r1 = 0 \<and> r2 = 0 then (Some ?t, k2) else (None, tun_destroy (Some ?t) k2))"
    using False a w fr by (auto simp: tun_init_def tun_alloc_def Let_def)
  have fds: "os_fds k2 = add_mset (te_open e) (os_fds k)"
    and bl: "os_blocks k2 = os_blocks k + 1 + of_bool (te_strdup_name e) + of_bool (te_strdup_ip e)"
    using fr by (auto simp: os_defs)
  have d: "os_fds (tun_destroy (Some ?t) k2) = os_fds k" "os_blocks (tun_destroy (Some ?t) k2) = os_blocks k"
    using fds bl by (auto simp: tun_destroy_def os_defs strdup_def)
  show ?thesis
  proof (cases "r1 = 0 \<and> r2 = 0")
    case True
    with tun_ip_sent a w obtain x where "te_inet_pton e ip = Some x"
      "os_sent k2 = os_sent ?k0 @ [addr_request (te_index e ?n) x, up_request (te_index e ?n)]"
      by fastforce
    with True run fds d False show ?thesis by (simp add: os_defs)
  qed (use run d in auto)
qed

text \<open>The blocks a created device holds.\<close>

lemma tun_init_held:
  assumes "tun_init e name ip k = (Some t, k')"
  shows "os_blocks k' = os_blocks k + 1 + of_bool (tun_name t \<noteq> None) + of_bool (tun_ip t \<noteq> None)"
    "tun_name t = strdup (te_strdup_name e) (te_ifr_name e (take 16 name))" "tun_ip t = strdup (te_strdup_ip e) ip"
  using assms
  by (auto simp: tun_init_def tun_alloc_def Let_def os_defs strdup_def split: if_splits prod.splits
      dest!: tun_ip_add_frame tun_ip_wake_frame)

section \<open>Properties\<close>

text \<open>
  C29: device creation neither leaks nor over-releases. If \<open>tun_init\<close> fails at any point, the
  descriptors and heap blocks the process holds are those it held before; if it succeeds, it
  holds one more descriptor, that of the device, and the kernel was asked to add the parsed
  address with prefix 24 and then to bring the interface up, both under the name the kernel
  assigned; destroying the device then gives everything back.
\<close>

theorem tun_init_resources:
  "case tun_init e name ip k of
     (None, k') \<Rightarrow> os_fds k' = os_fds k \<and> os_blocks k' = os_blocks k
   | (Some t, k') \<Rightarrow> os_fds k' = add_mset (tun_fd t) (os_fds k) \<and> tun_fd t = te_open e \<and> 0 \<le> tun_fd t \<and>
       (\<exists>a. te_inet_pton e ip = Some a \<and> os_sent k' = os_sent k @
          [addr_request (te_index e (te_ifr_name e (take 16 name))) a, up_request (te_index e (te_ifr_name e (take 16 name)))]) \<and>
       os_fds (tun_destroy (Some t) k') = os_fds k \<and> os_blocks (tun_destroy (Some t) k') = os_blocks k"
  by (rule tun_init_frame)

end
