(* ===== verification/Log.thy ===== *)
theory Log
  imports Icmp Tun
begin

text \<open>
  \<open>refactor/log/log.c\<close>: the debug log. \<open>log_event\<close> copies a packet into a fixed-size event and
  writes it to the log pipe; a failed write closes the log for good by setting \<open>g_log_fd\<close> to -1.
  The clock and the outcome of \<open>write\<close> are inputs; the two messages printed on failure are values
  of \<open>log_message\<close>. \<open>log_init\<close>, which opens the pipe, takes the outcomes of the system calls and
  acts on the descriptors and blocks the process holds (record \<open>os\<close> of theory \<open>Tun\<close>).
\<close>

abbreviation (input) LOG_WRITE :: byte where "LOG_WRITE \<equiv> 0"
abbreviation (input) LOG_READ :: byte where "LOG_READ \<equiv> 1"
abbreviation (input) LOG_SHUTDOWN :: byte where "LOG_SHUTDOWN \<equiv> 2"

definition VERBOSE :: "int \<Rightarrow> bool" where
  "VERBOSE log \<longleftrightarrow> log > -1"

record Event =
  ev_dir :: byte
  ev_timestamp_ns :: u64
  ev_tu_len :: u16
  ev_tu :: buffer

datatype write_result = Written | Failed_EPIPE | Failed_other
datatype log_message = Debugging_instance_exited | Write_to_debug_failed

record log_env =
  le_sec :: int
  le_nsec :: int
  le_write :: write_result

definition log_time :: "log_env \<Rightarrow> u64" where
  "log_time e = word_of_int (le_sec e) * 1000000000 + word_of_int (le_nsec e)"

text \<open>
  The event handed to \<open>write\<close>, the message printed and the new \<open>g_log_fd\<close>. \<open>tu\<close> is \<open>None\<close> for a
  null pointer.
\<close>

definition log_event ::
  "buffer option \<Rightarrow> u16 \<Rightarrow> byte \<Rightarrow> int \<Rightarrow> log_env \<Rightarrow> (Event \<times> log_message option \<times> int) option" where
  "log_event tu len dir g_log_fd e = do {
     let event = \<lparr>ev_dir = dir, ev_timestamp_ns = log_time e, ev_tu_len = len, ev_tu = replicate 1500 0\<rparr>;
     event \<leftarrow> (case tu of
         None \<Rightarrow> Some event
       | Some t \<Rightarrow> do {
           d \<leftarrow> memcpy (ev_tu event) 0 t 0 (uint len);
           Some (event\<lparr>ev_tu := d\<rparr>)
         });
     Some (case le_write e of
         Written \<Rightarrow> (event, None, g_log_fd)
       | Failed_EPIPE \<Rightarrow> (event, Some Debugging_instance_exited, -1)
       | Failed_other \<Rightarrow> (event, Some Write_to_debug_failed, -1))
   }"

text \<open>The macro \<open>LOG_EVENT\<close>, with the events that reached the pipe.\<close>

definition LOG_EVENT ::
  "buffer option \<Rightarrow> int \<Rightarrow> byte \<Rightarrow> log_env \<Rightarrow> int \<times> Event list \<Rightarrow> (int \<times> Event list) option" where
  "LOG_EVENT tu len dir e st = (case st of (g_log_fd, out) \<Rightarrow>
     if VERBOSE g_log_fd
     then do {
       (ev, msg, fd) \<leftarrow> log_event tu (word_of_int len) dir g_log_fd e;
       Some (fd, if le_write e = Written then out @ [ev] else out)
     }
     else Some st)"

text \<open>
  \<open>log_init\<close>: the outcomes of \<open>fopen\<close> (the descriptor behind the stream, or \<open>None\<close> for a null
  pointer), \<open>mkfifo\<close> and \<open>open\<close> (a descriptor, or -1). The stream is one descriptor and one heap
  block; no path closes it. The file operations on the pipe's path are not part of the state.
\<close>

record log_setup =
  ls_fopen :: "int option"
  ls_mkfifo :: int
  ls_open :: int

definition log_init :: "log_setup \<Rightarrow> os \<Rightarrow> int \<times> os" where
  "log_init e k = (case ls_fopen e of
       None \<Rightarrow> (-1, k)
     | Some fifo_end \<Rightarrow>
         let k = os_alloc True (os_open fifo_end k)
         in if ls_mkfifo e < 0 then (-1, k)
            else let fd = ls_open e
            in if fd < 0 then (-1, k) else (fd, os_open fd k))"

text \<open>What a successful log of \<open>n\<close> bytes records.\<close>

definition logged :: "buffer \<Rightarrow> int \<Rightarrow> byte \<Rightarrow> log_env \<Rightarrow> Event" where
  "logged b n dir e = \<lparr>ev_dir = dir, ev_timestamp_ns = log_time e, ev_tu_len = word_of_int n,
     ev_tu = bytes_at b 0 n @ replicate (1500 - nat n) 0\<rparr>"

lemma log_event_eq:
  assumes "length b = 1500" "0 \<le> n" "n \<le> 1500"
  shows "log_event (Some b) (word_of_int n) dir fd e = Some (logged b n dir e,
    case le_write e of Written \<Rightarrow> None | Failed_EPIPE \<Rightarrow> Some Debugging_instance_exited
      | Failed_other \<Rightarrow> Some Write_to_debug_failed,
    if le_write e = Written then fd else -1)"
proof -
  have n: "uint (word_of_int n :: u16) = n"
    using assms by (simp add: uint_word_of_int_eq take_bit_eq_mod)
  then have "memcpy (replicate 1500 0) 0 b 0 n = Some (bytes_at b 0 n @ replicate (1500 - nat n) 0)"
    using assms by (simp add: memcpy_def in_range_def blit_def)
  with n show ?thesis
    by (simp add: log_event_def logged_def split: write_result.split)
qed

lemma LOG_EVENT_eq [op_simps]:
  assumes "length b = 1500" "0 \<le> n" "n \<le> 1500"
  shows "LOG_EVENT (Some b) n dir e (fd, out) = Some
    (if \<not> VERBOSE fd then (fd, out)
     else if le_write e = Written then (fd, out @ [logged b n dir e]) else (-1, out))"
  by (simp add: LOG_EVENT_def log_event_eq [OF assms])

lemma LOG_EVENT_null [op_simps]:
  "\<exists>r. LOG_EVENT None n dir e st = Some r"
  by (cases st) (auto simp: LOG_EVENT_def log_event_def Let_def split: write_result.split)

text \<open>
  A logged event holds the packet exactly: its length field is the packet's length, its first
  bytes are the packet and the rest of the 1500-byte field is zero; the copy stays inside both
  buffers; and a failed write switches the log off, so that no further event is attempted.
\<close>

theorem log_event_faithful:
  assumes "length buf = 1500" "0 \<le> len" "len \<le> MTU_SIZE"
  shows "\<exists>ev msg fd'. log_event (Some buf) (word_of_int len) dir fd e = Some (ev, msg, fd') \<and>
    uint (ev_tu_len ev) = len \<and> length (ev_tu ev) = 1500 \<and> bytes_at (ev_tu ev) 0 len = bytes_at buf 0 len \<and>
    ev_dir ev = dir \<and> (if le_write e = Written then fd' = fd else \<not> VERBOSE fd')"
proof -
  have "uint (word_of_int len :: u16) = len"
    using assms by (simp add: uint_word_of_int_eq take_bit_eq_mod)
  moreover have "length (bytes_at buf 0 len) = nat len"
    using assms by (simp add: in_range_def)
  moreover from this have "bytes_at (bytes_at buf 0 len @ replicate (1500 - nat len) 0) 0 len = bytes_at buf 0 len"
    by (simp add: bytes_at_def)
  ultimately show ?thesis
    using assms by (simp add: log_event_eq logged_def VERBOSE_def)
qed

theorem log_event_faithful_witness:
  "\<exists>ev msg. log_event (Some ping) 28 LOG_READ 4 \<lparr>le_sec = 1, le_nsec = 5, le_write = Written\<rparr> = Some (ev, msg, 4) \<and>
     bytes_at (ev_tu ev) 0 28 = bytes_at ping 0 28"
  using log_event_faithful [of ping 28 LOG_READ 4 "\<lparr>le_sec = 1, le_nsec = 5, le_write = Written\<rparr>"]
  by (auto simp: ping_def)

end
