(* ===== verification/Handshake.thy ===== *)
theory Handshake
  imports Segment
begin

text \<open>
  Histories of connections, shared by the two servers. Each packet a server processes concerns at
  most one connection, so a run is a \<open>trace\<close>: a list of segments, each given by the identity of its
  connection and its flags, and after each of them a map from identities to connections in which
  only that connection may have taken a step. The locale \<open>handshake_machine\<close> is the contract
  of a state machine in which connections open by a SYN and become connected by an ACK; from it follows
  that every connected connection has a handshake in its history.
\<close>

inductive trace ::
  "('i \<times> Flags \<Rightarrow> 'a option \<Rightarrow> 'a option \<Rightarrow> bool) \<Rightarrow> ('i \<times> Flags) list \<Rightarrow> ('i \<Rightarrow> 'a option) \<Rightarrow> ('i \<Rightarrow> 'a option) \<Rightarrow> bool"
  for step where
  start: "trace step [] m m"
| more: "(\<And>j. m1 j = m j \<or> j = fst g \<and> step g (m j) (m1 j)) \<Longrightarrow> trace step H m1 m' \<Longrightarrow> trace step (g # H) m m'"

inductive_cases trace_ConsE: "trace step (g # H) m m'"

lemma trace_mono:
  assumes "trace step H m m'" "\<And>g a b. step g a b \<Longrightarrow> step' g a b"
  shows "trace step' H m m'"
  using assms(1)
proof (induction rule: trace.induct)
  case (more m1 m g H m')
  have "m1 j = m j \<or> j = fst g \<and> step' g (m j) (m1 j)" for j using more.hyps(1) [of j] assms(2) by blast
  from trace.more [OF this more.IH] show ?case .
qed (rule trace.start)

text \<open>A property of single connections that every step keeps.\<close>

lemma trace_invariant:
  assumes "trace step H m m'" "\<And>i t. m i = Some t \<Longrightarrow> P i t"
    and "\<And>g a t. step g a (Some t) \<Longrightarrow> (\<And>u. a = Some u \<Longrightarrow> P (fst g) u) \<Longrightarrow> P (fst g) t"
  shows "m' i = Some t \<Longrightarrow> P i t"
  using assms(1,2)
proof (induction arbitrary: i t rule: trace.induct)
  case (more m1 m g H m')
  have "P j u" if "m1 j = Some u" for j u
    using more.hyps(1) [of j] that more.prems(2) assms(3) [of g "m j" u] by auto
  with more show ?case by blast
qed blast

text \<open>A connection that no segment of the history can move.\<close>

lemma trace_kept:
  assumes "trace step H m m'" "m i = Some t"
    and "\<And>g c. g \<in> set H \<Longrightarrow> fst g = i \<Longrightarrow> step g (Some t) c \<Longrightarrow> c = Some t"
  shows "m' i = Some t"
  using assms
proof (induction rule: trace.induct)
  case (more m1 m g H m')
  have "m1 i = Some t" using more.hyps(1) [of i] more.prems(1) more.prems(2) [of g "m1 i"] by auto
  then show ?case using more.prems(2) by (intro more.IH) auto
qed blast

section \<open>Handshakes\<close>

definition plain_syn :: "'i \<Rightarrow> 'i \<times> Flags \<Rightarrow> bool" where
  "plain_syn i g \<longleftrightarrow> fst g = i \<and> f_syn (snd g) \<and> \<not> f_ack (snd g) \<and> \<not> f_rst (snd g)"

definition plain_ack :: "'i \<Rightarrow> 'i \<times> Flags \<Rightarrow> bool" where
  "plain_ack i g \<longleftrightarrow> fst g = i \<and> f_ack (snd g) \<and> \<not> f_syn (snd g) \<and> \<not> f_rst (snd g)"

definition handshake_in :: "'i \<Rightarrow> ('i \<times> Flags) list \<Rightarrow> bool" where
  "handshake_in i H \<longleftrightarrow> (\<exists>H1 g H2. H = H1 @ g # H2 \<and> plain_ack i g \<and> (\<exists>f \<in> set H1. plain_syn i f))"

lemma handshake_in_more: "handshake_in i H \<Longrightarrow> handshake_in i (H @ H')"
  unfolding handshake_in_def by (metis append.assoc append_Cons)

lemma handshake_in_last: "plain_ack i g \<Longrightarrow> f \<in> set H \<Longrightarrow> plain_syn i f \<Longrightarrow> handshake_in i (H @ [g])"
  unfolding handshake_in_def by blast

locale handshake_machine =
  fixes step :: "'i \<times> Flags \<Rightarrow> 'a option \<Rightarrow> 'a option \<Rightarrow> bool"
    and half_open :: "'a \<Rightarrow> bool"
    and connected :: "'a \<Rightarrow> bool"
  assumes opened_by_syn: "step g a (Some t) \<Longrightarrow> half_open t \<Longrightarrow>
      (\<exists>u. a = Some u \<and> half_open u) \<or> plain_syn (fst g) g"
    and connected_by_ack: "step g a (Some t) \<Longrightarrow> connected t \<Longrightarrow>
      (\<exists>u. a = Some u \<and> connected u) \<or> (\<exists>u. a = Some u \<and> half_open u) \<and> plain_ack (fst g) g"
begin

definition explained :: "('i \<times> Flags) list \<Rightarrow> ('i \<Rightarrow> 'a option) \<Rightarrow> bool" where
  "explained H m \<longleftrightarrow> (\<forall>i t. m i = Some t \<longrightarrow>
     (half_open t \<longrightarrow> (\<exists>f \<in> set H. plain_syn i f)) \<and> (connected t \<longrightarrow> handshake_in i H))"

lemma explained_step:
  assumes "explained H m" "\<And>j. m' j = m j \<or> j = fst g \<and> step g (m j) (m' j)"
  shows "explained (H @ [g]) m'"
  unfolding explained_def
proof (intro allI impI)
  fix i t
  assume t: "m' i = Some t"
  show "(half_open t \<longrightarrow> (\<exists>f \<in> set (H @ [g]). plain_syn i f)) \<and> (connected t \<longrightarrow> handshake_in i (H @ [g]))"
  proof (cases "m' i = m i")
    case True
    with t assms(1) show ?thesis by (auto simp: explained_def intro: handshake_in_more)
  next
    case False
    with assms(2) [of i] t have i: "i = fst g" and st: "step g (m i) (Some t)" by auto
    have old: "u = u' \<Longrightarrow> (half_open u \<longrightarrow> (\<exists>f \<in> set H. plain_syn i f)) \<and> (connected u \<longrightarrow> handshake_in i H)"
      if "m i = Some u'" for u u' using assms(1) that by (simp add: explained_def)
    show ?thesis
      using opened_by_syn [OF st] connected_by_ack [OF st] old i
      by (auto intro: handshake_in_more handshake_in_last)
  qed
qed

lemma explained_trace: "trace step H m m' \<Longrightarrow> explained H0 m \<Longrightarrow> explained (H0 @ H) m'"
proof (induction arbitrary: H0 rule: trace.induct)
  case (more m1 m g H m')
  from more.IH [OF explained_step [OF more.prems more.hyps(1)]] show ?case by simp
qed simp

lemma connected_has_handshake:
  assumes "trace step H (\<lambda>i. None) m" "m i = Some t" "connected t"
  shows "handshake_in i H"
  using explained_trace [OF assms(1), of "[]"] assms(2,3) by (simp add: explained_def)

end

end
