(* ===== verification/Server.thy ===== *)
theory Server
  imports Network Log Handshake
begin

text \<open>
  \<open>server_run\<close> and \<open>server_shutdown\<close> of \<open>refactor/main.c\<close> with \<open>tun_read\<close> and \<open>tun_write\<close> of
  \<open>refactor/tun/tun_device.c\<close>: the loop that reads a packet from the device, hands it to the stack
  and writes the reply. What the kernel delivers is a list of ticks, one per iteration: whether
  the shutdown signal has arrived when the loop condition is tested, what \<open>read\<close> returns, and the
  outside values the packet's processing draws on. A finite list describes a finite prefix of the
  run, so the theorems about all lists cover every moment of a run of any length.
\<close>

section \<open>Operations\<close>

record tick =
  tk_shutdown :: bool
  tk_packet :: "buffer option"
  tk_amb :: ambient
  tk_log_read :: log_env
  tk_log_write :: log_env

record world =
  w_srv :: server
  w_buf :: buffer
  w_log :: "int \<times> Event list"
  w_sent :: "buffer list"

text \<open>
  \<open>read\<close> on the device: -1 on an error, otherwise the packet cut to the size asked for. The
  bytes after it keep their old contents.
\<close>

definition tun_read :: "buffer option \<Rightarrow> buffer \<Rightarrow> int \<Rightarrow> int \<times> buffer" where
  "tun_read packet buf len = (case packet of
     None \<Rightarrow> (-1, buf)
   | Some p \<Rightarrow> let q = take (nat len) p in (int (length q), q @ drop (length q) buf))"

definition tun_write :: "buffer \<Rightarrow> int \<Rightarrow> buffer list \<Rightarrow> buffer list option" where
  "tun_write buf len sent =
     (if 0 \<le> len \<and> in_range buf 0 len then Some (sent @ [bytes_at buf 0 len]) else None)"

text \<open>The handler of SIGUSR1 sets the flag the loop tests; its message is left out.\<close>

definition server_shutdown :: "tick \<Rightarrow> tick" where
  "server_shutdown t = t\<lparr>tk_shutdown := True\<rparr>"

text \<open>One pass through the loop body.\<close>

definition server_iter :: "int \<Rightarrow> tick \<Rightarrow> world \<Rightarrow> world option" where
  "server_iter mtu t w = do {
     let (nread, tu) = tun_read (tk_packet t) (w_buf w) mtu;
     (nwrite, tu, s, log) \<leftarrow>
       (if nread > 0
        then do {
          log \<leftarrow> LOG_EVENT (Some tu) nread LOG_READ (tk_log_read t) (w_log w);
          (nwrite, tu, s) \<leftarrow> net_demux (w_srv w) tu nread (tk_amb t);
          Some (nwrite, tu, s, log)
        }
        else Some (0, tu, w_srv w, w_log w));
     (log, sent) \<leftarrow>
       (if nwrite > 0
        then do {
          log \<leftarrow> LOG_EVENT (Some tu) nwrite LOG_WRITE (tk_log_write t) log;
          sent \<leftarrow> tun_write tu nwrite (w_sent w);
          Some (log, sent)
        }
        else Some (log, w_sent w));
     Some \<lparr>w_srv = s, w_buf = tu, w_log = log, w_sent = sent\<rparr>
   }"

fun server_run :: "int \<Rightarrow> tick list \<Rightarrow> world \<Rightarrow> world option" where
  "server_run mtu [] w = Some w"
| "server_run mtu (t # ts) w =
     (if tk_shutdown t
      then do {
        log \<leftarrow> LOG_EVENT None 0 LOG_SHUTDOWN (tk_log_read t) (w_log w);
        Some (w\<lparr>w_log := log\<rparr>)
      }
      else do {
        w \<leftarrow> server_iter mtu t w;
        server_run mtu ts w
      })"

text \<open>The state in which \<open>main\<close> enters the loop.\<close>

definition world_start :: "(nat \<Rightarrow> bool) \<Rightarrow> int \<Rightarrow> world" where
  "world_start failing log_fd =
     \<lparr>w_srv = server_start failing, w_buf = replicate 1500 0, w_log = (log_fd, []), w_sent = []\<rparr>"

section \<open>One iteration\<close>

definition world_inv :: "world \<Rightarrow> bool" where
  "world_inv w \<longleftrightarrow> srv_inv (w_srv w) \<and> length (w_buf w) = 1500 \<and>
     (\<forall>p \<in> set (w_sent w). 0 < length p \<and> length p \<le> 1500)"

definition conn_count :: "world \<Rightarrow> nat" where
  "conn_count w = card (dom (conn_view (w_srv w)))"

text \<open>The buffer and length that an iteration hands to the stack.\<close>

abbreviation tick_read :: "tick \<Rightarrow> world \<Rightarrow> int \<times> buffer" where
  "tick_read t w \<equiv> tun_read (tk_packet t) (w_buf w) MTU_SIZE"

lemma tun_read_ok:
  assumes "length buf = 1500"
  shows "length (snd (tun_read p buf MTU_SIZE)) = 1500" "fst (tun_read p buf MTU_SIZE) \<le> 1500"
  using assms by (auto simp: tun_read_def Let_def split: option.splits)

lemma room_count: "srv_inv s \<Longrightarrow> room s \<longleftrightarrow> card (dom (conn_view s)) < 2147483648"
  using conn_ptrs_view(1) [of s] by (simp add: room_def srv_inv_def)

lemma LOG_EVENT_total:
  assumes "length b = 1500" "0 \<le> n" "n \<le> 1500"
  shows "\<exists>st'. LOG_EVENT (Some b) n dir e st = Some st'"
  using assms by (cases st) (simp add: op_simps)

lemma server_iter_ok:
  assumes "world_inv w" "conn_count w < 2147483648"
  shows "\<exists>w'. server_iter MTU_SIZE t w = Some w' \<and> world_inv w' \<and> conn_count w' \<le> conn_count w + 1 \<and>
    (conn_view (w_srv w') = conn_view (w_srv w) \<or>
     (\<exists>n b'. net_demux (w_srv w) (snd (tick_read t w)) (fst (tick_read t w)) (tk_amb t) = Some (n, b', w_srv w')))"
proof -
  have inv: "srv_inv (w_srv w)" "length (w_buf w) = 1500" using assms by (auto simp: world_inv_def)
  have room: "room (w_srv w)" using room_count [OF inv(1)] assms(2) by (simp add: conn_count_def)
  obtain n b where nb: "tick_read t w = (n, b)" by fastforce
  have b: "length b = 1500" "n \<le> 1500" using tun_read_ok [OF inv(2), of "tk_packet t"] nb by auto
  show ?thesis
  proof (cases "n > 0")
    case False
    with nb have "server_iter MTU_SIZE t w = Some (w\<lparr>w_buf := b\<rparr>)" by (simp add: server_iter_def)
    with assms b show ?thesis by (auto simp: world_inv_def conn_count_def)
  next
    case True
    obtain l where l: "LOG_EVENT (Some b) n LOG_READ (tk_log_read t) (w_log w) = Some l"
      using LOG_EVENT_total [OF b(1) less_imp_le [OF True] b(2)] by blast
    from net_demux_ok [OF inv(1) room, of b n "tk_amb t"] b obtain k b' s i where
      d: "net_demux (w_srv w) b n (tk_amb t) = Some (k, b', s)" "0 \<le> k" "k \<le> 1500" "length b' = 1500" "srv_inv s"
        "dom (conn_view s) \<subseteq> insert i (dom (conn_view (w_srv w)))" by (auto simp: received_def)
    obtain l' where l': "LOG_EVENT (Some b') k LOG_WRITE (tk_log_write t) l = Some l'"
      using LOG_EVENT_total [OF d(4) d(2,3)] by blast
    let ?w = "\<lparr>w_srv = s, w_buf = b', w_log = if k > 0 then l' else l,
      w_sent = if k > 0 then w_sent w @ [bytes_at b' 0 k] else w_sent w\<rparr>"
    have "server_iter MTU_SIZE t w = Some ?w"
      using True nb l l' d by (simp add: server_iter_def tun_write_def in_range_def)
    moreover have "length (bytes_at b' 0 k) = nat k" using d(2-4) by (simp add: in_range_def)
    then have "world_inv ?w" using assms(1) d by (auto simp: world_inv_def)
    moreover have "finite (dom (conn_view (w_srv w)))" using conn_ptrs_view(2) inv(1) by (simp add: srv_inv_def)
    then have "conn_count ?w \<le> conn_count w + 1"
      using card_mono [OF _ d(6)] by (auto simp: conn_count_def card_insert_if split: if_splits)
    ultimately show ?thesis using d(1) nb by auto
  qed
qed

section \<open>Whole runs\<close>

lemma world_inv_start: "world_inv (world_start failing fd)" "conn_count (world_start failing fd) = 0"
  using srv_inv_start [of failing] by (simp_all add: world_inv_def world_start_def conn_count_def)

lemma server_run_ok:
  "world_inv w \<Longrightarrow> conn_count w + length ts < 2147483648 \<Longrightarrow>
   \<exists>w'. server_run MTU_SIZE ts w = Some w' \<and> world_inv w'"
proof (induction ts arbitrary: w)
  case (Cons t ts)
  from server_iter_ok [OF Cons.prems(1), of t] Cons.prems(2) obtain w' where
    w': "server_iter MTU_SIZE t w = Some w'" "world_inv w'" "conn_count w' \<le> conn_count w + 1" by auto
  from Cons.IH [OF w'(2)] w'(3) Cons.prems(2) obtain w'' where
    "server_run MTU_SIZE ts w' = Some w''" "world_inv w''" by auto
  moreover obtain l where "LOG_EVENT None 0 LOG_SHUTDOWN (tk_log_read t) (w_log w) = Some l"
    using LOG_EVENT_null by blast
  ultimately show ?case using w'(1) Cons.prems(1) by (simp add: world_inv_def)
qed simp

text \<open>The segments a run delivers to the stack: identity and flags, in order of arrival.\<close>

fun delivered :: "tick list \<Rightarrow> world \<Rightarrow> (ID \<times> Flags) list" where
  "delivered [] w = []"
| "delivered (t # ts) w =
     (if tk_shutdown t then []
      else let b = snd (tick_read t w)
           in (seg_id b (ihl_of b), flags_of (tcp_flags (tcp_header b (ihl_of b)))) #
              (case server_iter MTU_SIZE t w of None \<Rightarrow> [] | Some w' \<Rightarrow> delivered ts w'))"

text \<open>The connections move along \<open>con_step\<close>, which is a handshake machine.\<close>

definition block_step :: "ID \<times> Flags \<Rightarrow> TCB option \<Rightarrow> TCB option \<Rightarrow> bool" where
  "block_step g a b \<longleftrightarrow> con_step (snd g) (map_option con_state a) (map_option con_state b)"

interpretation hs: handshake_machine block_step "\<lambda>t. con_state t = CON_SYN_RECEIVED" "\<lambda>t. con_state t = CON_ESTABLISHED"
proof unfold_locales
  fix g a and t :: TCB
  assume st: "block_step g a (Some t)"
  show "(\<exists>u. a = Some u \<and> con_state u = CON_SYN_RECEIVED) \<or> plain_syn (fst g) g" if "con_state t = CON_SYN_RECEIVED"
    using st that by (cases a) (auto simp: block_step_def plain_syn_def elim!: to_syn_received)
  show "(\<exists>u. a = Some u \<and> con_state u = CON_ESTABLISHED) \<or>
      (\<exists>u. a = Some u \<and> con_state u = CON_SYN_RECEIVED) \<and> plain_ack (fst g) g" if "con_state t = CON_ESTABLISHED"
    using st that by (cases a) (auto simp: block_step_def plain_ack_def elim!: to_established)
qed

lemma server_run_trace:
  "world_inv w \<Longrightarrow> conn_count w + length ts < 2147483648 \<Longrightarrow> server_run MTU_SIZE ts w = Some w' \<Longrightarrow>
   trace block_step (delivered ts w) (conn_view (w_srv w)) (conn_view (w_srv w'))"
proof (induction ts arbitrary: w)
  case (Cons t ts)
  show ?case
  proof (cases "tk_shutdown t")
    case True
    with Cons.prems show ?thesis by (auto simp: bind_eq_Some_conv intro: trace.start)
  next
    case False
    let ?b = "snd (tick_read t w)"
    let ?g = "(seg_id ?b (ihl_of ?b), flags_of (tcp_flags (tcp_header ?b (ihl_of ?b))))"
    from server_iter_ok [OF Cons.prems(1), of t] Cons.prems(2) obtain w1 where
      w1: "server_iter MTU_SIZE t w = Some w1" "world_inv w1" "conn_count w1 \<le> conn_count w + 1"
      and v: "conn_view (w_srv w1) = conn_view (w_srv w) \<or>
        (\<exists>n b'. net_demux (w_srv w) ?b (fst (tick_read t w)) (tk_amb t) = Some (n, b', w_srv w1))" by auto
    have inv: "srv_inv (w_srv w)" "received ?b (fst (tick_read t w))" "room (w_srv w)"
      using Cons.prems(1,2) tun_read_ok [of "w_buf w" "tk_packet t"] room_count [of "w_srv w"]
      by (auto simp: world_inv_def received_def conn_count_def)
    have "conn_view (w_srv w1) j = conn_view (w_srv w) j \<or>
        j = fst ?g \<and> block_step ?g (conn_view (w_srv w) j) (conn_view (w_srv w1) j)" for j
      using v net_demux_con_step [OF inv(1,3,2), of "tk_amb t"] by (auto simp: block_step_def states_def)
    from trace.more [OF this Cons.IH [OF w1(2)]] w1 Cons.prems(2,3) False show ?thesis by (simp add: Let_def)
  qed
qed (auto intro: trace.start)

section \<open>Properties\<close>

text \<open>
  C1: a server that is started and fed any packets, with any pattern of allocation failures, read
  errors and failing log writes, never performs an illegal memory access; it sends only packets
  of 1 to 1500 bytes, and at every moment the live control blocks are exactly the well-formed ones
  in the table. The bound is the number of packets after which a bucket could wrap.
\<close>

theorem server_run_safe:
  assumes "length ts < 2147483648"
  shows "\<exists>w'. server_run MTU_SIZE ts (world_start failing log_fd) = Some w' \<and> srv_inv (w_srv w') \<and>
    (\<forall>p \<in> set (w_sent w'). 0 < length p \<and> length p \<le> 1500)"
  using server_run_ok [OF world_inv_start(1), of failing log_fd ts] world_inv_start(2) assms
  by (auto simp: world_inv_def)

definition quiet_log :: log_env where
  "quiet_log = \<lparr>le_sec = 0, le_nsec = 0, le_write = Written\<rparr>"

definition tick_of :: "buffer \<Rightarrow> tick" where
  "tick_of p = \<lparr>tk_shutdown = False, tk_packet = Some p, tk_amb = quiet_ambient,
     tk_log_read = quiet_log, tk_log_write = quiet_log\<rparr>"

theorem server_run_safe_witness:
  "\<exists>w'. server_run MTU_SIZE [tick_of (take 40 syn_packet), tick_of (take 40 handshake_ack_packet)]
     (world_start (\<lambda>n. n = 7) 3) = Some w' \<and> srv_inv (w_srv w')"
  using server_run_safe [of "[tick_of (take 40 syn_packet), tick_of (take 40 handshake_ack_packet)]" "\<lambda>n. n = 7" 3]
  by (simp del: server_run.simps) blast

text \<open>
  C2: no connection without a handshake. In any run from the start, if a connection is ESTABLISHED
  then the stack received, in this order, a plain SYN and later an ACK without SYN and RST with
  exactly that connection's addresses and ports.
\<close>

theorem established_by_handshake:
  assumes "length ts < 2147483648" "server_run MTU_SIZE ts (world_start failing log_fd) = Some w'"
    and "states (conn_view (w_srv w')) i = Some CON_ESTABLISHED"
  shows "\<exists>H1 g H2. delivered ts (world_start failing log_fd) = H1 @ g # H2 \<and> plain_ack i g \<and>
    (\<exists>f \<in> set H1. plain_syn i f)"
proof -
  have "conn_view (w_srv (world_start failing log_fd)) = (\<lambda>i. None)"
    using srv_inv_start(2) [of failing] by (simp add: world_start_def)
  with server_run_trace [OF world_inv_start(1) _ assms(2)] assms(1) world_inv_start(2)
  have tr: "trace block_step (delivered ts (world_start failing log_fd)) (\<lambda>i. None) (conn_view (w_srv w'))" by simp
  from assms(3) obtain t where "conn_view (w_srv w') i = Some t" "con_state t = CON_ESTABLISHED" by (auto simp: states_def)
  from hs.connected_has_handshake [OF tr this] show ?thesis by (simp add: handshake_in_def)
qed

lemma bytes_after_syn_ack:
  "segment_at b len off \<Longrightarrow> bytes_at (syn_ack b len off t) (off + 20) n = bytes_at b (off + 20) n"
  using segment_atD [of b len off]
  by (simp add: syn_ack_def Let_def reply_ip_def reply_fields_def ports_swapped_def mem_simps)

lemma read_over_zeros:
  assumes "length p = 40" "length b = 1500" "bytes_at b 40 1460 = replicate 1460 0"
  shows "tun_read (Some p) b MTU_SIZE = (40, p @ replicate 1460 0)"
  using assms by (simp add: tun_read_def bytes_at_def)

lemma handshake_packets_valid: "ip_validate syn_packet 40 = Some 1" "ip_validate handshake_ack_packet 40 = Some 1"
  "peek8 syn_packet 9 = 6" "peek8 handshake_ack_packet 9 = 6" "ihl_of syn_packet = 20" "ihl_of handshake_ack_packet = 20"
  by code_simp+

lemma sample_run:
  "\<exists>w'. server_run MTU_SIZE [tick_of (take 40 syn_packet), tick_of (take 40 handshake_ack_packet)]
     (world_start (\<lambda>n. False) (-1)) = Some w' \<and>
   states (conn_view (w_srv w')) (sample_id\<lparr>id_dst_port := 8080\<rparr>) = Some CON_ESTABLISHED"
proof -
  let ?i = "sample_id\<lparr>id_dst_port := 8080\<rparr>" and ?w = "world_start (\<lambda>n. False) (-1)"
  let ?t = "syn_received (fresh_tcb ?i) (tcp_header syn_packet 20) (tcp_gen_iss quiet_ambient)"
  have len: "length syn_packet = 1500" "length handshake_ack_packet = 1500"
    by (simp_all add: syn_packet_def handshake_ack_packet_def)
  have "tcp_spec Map.empty ?i (tcp_header syn_packet 20) (tcp_gen_iss quiet_ambient) = (Syn_Ack ?t, [?i \<mapsto> ?t])"
    using syn_packet_ok by (simp add: tcp_spec_def Let_def fresh_tcb_def)
  with tcp_dispatch_ok [OF idle_ok(1,2), of syn_packet 40 20 quiet_ambient] syn_packet_ok(1,2,6) idle_ok(3,4)
  obtain s1 where s1: "tcp_dispatch idle syn_packet 40 20 quiet_ambient = Some (40, syn_ack syn_packet 40 20 ?t, s1)"
    "srv_inv s1" "conn_view s1 = [?i \<mapsto> ?t]" "oom s1 = oom idle" by (auto simp: carries_def tcp_valid_iff)
  have "tun_read (Some (take 40 syn_packet)) (w_buf ?w) 1500 = (40, syn_packet)"
    by (simp add: tun_read_def world_start_def syn_packet_def)
  moreover have "net_demux idle syn_packet 40 quiet_ambient = Some (40, syn_ack syn_packet 40 20 ?t, s1)"
    using s1(1) handshake_packets_valid len by (simp add: net_demux_eq received_def)
  ultimately obtain w1 where w1: "server_iter MTU_SIZE (tick_of (take 40 syn_packet)) ?w = Some w1" "w_srv w1 = s1"
      "w_buf w1 = syn_ack syn_packet 40 20 ?t" "w_log w1 = (-1, [])"
    using len by (simp add: server_iter_def tick_of_def world_start_def LOG_EVENT_def VERBOSE_def tun_write_def in_range_def)
  have room: "room s1" using room_count [OF s1(2)] s1(3) by simp
  have gi: "tcp_gen_iss quiet_ambient = 5000" by (simp add: tcp_gen_iss_def quiet_ambient_def)
  then have "tcp_spec [?i \<mapsto> ?t] ?i (tcp_header handshake_ack_packet 20) iss = (No_Reply, [?i \<mapsto> established ?t])" for iss
    using handshake_ack_ok by (simp add: tcp_spec_def Let_def syn_received_def)
  with tcp_dispatch_ok [OF s1(2) room, of handshake_ack_packet 40 20 quiet_ambient] handshake_ack_ok(1,2) s1(3,4) idle_ok(4)
  obtain s2 where s2: "tcp_dispatch s1 handshake_ack_packet 40 20 quiet_ambient = Some (0, handshake_ack_packet, s2)"
    "conn_view s2 = [?i \<mapsto> established ?t]" by (auto simp: carries_def tcp_valid_iff)
  have "bytes_at syn_packet 40 1460 = replicate 1460 0" by (simp add: bytes_at_def syn_packet_def)
  then have "bytes_at (w_buf w1) 40 1460 = replicate 1460 0"
    using w1(3) bytes_after_syn_ack [OF packets_at(1), of ?t 1460] by simp
  then have "tun_read (Some (take 40 handshake_ack_packet)) (w_buf w1) 1500 = (40, take 40 handshake_ack_packet @ replicate 1460 0)"
    using w1(3) len by (intro read_over_zeros) simp_all
  also have "take 40 handshake_ack_packet @ replicate 1460 0 = handshake_ack_packet"
    by (simp add: handshake_ack_packet_def)
  finally have rd: "tun_read (Some (take 40 handshake_ack_packet)) (w_buf w1) 1500 = (40, handshake_ack_packet)" .
  have "net_demux s1 handshake_ack_packet 40 quiet_ambient = Some (0, handshake_ack_packet, s2)"
    using s2(1) handshake_packets_valid len by (simp add: net_demux_eq received_def)
  with rd w1 obtain w2 where "server_iter MTU_SIZE (tick_of (take 40 handshake_ack_packet)) w1 = Some w2" "w_srv w2 = s2"
    by (simp add: server_iter_def tick_of_def LOG_EVENT_def VERBOSE_def)
  with w1(1) s2(2) show ?thesis by (auto simp: states_def established_def tick_of_def)
qed

theorem established_by_handshake_witness:
  "\<exists>H1 g H2. delivered [tick_of (take 40 syn_packet), tick_of (take 40 handshake_ack_packet)]
      (world_start (\<lambda>n. False) (-1)) = H1 @ g # H2 \<and> plain_ack (sample_id\<lparr>id_dst_port := 8080\<rparr>) g"
proof -
  from sample_run obtain w' where w': "server_run MTU_SIZE [tick_of (take 40 syn_packet), tick_of (take 40 handshake_ack_packet)]
     (world_start (\<lambda>n. False) (-1)) = Some w'"
   "states (conn_view (w_srv w')) (sample_id\<lparr>id_dst_port := 8080\<rparr>) = Some CON_ESTABLISHED" by blast
  show ?thesis
    using established_by_handshake [OF _ w'] by (simp del: server_run.simps delivered.simps) blast
qed

end
