(* ===== verification/Startup.thy ===== *)
theory Startup
  imports Server Tun
begin

text \<open>
  \<open>main\<close> of \<open>refactor/main.c\<close>: argument checks, device and log set-up, the server loop and the
  clean-up. The program's exits are values of \<open>main_exit\<close>; a list of ticks without a shutdown
  leaves the program in its loop, the value \<open>Running\<close>. Printing a null string is a fault. The heap
  blocks counted are those of the device, the stream that \<open>log_init\<close> opens, the control blocks and
  the arrays of the connection table. The signal dispositions are left out.
\<close>

section \<open>Operation\<close>

abbreviation (input) INET_ADDRSTRLEN :: nat where "INET_ADDRSTRLEN \<equiv> 16"
abbreviation (input) IFNAMSIZ :: nat where "IFNAMSIZ \<equiv> 16"

datatype usage_error = Too_few_arguments | Argument_too_long | Tun_failed | Log_failed
datatype main_exit = Exit_failure usage_error | Returned world | Running world

definition strncpy :: "string \<Rightarrow> nat \<Rightarrow> string" where
  "strncpy s n = take n s"

text \<open>The message about the device: its name, address and descriptor, two of them through pointers.\<close>

definition banner :: "Tun \<Rightarrow> (string \<times> string \<times> int) option" where
  "banner tun = do { name \<leftarrow> tun_name tun; ip \<leftarrow> tun_ip tun; Some (name, ip, tun_fd tun) }"

text \<open>The heap blocks that the stack itself holds: control blocks and table arrays.\<close>

definition control_blocks :: "server \<Rightarrow> nat" where
  "control_blocks s = live_cells (heap s) (nalloc s)"

definition stopped :: "tick list \<Rightarrow> bool" where
  "stopped ts = list_ex tk_shutdown ts"

text \<open>
  The last part, with the device and the log in place: the loop and the clean-up. What the loop
  allocated and did not free is counted when it is left.
\<close>

definition main_serve :: "Tun \<Rightarrow> int \<Rightarrow> (nat \<Rightarrow> bool) \<Rightarrow> tick list \<Rightarrow> os \<Rightarrow> (main_exit \<times> os) option" where
  "main_serve tun g_log_fd failing ts k = do {
     w \<leftarrow> server_run MTU_SIZE ts (world_start failing g_log_fd);
     let k = os_hold (control_blocks (w_srv w) + arrays (w_srv w)) k;
     if \<not> stopped ts then Some (Running w, k)
     else do {
       let k = (if VERBOSE (fst (w_log w)) then os_close (fst (w_log w)) k else k);
       Some (Returned w, tun_destroy (Some tun) k)
     }
   }"

definition main ::
  "string list \<Rightarrow> tun_env \<Rightarrow> log_setup \<Rightarrow> (nat \<Rightarrow> bool) \<Rightarrow> tick list \<Rightarrow> os \<Rightarrow> (main_exit \<times> os) option" where
  "main argv te ls failing ts k =
     (if length argv < 3 then Some (Exit_failure Too_few_arguments, k)
      else if length (argv ! 1) \<ge> INET_ADDRSTRLEN \<or> length (argv ! 2) \<ge> IFNAMSIZ
      then Some (Exit_failure Argument_too_long, k)
      else
        let ip = strncpy (argv ! 1) (INET_ADDRSTRLEN - 1);
            name = strncpy (argv ! 2) (IFNAMSIZ - 1);
            verbose = (length argv > 3 \<and> argv ! 3 = ''vb'')
        in case tun_init te name ip k of
             (None, k) \<Rightarrow> Some (Exit_failure Tun_failed, k)
           | (Some tun, k) \<Rightarrow>
               if verbose
               then let (g_log_fd, k) = log_init ls k
                    in if \<not> VERBOSE g_log_fd
                       then Some (Exit_failure Log_failed, tun_destroy (Some tun) k)
                       else do {
                         msg \<leftarrow> banner tun;
                         main_serve tun g_log_fd failing ts k
                       }
               else main_serve tun (-1) failing ts k)"

section \<open>Lemmas\<close>

text \<open>The stream that \<open>log_init\<close> leaves behind.\<close>

definition stream_of :: "log_setup \<Rightarrow> int multiset" where
  "stream_of ls = (case ls_fopen ls of None \<Rightarrow> {#} | Some f \<Rightarrow> {#f#})"

lemma log_init_held:
  assumes "log_init ls k = (fd, k')"
  shows "os_blocks k' = os_blocks k + size (stream_of ls)"
    "os_fds k' = os_fds k + stream_of ls + (if VERBOSE fd then {#ls_open ls#} else {#})" "VERBOSE fd \<Longrightarrow> fd = ls_open ls"
  using assms by (auto simp: log_init_def stream_of_def VERBOSE_def Let_def os_defs split: option.splits if_splits)

text \<open>The log descriptor is kept or switched off, never replaced.\<close>

lemma LOG_EVENT_fd: "LOG_EVENT tu n dir e st = Some st' \<Longrightarrow> fst st' = fst st \<or> fst st' = -1"
  by (cases st; cases "le_write e") (auto simp: LOG_EVENT_def log_event_def Let_def bind_eq_Some_conv
      split: if_splits option.splits)

lemma server_iter_fd:
  assumes "server_iter mtu t w = Some w'"
  shows "fst (w_log w') = fst (w_log w) \<or> fst (w_log w') = -1"
  using assms
  by (auto simp: server_iter_def Let_def bind_eq_Some_conv split: if_splits prod.splits dest!: LOG_EVENT_fd)

lemma server_run_fd: "server_run mtu ts w = Some w' \<Longrightarrow> fst (w_log w') = fst (w_log w) \<or> fst (w_log w') = -1"
proof (induction ts arbitrary: w)
  case (Cons t ts)
  then show ?case
    by (auto simp: bind_eq_Some_conv split: if_splits dest!: LOG_EVENT_fd server_iter_fd)
qed simp

lemma control_blocks_eq:
  assumes "srv_inv s"
  shows "control_blocks s = card (dom (conn_view s))"
proof -
  have mem: "srv_mem s" using assms by (simp add: srv_inv_def)
  then have "mem_ok s" "dom (heap s) = set (conn_ptrs s)" "distinct (conn_ptrs s)"
    by (cases "g_tbl_init s"; auto simp: srv_mem_def tbl_inv_def conn_ptrs_def)+
  then show ?thesis
    using conn_ptrs_view(1) [OF mem] by (simp add: control_blocks_def live_cells_card mem_ok_def distinct_card)
qed

text \<open>Destroying the device, after blocks and descriptors were added to those it held.\<close>

lemma tun_destroy_held:
  assumes "tun_init e name ip k = (Some t, k1)" "os_blocks k2 = os_blocks k1 + n" "os_fds k2 = os_fds k1 + F"
  shows "os_blocks (tun_destroy (Some t) k2) = os_blocks k + n" "os_fds (tun_destroy (Some t) k2) = os_fds k + F"
proof -
  have "os_fds k1 = add_mset (tun_fd t) (os_fds k)"
    using tun_init_frame [where e = e and name = name and ip = ip and k = k] assms(1) by simp
  with tun_init_held(1) [OF assms(1)] assms(2,3)
  show "os_blocks (tun_destroy (Some t) k2) = os_blocks k + n" "os_fds (tun_destroy (Some t) k2) = os_fds k + F"
    by (auto simp: tun_destroy_def os_defs)
qed

text \<open>What is held when the loop was left or is still running; \<open>k2\<close> holds the log's descriptor.\<close>

lemma main_serve_held:
  assumes "length ts < 2147483648" "tun_init e name ip k = (Some t, k1)"
    and k2: "os_blocks k2 = os_blocks k1 + n" "os_fds k2 = os_fds k1 + F + (if VERBOSE fd then {#fd#} else {#})"
  shows "\<exists>w. srv_inv (w_srv w) \<and> (fst (w_log w) = fd \<or> fst (w_log w) = -1) \<and>
    (if stopped ts
     then \<exists>k'. main_serve t fd failing ts k2 = Some (Returned w, k') \<and>
       os_blocks k' = os_blocks k + n + control_blocks (w_srv w) + arrays (w_srv w) \<and>
       os_fds k' = os_fds k + F + (if VERBOSE fd \<and> fst (w_log w) = -1 then {#fd#} else {#})
     else \<exists>k'. main_serve t fd failing ts k2 = Some (Running w, k') \<and>
       os_blocks k' = os_blocks k2 + control_blocks (w_srv w) + arrays (w_srv w) \<and> os_fds k' = os_fds k2)"
proof -
  from server_run_ok [OF world_inv_start(1), of failing fd ts] world_inv_start(2) assms(1) obtain w where
    w: "server_run MTU_SIZE ts (world_start failing fd) = Some w" "world_inv w" by auto
  have fd: "fst (w_log w) = fd \<or> fst (w_log w) = -1"
    using server_run_fd [OF w(1)] by (simp add: world_start_def)
  let ?m = "control_blocks (w_srv w) + arrays (w_srv w)"
  let ?k = "if VERBOSE (fst (w_log w)) then os_close (fst (w_log w)) (os_hold ?m k2) else os_hold ?m k2"
  have run: "main_serve t fd failing ts k2 =
      (if stopped ts then Some (Returned w, tun_destroy (Some t) ?k) else Some (Running w, os_hold ?m k2))"
    using w(1) by (simp add: main_serve_def)
  have "os_blocks ?k = os_blocks k1 + (n + ?m)" using k2 by (simp add: os_defs)
  moreover have "os_fds ?k = os_fds k1 + (F + (if VERBOSE fd \<and> fst (w_log w) = -1 then {#fd#} else {#}))"
    using fd k2(2) by (auto simp: os_defs VERBOSE_def)
  ultimately have "os_blocks (tun_destroy (Some t) ?k) = os_blocks k + (n + ?m)"
    "os_fds (tun_destroy (Some t) ?k) = os_fds k + (F + (if VERBOSE fd \<and> fst (w_log w) = -1 then {#fd#} else {#}))"
    by (rule tun_destroy_held [OF assms(2)])+
  with run w(2) fd show ?thesis
    by (intro exI [of _ w]) (auto simp: world_inv_def os_defs)
qed

lemma banner_None: "banner t = None \<longleftrightarrow> tun_name t = None \<or> tun_ip t = None"
  by (cases "tun_name t"; cases "tun_ip t") (simp_all add: banner_def)

text \<open>The arguments the program accepts, and the request for verbose mode.\<close>

definition args_ok :: "string list \<Rightarrow> bool" where
  "args_ok argv \<longleftrightarrow> 3 \<le> length argv \<and> length (argv ! 1) < 16 \<and> length (argv ! 2) < 16"

definition wants_log :: "string list \<Rightarrow> bool" where
  "wants_log argv \<longleftrightarrow> 3 < length argv \<and> argv ! 3 = ''vb''"

lemma main_served:
  assumes "args_ok argv" "tun_init te (argv ! 2) (argv ! 1) k = (Some t, k1)"
  shows "main argv te ls failing ts k =
    (if \<not> wants_log argv then main_serve t (-1) failing ts k1
     else case log_init ls k1 of (fd, k2) \<Rightarrow>
       if \<not> VERBOSE fd then Some (Exit_failure Log_failed, tun_destroy (Some t) k2)
       else if banner t = None then None else main_serve t fd failing ts k2)"
  using assms by (cases "banner t") (auto simp: main_def args_ok_def wants_log_def strncpy_def Let_def split: prod.split)

lemma main_refused:
  assumes "\<not> args_ok argv \<or> tun_init te (argv ! 2) (argv ! 1) k = (None, k1)"
  shows "\<exists>e k'. main argv te ls failing ts k = Some (Exit_failure e, k') \<and> e \<noteq> Log_failed \<and>
    os_blocks k' = os_blocks k \<and> os_fds k' = os_fds k"
  using assms tun_init_frame [where e = te and name = "argv ! 2" and ip = "argv ! 1" and k = k]
  by (auto simp: main_def args_ok_def strncpy_def Let_def not_less)

section \<open>Properties\<close>

text \<open>
  C28: what the program holds when it ends, whatever the arguments, the system calls and the
  packets. The device's descriptor and blocks are given back on every exit. Beyond that the
  stream that \<open>log_init\<close> opened stays open, on its failure exit too; on a normal exit the
  control block of every connection still in the table and the table's arrays stay allocated, and
  the descriptor of a log that a failed write switched off stays open. Without a shutdown request
  the program stays in its loop, with the server's invariant. It faults in exactly one case: in
  verbose mode, with the device and the log in place, when the name or the address could not
  be duplicated and the message about the device prints a null pointer.
\<close>

theorem main_resources:
  assumes "length ts < 2147483648"
  shows "(main argv te ls failing ts k = None \<longleftrightarrow> args_ok argv \<and> wants_log argv \<and>
      (\<not> te_strdup_name te \<or> \<not> te_strdup_ip te) \<and>
      (\<exists>t k1. tun_init te (argv ! 2) (argv ! 1) k = (Some t, k1) \<and> VERBOSE (fst (log_init ls k1)))) \<and>
    (case main argv te ls failing ts k of
      None \<Rightarrow> True
    | Some (Exit_failure e, k') \<Rightarrow>
        os_blocks k' = os_blocks k + (if e = Log_failed then size (stream_of ls) else 0) \<and>
        os_fds k' = os_fds k + (if e = Log_failed then stream_of ls else {#})
    | Some (Running w, k') \<Rightarrow> \<not> stopped ts \<and> srv_inv (w_srv w)
    | Some (Returned w, k') \<Rightarrow> stopped ts \<and> srv_inv (w_srv w) \<and>
        os_blocks k' = os_blocks k + (if wants_log argv then size (stream_of ls) else 0) +
          card (dom (conn_view (w_srv w))) + arrays (w_srv w) \<and>
        os_fds k' = os_fds k + (if \<not> wants_log argv then {#}
          else stream_of ls + (if fst (w_log w) = -1 then {#ls_open ls#} else {#})))"
    (is "?fault \<and> ?held")
proof -
  obtain t k1 where t: "tun_init te (argv ! 2) (argv ! 1) k = (t, k1)" by fastforce
  obtain fd k2 where l: "log_init ls k1 = (fd, k2)" by fastforce
  show ?thesis
  proof (cases "args_ok argv \<and> t \<noteq> None")
    case False
    with main_refused [of argv te k k1 ls failing ts] t show ?thesis by auto
  next
    case True
    then obtain tn where tn: "t = Some tn" and a: "args_ok argv" by auto
    note t' = t [unfolded tn]
    note main = main_served [OF a t', of ls failing ts] and held = log_init_held [OF l]
    have strs: "banner tn = None \<longleftrightarrow> \<not> te_strdup_name te \<or> \<not> te_strdup_ip te"
      by (simp add: banner_None tun_init_held(2,3) [OF t'] strdup_def)
    consider "\<not> wants_log argv" | "wants_log argv" "\<not> VERBOSE fd" | "wants_log argv" "VERBOSE fd" "banner tn = None"
      | "wants_log argv" "VERBOSE fd" "banner tn \<noteq> None" by blast
    then show ?thesis
    proof cases
      case 1
      then show ?thesis
        using main_serve_held [OF assms t', of k1 0 "{#}" "-1" failing] main
        by (auto simp: VERBOSE_def control_blocks_eq split: if_splits)
    next
      case 2
      then show ?thesis
        using tun_destroy_held [OF t' held(1), of "stream_of ls"] held main l t tn by simp
    next
      case 3
      then show ?thesis using main l t' a strs by auto
    next
      case 4
      then show ?thesis
        using main_serve_held [OF assms t' held(1), of "stream_of ls" fd failing] held main l strs
        by (auto simp: control_blocks_eq split: if_splits)
    qed
  qed
qed

definition sample_tun_env :: tun_env where
  "sample_tun_env = \<lparr>te_open = 3, te_ioctl = (\<lambda>f n. 0), te_ifr_name = (\<lambda>n. n), te_malloc = True, te_strdup_name = True,
     te_strdup_ip = True, te_add_sock = 4, te_add_send = 32, te_wake_sock = 4, te_wake_send = 32,
     te_index = (\<lambda>n. 7), te_inet_pton = (\<lambda>a. Some 0x0a080001)\<rparr>"

definition sample_log_setup :: log_setup where
  "sample_log_setup = \<lparr>ls_fopen = Some 5, ls_mkfifo = 0, ls_open = 6\<rparr>"

definition sample_os :: os where
  "sample_os = \<lparr>os_fds = {#}, os_blocks = 0, os_sent = []\<rparr>"

abbreviation (input) sample_argv :: "string list" where
  "sample_argv \<equiv> [''server'', ''10.8.0.1'', ''tun0'', ''vb'']"

lemma sample_tun_init:
  "\<exists>t k1. tun_init (sample_tun_env\<lparr>te_strdup_ip := b\<rparr>) ''tun0'' ''10.8.0.1'' sample_os = (Some t, k1) \<and>
     (banner t = None \<longleftrightarrow> \<not> b)"
  by (simp add: tun_init_def tun_alloc_def tun_ip_add_def tun_ip_wake_def Let_def sample_tun_env_def strdup_def banner_None)

lemma sample_main_returns:
  "\<exists>w k'. main sample_argv (sample_tun_env\<lparr>te_strdup_ip := True\<rparr>) sample_log_setup (\<lambda>n. False)
     [tick_of (take 40 syn_packet), server_shutdown (tick_of [])] sample_os = Some (Returned w, k')"
proof -
  let ?ts = "[tick_of (take 40 syn_packet), server_shutdown (tick_of [])]"
  from sample_tun_init [of True] obtain t k1 where
    t: "tun_init (sample_tun_env\<lparr>te_strdup_ip := True\<rparr>) ''tun0'' ''10.8.0.1'' sample_os = (Some t, k1)"
    and b: "banner t \<noteq> None" by auto
  obtain k2 where l: "log_init sample_log_setup k1 = (6, k2)" by (simp add: log_init_def sample_log_setup_def Let_def)
  have "main sample_argv (sample_tun_env\<lparr>te_strdup_ip := True\<rparr>) sample_log_setup (\<lambda>n. False) ?ts sample_os =
      main_serve t 6 (\<lambda>n. False) ?ts k2"
    using main_served [of sample_argv, OF _ _ , of _ sample_os t k1] t l b
    by (auto simp: args_ok_def wants_log_def VERBOSE_def)
  moreover have "stopped ?ts" by (simp add: stopped_def server_shutdown_def)
  ultimately show ?thesis
    using main_serve_held [OF _ t log_init_held(1) [OF l], of ?ts "stream_of sample_log_setup" 6 "\<lambda>n. False"] log_init_held [OF l]
    by (auto simp: VERBOSE_def)
qed

theorem main_resources_witness:
  "(\<exists>w k'. main sample_argv (sample_tun_env\<lparr>te_strdup_ip := True\<rparr>) sample_log_setup (\<lambda>n. False)
     [tick_of (take 40 syn_packet), server_shutdown (tick_of [])] sample_os = Some (Returned w, k') \<and>
     os_blocks k' = 1 + card (dom (conn_view (w_srv w))) + arrays (w_srv w) \<and> 5 \<in># os_fds k' \<and> 3 \<notin># os_fds k') \<and>
   main sample_argv (sample_tun_env\<lparr>te_strdup_ip := False\<rparr>) sample_log_setup (\<lambda>n. False) [] sample_os = None"
proof
  obtain w k' where m: "main sample_argv (sample_tun_env\<lparr>te_strdup_ip := True\<rparr>) sample_log_setup (\<lambda>n. False)
     [tick_of (take 40 syn_packet), server_shutdown (tick_of [])] sample_os = Some (Returned w, k')"
    using sample_main_returns by blast
  with main_resources [of "[tick_of (take 40 syn_packet), server_shutdown (tick_of [])]" sample_argv
      "sample_tun_env\<lparr>te_strdup_ip := True\<rparr>" sample_log_setup "\<lambda>n. False" sample_os]
  show "\<exists>w k'. main sample_argv (sample_tun_env\<lparr>te_strdup_ip := True\<rparr>) sample_log_setup (\<lambda>n. False)
     [tick_of (take 40 syn_packet), server_shutdown (tick_of [])] sample_os = Some (Returned w, k') \<and>
     os_blocks k' = 1 + card (dom (conn_view (w_srv w))) + arrays (w_srv w) \<and> 5 \<in># os_fds k' \<and> 3 \<notin># os_fds k'"
    by (auto simp: wants_log_def stream_of_def sample_log_setup_def sample_os_def)
  show "main sample_argv (sample_tun_env\<lparr>te_strdup_ip := False\<rparr>) sample_log_setup (\<lambda>n. False) [] sample_os = None"
    using main_resources [of "[]" sample_argv "sample_tun_env\<lparr>te_strdup_ip := False\<rparr>" sample_log_setup "\<lambda>n. False" sample_os]
      sample_tun_init [of False]
    by (auto simp: args_ok_def wants_log_def log_init_def sample_log_setup_def VERBOSE_def Let_def)
qed

end
