(* ===== verification/Thread_Pool.thy ===== *)
theory Thread_Pool
  imports Prelude
begin

text \<open>
  \<open>thread_pool/thread_pool.c\<close>: a bounded queue of jobs guarded by a mutex, and worker threads
  that sleep on a condition variable. The queue is the array \<open>operations\<close> with its counter; the
  contract \<open>bounded_queue\<close> says it is a first-in first-out queue. The threads are a step relation:
  every critical section is one step, because the mutex excludes the others, and the signal that
  \<open>job_enqueue\<close> sends after it released the mutex is a step of its own.
\<close>

section \<open>The queue\<close>

record Job =
  host_fd :: int
  client_fd :: int
  kq :: int

abbreviation (input) LOAD_BOUND :: nat where "LOAD_BOUND \<equiv> 1280"

record job_queue =
  operations :: "Job list"
  job_count :: nat

text \<open>The zero-initialised globals.\<close>

definition queue_start :: job_queue where
  "queue_start = \<lparr>operations = replicate LOAD_BOUND \<lparr>host_fd = 0, client_fd = 0, kq = 0\<rparr>, job_count = 0\<rparr>"

text \<open>The critical section of \<open>job_enqueue\<close>: whether the queue was full, and the new queue.\<close>

definition job_enqueue :: "Job \<Rightarrow> job_queue \<Rightarrow> (bool \<times> job_queue) option" where
  "job_enqueue op q =
     (if job_count q < LOAD_BOUND - 1
      then if job_count q < length (operations q)
           then Some (False, q\<lparr>operations := (operations q)[job_count q := op], job_count := job_count q + 1\<rparr>)
           else None
      else Some (True, q))"

text \<open>The loop of \<open>thread_pool_start\<close> that moves the remaining jobs one place down.\<close>

function shift_down :: "Job list \<Rightarrow> nat \<Rightarrow> nat \<Rightarrow> Job list option" where
  "shift_down ops n i =
     (if i < n - 1
      then if i + 1 < length ops then shift_down (ops[i := ops ! (i + 1)]) n (i + 1) else None
      else Some ops)"
  by pat_completeness auto
termination
  by (relation "measure (\<lambda>(ops, n, i). n - i)") auto

declare shift_down.simps [simp del]

text \<open>The critical section of a worker that found the queue not empty.\<close>

definition job_take :: "job_queue \<Rightarrow> (Job \<times> job_queue) option" where
  "job_take q =
     (if operations q = [] then None
      else do {
        let job = operations q ! 0;
        ops \<leftarrow> shift_down (operations q) (job_count q) 0;
        Some (job, q\<lparr>operations := ops, job_count := job_count q - 1\<rparr>)
      })"

definition job_handle :: "Job \<Rightarrow> int" where
  "job_handle op = 0"

section \<open>The contract of a bounded queue\<close>

locale bounded_queue =
  fixes invar :: "'q \<Rightarrow> bool"
    and elems :: "'q \<Rightarrow> 'a list"
    and capacity :: nat
    and enqueue :: "'a \<Rightarrow> 'q \<Rightarrow> (bool \<times> 'q) option"
    and dequeue :: "'q \<Rightarrow> ('a \<times> 'q) option"
  assumes bounded: "invar q \<Longrightarrow> length (elems q) \<le> capacity"
    and enqueue_full: "invar q \<Longrightarrow> length (elems q) = capacity \<Longrightarrow> enqueue x q = Some (True, q)"
    and enqueue_room: "invar q \<Longrightarrow> length (elems q) < capacity \<Longrightarrow>
      \<exists>q'. enqueue x q = Some (False, q') \<and> invar q' \<and> elems q' = elems q @ [x]"
    and dequeue_head: "invar q \<Longrightarrow> elems q = x # xs \<Longrightarrow>
      \<exists>q'. dequeue q = Some (x, q') \<and> invar q' \<and> elems q' = xs"
begin

lemma enqueue_total:
  assumes "invar q"
  shows "\<exists>busy q'. enqueue x q = Some (busy, q') \<and> invar q' \<and>
    elems q' = (if busy then elems q else elems q @ [x]) \<and> busy = (length (elems q) = capacity)"
  using enqueue_full [OF assms, of x] enqueue_room [OF assms, of x] bounded [OF assms] assms
  by (cases "length (elems q) = capacity") auto

text \<open>What was put into an empty queue comes out in order.\<close>

lemma enqueue_dequeue:
  assumes "invar q" "elems q = []" "0 < capacity" "enqueue x q = Some (busy, q')"
  shows "\<not> busy \<and> (\<exists>q''. dequeue q' = Some (x, q'') \<and> elems q'' = [])"
  using enqueue_total [OF assms(1), of x] dequeue_head [of q' x "[]"] assms by auto

end

definition queue_ok :: "job_queue \<Rightarrow> bool" where
  "queue_ok q \<longleftrightarrow> length (operations q) = LOAD_BOUND \<and> job_count q \<le> LOAD_BOUND - 1"

definition jobs :: "job_queue \<Rightarrow> Job list" where
  "jobs q = take (job_count q) (operations q)"

text \<open>After the loop has run from \<open>i\<close>, the places from \<open>i\<close> on hold their right neighbours.\<close>

lemma shift_down_eq:
  assumes "n \<le> length ops" "i < n"
  shows "shift_down ops n i = Some (take i ops @ drop (i + 1) (take n ops) @ drop (n - 1) ops)"
  using assms
proof (induction ops n i rule: shift_down.induct)
  case (1 ops n i)
  show ?case
  proof (cases "i < n - 1")
    case False
    with 1 have i: "i = n - 1" "0 < n" by auto
    with 1 show ?thesis by (subst shift_down.simps) simp
  next
    case True
    let ?o = "ops[i := ops ! (i + 1)]"
    have "shift_down ?o n (i + 1) = Some (take (i + 1) ?o @ drop (i + 2) (take n ?o) @ drop (n - 1) ?o)"
      using "1.IH" [OF True] True 1(2) by simp
    moreover have "take (i + 1) ?o @ drop (i + 2) (take n ?o) @ drop (n - 1) ?o =
        take i ops @ drop (i + 1) (take n ops) @ drop (n - 1) ops"
    proof -
      have "take (i + 1) ?o = take i ops @ [ops ! (i + 1)]"
        using True 1(2) by (simp add: take_Suc_conv_app_nth)
      moreover have "drop (i + 1) (take n ops) = ops ! (i + 1) # drop (i + 2) (take n ops)"
        using True 1(2) by (subst Cons_nth_drop_Suc [symmetric]) auto
      moreover have "drop (i + 2) (take n ?o) = drop (i + 2) (take n ops)" "drop (n - 1) ?o = drop (n - 1) ops"
        using True by (simp_all add: take_update_swap)
      ultimately show ?thesis by simp
    qed
    ultimately show ?thesis
      using True 1(2) by (simp add: shift_down.simps [of ops n i])
  qed
qed

lemma job_take_eq:
  assumes "queue_ok q" "jobs q = x # xs"
  shows "\<exists>q'. job_take q = Some (x, q') \<and> queue_ok q' \<and> jobs q' = xs"
proof -
  let ?n = "job_count q" and ?o = "operations q"
  have "?n \<noteq> 0" using assms(2) by (metis jobs_def list.distinct(1) take_0)
  then have n: "0 < ?n" "?n \<le> length ?o" "?o \<noteq> []" using assms by (auto simp: queue_ok_def jobs_def)
  let ?r = "drop 1 (take ?n ?o) @ drop (?n - 1) ?o"
  have s: "shift_down ?o ?n 0 = Some ?r"
    using shift_down_eq [OF n(2,1)] by simp
  have hd: "?o ! 0 = x" and tl: "drop 1 (take ?n ?o) = xs"
    using assms n by (cases ?o; cases ?n; auto simp: jobs_def)+
  have len: "length xs = ?n - 1" "length ?r = length ?o"
    using n tl by auto
  show ?thesis
    using assms(1) n s hd tl len by (auto simp: job_take_def queue_ok_def jobs_def)
qed

interpretation jq: bounded_queue queue_ok jobs "LOAD_BOUND - 1" job_enqueue job_take
proof unfold_locales
  fix q :: job_queue and x :: Job and xs :: "Job list"
  assume ok: "queue_ok q"
  show "length (jobs q) \<le> LOAD_BOUND - 1" using ok by (auto simp: queue_ok_def jobs_def)
  show "job_enqueue x q = Some (True, q)" if "length (jobs q) = LOAD_BOUND - 1"
    using ok that by (auto simp: queue_ok_def jobs_def job_enqueue_def)
  show "\<exists>q'. job_enqueue x q = Some (False, q') \<and> queue_ok q' \<and> jobs q' = jobs q @ [x]"
    if "length (jobs q) < LOAD_BOUND - 1"
    using ok that by (auto simp: queue_ok_def jobs_def job_enqueue_def take_Suc_conv_app_nth)
  show "\<exists>q'. job_take q = Some (x, q') \<and> queue_ok q' \<and> jobs q' = xs" if "jobs q = x # xs"
    using job_take_eq [OF ok that] .
qed

section \<open>Workers\<close>

text \<open>
  Where a worker of \<open>thread_pool_start\<close> is: about to lock the mutex, asleep in
  \<open>pthread_cond_wait\<close>, handling a job, or returned.
\<close>

datatype worker = Ready | Asleep | Working Job | Exited

record pool =
  p_queue :: job_queue
  p_shutdown :: bool
  p_workers :: "worker list"
  p_signals :: nat
  p_accepted :: "Job list"
  p_taken :: "Job list"

text \<open>
  \<open>p_signals\<close> counts the calls of \<open>job_enqueue\<close> that have left the critical section and not yet
  signalled. \<open>p_accepted\<close> and \<open>p_taken\<close> only record the history: the jobs a caller was told were
  accepted, and the jobs workers took, in order.
\<close>

abbreviation set_worker :: "pool \<Rightarrow> nat \<Rightarrow> worker \<Rightarrow> pool" where
  "set_worker p i w \<equiv> p\<lparr>p_workers := (p_workers p)[i := w]\<rparr>"

definition wake_all :: "worker list \<Rightarrow> worker list" where
  "wake_all ws = map (\<lambda>w. if w = Asleep then Ready else w) ws"

text \<open>The steps of \<open>thread_pool_start\<close> and of a pending signal.\<close>

inductive worker_step :: "pool \<Rightarrow> pool \<Rightarrow> bool" where
  signal_wakes: "p_signals p = Suc n \<Longrightarrow> i < length (p_workers p) \<Longrightarrow> p_workers p ! i = Asleep \<Longrightarrow>
    worker_step p ((set_worker p i Ready)\<lparr>p_signals := n\<rparr>)"
| signal_nobody: "p_signals p = Suc n \<Longrightarrow> Asleep \<notin> set (p_workers p) \<Longrightarrow>
    worker_step p (p\<lparr>p_signals := n\<rparr>)"
| spurious: "i < length (p_workers p) \<Longrightarrow> p_workers p ! i = Asleep \<Longrightarrow> worker_step p (set_worker p i Ready)"
| sleeps: "i < length (p_workers p) \<Longrightarrow> p_workers p ! i = Ready \<Longrightarrow>
    job_count (p_queue p) = 0 \<Longrightarrow> \<not> p_shutdown p \<Longrightarrow> worker_step p (set_worker p i Asleep)"
| takes: "i < length (p_workers p) \<Longrightarrow> p_workers p ! i = Ready \<Longrightarrow>
    job_count (p_queue p) > 0 \<Longrightarrow> job_take (p_queue p) = Some (job, q) \<Longrightarrow>
    worker_step p ((set_worker p i (Working job))\<lparr>p_queue := q, p_taken := p_taken p @ [job]\<rparr>)"
| quits: "i < length (p_workers p) \<Longrightarrow> p_workers p ! i = Ready \<Longrightarrow>
    job_count (p_queue p) = 0 \<Longrightarrow> p_shutdown p \<Longrightarrow> worker_step p (set_worker p i Exited)"
| finishes: "i < length (p_workers p) \<Longrightarrow> p_workers p ! i = Working job \<Longrightarrow> job_handle job = 0 \<Longrightarrow>
    worker_step p (set_worker p i Ready)"

text \<open>
  \<open>thread_pool_destroy\<close>: the shutdown flag and the broadcast, then one \<open>pthread_join\<close> after the
  other; a join waits, \<open>None\<close>, until its thread has returned, and may report an error.
\<close>

definition signal_shutdown :: "pool \<Rightarrow> pool" where
  "signal_shutdown p = p\<lparr>p_shutdown := True, p_workers := wake_all (p_workers p)\<rparr>"

fun join_threads :: "worker list \<Rightarrow> (nat \<Rightarrow> bool) \<Rightarrow> nat \<Rightarrow> int option" where
  "join_threads [] ok i = Some 0"
| "join_threads (w # ws) ok i = (if w \<noteq> Exited then None else if \<not> ok i then Some 1 else join_threads ws ok (i + 1))"

text \<open>
  What the pool holds besides its queue: the array of thread handles, the mutex and the condition
  variable. After the joins \<open>thread_pool_destroy\<close> gives all of it back; a failed join leaves it.
\<close>

record pool_res =
  res_threads :: bool
  res_mutex :: bool
  res_cond :: bool

definition thread_pool_destroy :: "worker list \<Rightarrow> (nat \<Rightarrow> bool) \<Rightarrow> pool_res \<Rightarrow> (int \<times> pool_res) option" where
  "thread_pool_destroy ws ok res = do {
     rc \<leftarrow> join_threads ws ok 0;
     if rc \<noteq> 0 then Some (1, res)
     else let res = res\<lparr>res_threads := False\<rparr>;
              res = res\<lparr>res_mutex := False\<rparr>;
              res = res\<lparr>res_cond := False\<rparr>
          in Some (0, res)
   }"

text \<open>Callers of \<open>job_enqueue\<close>, the workers, and the thread that shuts the pool down.\<close>

inductive pool_step :: "pool \<Rightarrow> pool \<Rightarrow> bool" where
  enqueue: "job_enqueue op (p_queue p) = Some (busy, q) \<Longrightarrow>
    pool_step p (p\<lparr>p_queue := q, p_signals := p_signals p + 1,
      p_accepted := (if busy then p_accepted p else p_accepted p @ [op])\<rparr>)"
| works: "worker_step p p' \<Longrightarrow> pool_step p p'"
| shuts_down: "pool_step p (signal_shutdown p)"

text \<open>
  \<open>thread_pool_init\<close>: the outcomes of \<open>malloc\<close> and of the calls of \<open>pthread_create\<close>, in order. The
  second component is the number of threads that run afterwards, the third what is held.
\<close>

fun create_threads :: "nat \<Rightarrow> (nat \<Rightarrow> bool) \<Rightarrow> nat \<Rightarrow> bool \<times> nat" where
  "create_threads 0 ok i = (True, i)"
| "create_threads (Suc n) ok i = (if \<not> ok i then (False, i) else create_threads n ok (i + 1))"

definition thread_pool_init :: "nat \<Rightarrow> bool \<Rightarrow> (nat \<Rightarrow> bool) \<Rightarrow> nat option \<times> nat \<times> pool_res" where
  "thread_pool_init num_threads malloc_ok ok = (
     let res = \<lparr>res_threads = False, res_mutex = True, res_cond = True\<rparr>
     in if \<not> malloc_ok then (None, 0, res)
        else let res = res\<lparr>res_threads := True\<rparr>
        in case create_threads num_threads ok 0 of (done, n) \<Rightarrow>
             if done then (Some num_threads, n, res) else (None, n, res))"

definition pool_start :: "nat \<Rightarrow> pool" where
  "pool_start n = \<lparr>p_queue = queue_start, p_shutdown = False, p_workers = replicate n Ready,
     p_signals = 0, p_accepted = [], p_taken = []\<rparr>"

inductive pool_reach :: "nat \<Rightarrow> pool \<Rightarrow> bool" for n where
  start: "pool_reach n (pool_start n)"
| step: "pool_reach n p \<Longrightarrow> pool_step p p' \<Longrightarrow> pool_reach n p'"

section \<open>The invariant\<close>

definition awake :: "worker \<Rightarrow> bool" where
  "awake w \<longleftrightarrow> (case w of Ready \<Rightarrow> True | Working _ \<Rightarrow> True | _ \<Rightarrow> False)"

text \<open>
  The jobs accepted are those taken followed by those queued; while a job is queued and a
  worker sleeps, some worker is awake or a signal is on its way; after the shutdown nobody
  sleeps.
\<close>

definition pool_inv :: "pool \<Rightarrow> bool" where
  "pool_inv p \<longleftrightarrow> queue_ok (p_queue p) \<and> p_accepted p = p_taken p @ jobs (p_queue p) \<and>
     (jobs (p_queue p) \<noteq> [] \<longrightarrow> Asleep \<in> set (p_workers p) \<longrightarrow>
        (\<exists>w \<in> set (p_workers p). awake w) \<or> p_signals p > 0) \<and>
     (p_shutdown p \<longrightarrow> Asleep \<notin> set (p_workers p)) \<and>
     (\<not> p_shutdown p \<longrightarrow> Exited \<notin> set (p_workers p))"

lemma jobs_Nil_iff: "queue_ok q \<Longrightarrow> jobs q = [] \<longleftrightarrow> job_count q = 0"
  by (auto simp: queue_ok_def jobs_def)

lemma awake_update: "i < length ws \<Longrightarrow> awake w \<Longrightarrow> \<exists>v \<in> set (ws[i := w]). awake v"
  using set_update_memI by metis

lemma not_in_update: "v \<notin> set ws \<Longrightarrow> w \<noteq> v \<Longrightarrow> v \<notin> set (ws[i := w])"
  using set_update_subset_insert [of ws i w] by auto

lemma worker_step_inv:
  assumes "worker_step p p'" "pool_inv p"
  shows "pool_inv p'"
  using assms
proof (induction rule: worker_step.induct)
  case (signal_wakes p n i)
  then show ?case
    using awake_update [of i "p_workers p" Ready] not_in_update [of _ "p_workers p" Ready i]
    by (auto simp: pool_inv_def awake_def)
next
  case (spurious i p)
  then show ?case
    using awake_update [of i "p_workers p" Ready] not_in_update [of _ "p_workers p" Ready i]
    by (auto simp: pool_inv_def awake_def)
next
  case (sleeps i p)
  then show ?case
    using jobs_Nil_iff [of "p_queue p"] not_in_update [of _ "p_workers p" Asleep i] by (auto simp: pool_inv_def)
next
  case (takes i p job q)
  then have ok: "queue_ok (p_queue p)" by (simp add: pool_inv_def)
  with takes obtain x xs where x: "jobs (p_queue p) = x # xs"
    using jobs_Nil_iff [OF ok] by (cases "jobs (p_queue p)") auto
  from jq.dequeue_head [OF ok x] takes have "job = x" "queue_ok q" "jobs q = xs" by auto
  with takes x show ?case
    using awake_update [of i "p_workers p" "Working job"] not_in_update [of _ "p_workers p" "Working job" i]
    by (auto simp: pool_inv_def awake_def)
next
  case (quits i p)
  then show ?case
    using jobs_Nil_iff [of "p_queue p"] not_in_update [of _ "p_workers p" Exited i] by (auto simp: pool_inv_def)
next
  case (finishes i p job)
  then show ?case
    using awake_update [of i "p_workers p" Ready] not_in_update [of _ "p_workers p" Ready i]
    by (auto simp: pool_inv_def awake_def)
qed (auto simp: pool_inv_def)

lemma pool_step_inv:
  assumes "pool_step p p'" "pool_inv p"
  shows "pool_inv p'"
  using assms
proof (induction rule: pool_step.induct)
  case (enqueue op p busy q)
  then have ok: "queue_ok (p_queue p)" by (simp add: pool_inv_def)
  from jq.enqueue_total [OF ok, of op] enqueue have "queue_ok q"
    "jobs q = (if busy then jobs (p_queue p) else jobs (p_queue p) @ [op])" by auto
  with enqueue show ?case by (auto simp: pool_inv_def)
next
  case (shuts_down p)
  then show ?case by (auto simp: pool_inv_def signal_shutdown_def wake_all_def split: if_splits)
qed (rule worker_step_inv)

lemma pool_reach_inv: "pool_reach n p \<Longrightarrow> pool_inv p"
proof (induction rule: pool_reach.induct)
  case start
  then show ?case by (simp add: pool_inv_def pool_start_def queue_start_def queue_ok_def jobs_def)
qed (rule pool_step_inv)

section \<open>Shutting down\<close>

text \<open>An upper bound of the steps that are left once the pool is being shut down.\<close>

primrec weight :: "worker \<Rightarrow> nat" where
  "weight Ready = 1" | "weight Asleep = 2" | "weight (Working job) = 2" | "weight Exited = 0"

definition remaining :: "pool \<Rightarrow> nat" where
  "remaining p = 2 * length (jobs (p_queue p)) + sum_list (map weight (p_workers p)) + p_signals p"

lemma weight_update:
  "i < length ws \<Longrightarrow> sum_list (map weight (ws[i := w])) + weight (ws ! i) = sum_list (map weight ws) + weight w"
  by (induction ws arbitrary: i) (auto split: nat.splits)

lemma drain_decreases:
  assumes "worker_step p p'" "pool_inv p" "p_shutdown p"
  shows "remaining p' < remaining p \<and> p_shutdown p' \<and> p_accepted p' = p_accepted p \<and> length (p_workers p') = length (p_workers p)"
  using assms
proof (induction rule: worker_step.induct)
  case (takes i p job q)
  then have ok: "queue_ok (p_queue p)" by (simp add: pool_inv_def)
  with takes obtain x xs where x: "jobs (p_queue p) = x # xs"
    using jobs_Nil_iff [OF ok] by (cases "jobs (p_queue p)") auto
  from jq.dequeue_head [OF ok x] takes have "jobs q = xs" by auto
  with takes x weight_update [of i "p_workers p" "Working job"] show ?case by (simp add: remaining_def)
next
  case (signal_wakes p n i)
  with weight_update [of i "p_workers p" Ready] show ?case by (simp add: remaining_def)
next
  case (spurious i p)
  then show ?case using nth_mem by (fastforce simp: pool_inv_def)
next
  case (quits i p)
  with weight_update [of i "p_workers p" Exited] show ?case by (simp add: remaining_def)
next
  case (finishes i p job)
  with weight_update [of i "p_workers p" Ready] show ?case by (simp add: remaining_def)
qed (auto simp: remaining_def)

text \<open>A worker that has not returned can go on.\<close>

lemma drain_progress:
  assumes "pool_inv p" "p_shutdown p" "w \<in> set (p_workers p)" "w \<noteq> Exited"
  shows "\<exists>p'. worker_step p p'"
proof -
  from assms(3) obtain i where i: "i < length (p_workers p)" "p_workers p ! i = w" by (auto simp: in_set_conv_nth)
  have ok: "queue_ok (p_queue p)" using assms(1) by (simp add: pool_inv_def)
  show ?thesis
  proof (cases w)
    case Ready
    show ?thesis
    proof (cases "jobs (p_queue p)")
      case Nil
      then have "job_count (p_queue p) = 0" using jobs_Nil_iff [OF ok] by simp
      with i Ready assms(2) show ?thesis by (blast intro: worker_step.quits)
    next
      case (Cons x xs)
      then have "job_count (p_queue p) > 0" using jobs_Nil_iff [OF ok] by (cases "job_count (p_queue p)") auto
      with jq.dequeue_head [OF ok Cons] i Ready show ?thesis by (blast intro: worker_step.takes)
    qed
  next
    case (Working job)
    then show ?thesis using i worker_step.finishes by (fastforce simp: job_handle_def)
  qed (use assms in \<open>auto simp: pool_inv_def\<close>)
qed

text \<open>No worker returns before the queue is empty.\<close>

definition drained :: "pool \<Rightarrow> bool" where
  "drained p \<longleftrightarrow> (Exited \<in> set (p_workers p) \<longrightarrow> jobs (p_queue p) = [])"

lemma drain_keeps:
  assumes "worker_step p p'" "pool_inv p" "drained p"
  shows "drained p'"
  using assms
proof (induction rule: worker_step.induct)
  case (takes i p job q)
  then have ok: "queue_ok (p_queue p)" by (simp add: pool_inv_def)
  with takes have "Exited \<notin> set (p_workers p)" using jobs_Nil_iff [OF ok] by (auto simp: drained_def)
  then show ?case using not_in_update [of Exited "p_workers p" "Working job" i] by (simp add: drained_def)
next
  case (quits i p)
  then show ?case using jobs_Nil_iff [of "p_queue p"] by (simp add: drained_def pool_inv_def)
qed (use not_in_update [of Exited] in \<open>auto simp: drained_def\<close>)

lemma drain_run:
  assumes "(worker_step ^^ k) p p'" "pool_inv p" "p_shutdown p" "drained p"
  shows "k + remaining p' \<le> remaining p \<and> pool_inv p' \<and> p_shutdown p' \<and> drained p' \<and>
    p_accepted p' = p_accepted p \<and> length (p_workers p') = length (p_workers p)"
  using assms(1)
proof (induction k arbitrary: p')
  case 0
  with assms show ?case by simp
next
  case (Suc k)
  then obtain q where q: "(worker_step ^^ k) p q" "worker_step q p'" by auto
  from Suc.IH [OF q(1)] drain_decreases [OF q(2)] worker_step_inv [OF q(2)] drain_keeps [OF q(2)] show ?case by auto
qed

lemma join_all_exited: "\<forall>w \<in> set ws. w = Exited \<Longrightarrow> \<forall>i. ok i \<Longrightarrow> join_threads ws ok i = Some 0"
  by (induction ws arbitrary: i) auto

section \<open>Properties\<close>

text \<open>
  The job queue is a first-in first-out queue of at most 1279 jobs: \<open>job_enqueue\<close> reports
  busy exactly when it holds that many and otherwise appends the job; a worker that finds it
  not empty takes the oldest job and leaves the others in order. No access leaves the array.
\<close>

theorem job_queue_fifo:
  assumes "queue_ok q"
  shows "(\<exists>busy q'. job_enqueue op q = Some (busy, q') \<and> queue_ok q' \<and> busy = (length (jobs q) = 1279) \<and>
      jobs q' = (if busy then jobs q else jobs q @ [op])) \<and>
    (job_count q > 0 \<longrightarrow> (\<exists>q'. job_take q = Some (hd (jobs q), q') \<and> queue_ok q' \<and> jobs q' = tl (jobs q)))"
proof (intro conjI impI)
  show "\<exists>busy q'. job_enqueue op q = Some (busy, q') \<and> queue_ok q' \<and> busy = (length (jobs q) = 1279) \<and>
      jobs q' = (if busy then jobs q else jobs q @ [op])"
    using jq.enqueue_total [OF assms, of op] by auto
  assume "job_count q > 0"
  then obtain x xs where x: "jobs q = x # xs"
    using jobs_Nil_iff [OF assms] by (cases "jobs q") auto
  from jq.dequeue_head [OF assms x] x
  show "\<exists>q'. job_take q = Some (hd (jobs q), q') \<and> queue_ok q' \<and> jobs q' = tl (jobs q)" by simp
qed

theorem job_queue_fifo_witness:
  "\<exists>q'. job_enqueue \<lparr>host_fd = 1, client_fd = 2, kq = 3\<rparr> queue_start = Some (False, q') \<and> queue_ok q'"
proof -
  have "queue_ok queue_start" "jobs queue_start = []"
    by (simp_all add: queue_ok_def queue_start_def jobs_def)
  then show ?thesis
    using job_queue_fifo [of queue_start "\<lparr>host_fd = 1, client_fd = 2, kq = 3\<rparr>"] by auto
qed

text \<open>
  C11: under every interleaving of callers and workers no accepted job is lost, duplicated or
  reordered: the jobs workers have taken, followed by those still queued, are at every moment exactly the accepted ones,
  in the order of their acceptance; no wake-up is lost: while a job is queued and a
  worker sleeps, some worker is awake or about to be woken; and after the shutdown no worker is
  left asleep. That a queued job is eventually taken is not part of this.
\<close>

theorem pool_order_kept:
  assumes "pool_reach n p"
  shows "p_accepted p = p_taken p @ jobs (p_queue p) \<and>
    (jobs (p_queue p) \<noteq> [] \<longrightarrow> Asleep \<in> set (p_workers p) \<longrightarrow>
      (\<exists>w \<in> set (p_workers p). awake w) \<or> p_signals p > 0) \<and>
    (p_shutdown p \<longrightarrow> Asleep \<notin> set (p_workers p))"
  using pool_reach_inv [OF assms] by (simp add: pool_inv_def)

theorem pool_order_kept_witness:
  "\<exists>p op. pool_reach 2 p \<and> jobs (p_queue p) = [op] \<and> p_accepted p = p_taken p @ [op]"
proof -
  let ?op = "\<lparr>host_fd = 1, client_fd = 2, kq = 3\<rparr>"
  have ok: "queue_ok queue_start" "jobs queue_start = []"
    by (simp_all add: queue_ok_def queue_start_def jobs_def)
  obtain q where q: "job_enqueue ?op (p_queue (pool_start 2)) = Some (False, q)" "jobs q = [?op]"
    using jq.enqueue_room [OF ok(1), of ?op] ok(2) by (auto simp: pool_start_def)
  have r: "pool_reach 2 ((pool_start 2)\<lparr>p_queue := q, p_signals := p_signals (pool_start 2) + 1,
      p_accepted := (if False then p_accepted (pool_start 2) else p_accepted (pool_start 2) @ [?op])\<rparr>)"
    by (rule pool_reach.step [OF pool_reach.start pool_step.enqueue [OF q(1)]])
  from pool_order_kept [OF r] r q(2) show ?thesis by (intro exI conjI) auto
qed

text \<open>
  C34: shutting the pool down terminates and loses nothing. If it is shut down while workers exist
  and nobody enqueues any more, every run of the workers ends after a bounded number of steps,
  whatever the schedule, and where it ends all workers have returned, so that the joins of
  \<open>thread_pool_destroy\<close> go through, it gives back array, mutex and condition variable and returns 0,
  and every job ever accepted has been taken.
\<close>

theorem pool_shutdown_terminates:
  assumes "pool_reach n p" "\<not> p_shutdown p" "p_workers p \<noteq> []" "(worker_step ^^ k) (signal_shutdown p) p'"
  shows "k \<le> remaining (signal_shutdown p) \<and>
    ((\<nexists>p''. worker_step p' p'') \<longrightarrow>
       thread_pool_destroy (p_workers p') (\<lambda>i. True) res = Some (0, \<lparr>res_threads = False, res_mutex = False, res_cond = False\<rparr>) \<and>
       p_taken p' = p_accepted p \<and> jobs (p_queue p') = [])"
proof -
  from pool_reach_inv [OF assms(1)] have inv: "pool_inv p" .
  then have start: "pool_inv (signal_shutdown p)" "p_shutdown (signal_shutdown p)" "drained (signal_shutdown p)"
    using pool_step_inv [OF pool_step.shuts_down] assms(2)
    by (auto simp: pool_inv_def drained_def signal_shutdown_def wake_all_def split: if_splits)
  note run = drain_run [OF assms(4) start]
  have "thread_pool_destroy (p_workers p') (\<lambda>i. True) res = Some (0, \<lparr>res_threads = False, res_mutex = False, res_cond = False\<rparr>) \<and>
      p_taken p' = p_accepted p \<and> jobs (p_queue p') = []"
    if stuck: "\<nexists>p''. worker_step p' p''"
  proof -
    have ex: "\<forall>w \<in> set (p_workers p'). w = Exited" using drain_progress [of p'] run stuck by blast
    have "p_workers p' \<noteq> []" using run assms(3) by (auto simp: signal_shutdown_def wake_all_def)
    then have "Exited \<in> set (p_workers p')" using ex by (cases "p_workers p'") auto
    then have "jobs (p_queue p') = []" using run by (simp add: drained_def)
    with run join_all_exited [OF ex, where ok = "\<lambda>i. True" and i = 0] show ?thesis
      by (auto simp: pool_inv_def signal_shutdown_def thread_pool_destroy_def Let_def)
  qed
  with run show ?thesis by auto
qed

theorem pool_shutdown_terminates_witness:
  "\<exists>k p'. (worker_step ^^ k) (signal_shutdown (pool_start 1)) p' \<and> k \<le> 1 \<and>
     thread_pool_destroy (p_workers p') (\<lambda>i. True) (snd (snd (thread_pool_init 1 True (\<lambda>i. True)))) =
       Some (0, \<lparr>res_threads = False, res_mutex = False, res_cond = False\<rparr>)"
proof -
  let ?s = "signal_shutdown (pool_start 1)"
  have ws: "p_workers ?s = [Ready]" "job_count (p_queue ?s) = 0" "p_shutdown ?s" "remaining ?s = 1"
    by (simp_all add: signal_shutdown_def pool_start_def wake_all_def queue_start_def remaining_def jobs_def)
  have "worker_step ?s (set_worker ?s 0 Exited)" using ws by (intro worker_step.quits) simp_all
  then have run: "(worker_step ^^ 1) ?s (set_worker ?s 0 Exited)" by (auto simp: OO_def)
  have "\<nexists>p''. worker_step (set_worker ?s 0 Exited) p''"
    using ws by (auto elim!: worker_step.cases) (simp_all add: signal_shutdown_def pool_start_def)
  moreover have "\<not> p_shutdown (pool_start 1)" "p_workers (pool_start 1) \<noteq> []" by (simp_all add: pool_start_def)
  ultimately show ?thesis
    using pool_shutdown_terminates [OF pool_reach.start _ _ run, of "snd (snd (thread_pool_init 1 True (\<lambda>i. True)))"] ws(4) run
    by (intro exI [of _ 1] exI [of _ "set_worker ?s 0 Exited"]) blast
qed

end
