(* ===== verification/Text_Format.thy ===== *)
theory Text_Format
  imports Prelude
begin

text \<open>
  Text as the printers of both programs compose it: numbers in base 10 and 16, zero-padded, and the
  line end. Shared by the debug printers of the original program and the log viewer.
\<close>

abbreviation (input) NL :: string where "NL \<equiv> [CHR 0x0A]"

text \<open>\<open>%u\<close>, and \<open>%0wx\<close> in either case.\<close>

definition digit :: "bool \<Rightarrow> nat \<Rightarrow> char" where
  "digit upper d = (if upper then ''0123456789ABCDEF'' else ''0123456789abcdef'') ! d"

fun based :: "nat \<Rightarrow> bool \<Rightarrow> nat \<Rightarrow> string" where
  "based base upper n =
     (if base < 2 \<or> n < base then [digit upper n] else based base upper (n div base) @ [digit upper (n mod base)])"

declare based.simps [simp del]

definition pad :: "nat \<Rightarrow> string \<Rightarrow> string" where
  "pad w s = replicate (w - length s) (CHR ''0'') @ s"

abbreviation (input) fmt_u :: "nat \<Rightarrow> string" where "fmt_u n \<equiv> based 10 False n"
abbreviation (input) fmt_x :: "nat \<Rightarrow> nat \<Rightarrow> string" where "fmt_x w n \<equiv> pad w (based 16 False n)"
abbreviation (input) fmt_X :: "nat \<Rightarrow> nat \<Rightarrow> string" where "fmt_X w n \<equiv> pad w (based 16 True n)"

end
