(* ===== verification/Log_Viewer.thy ===== *)
theory Log_Viewer
  imports Server Text_Format
begin

text \<open>
  \<open>refactor/log/log.py\<close>: the debug viewer that reads events from the log pipe and prints them, and
  the pipe between the server and the viewer. The server writes whole events, which are short enough to be
  written atomically; a read takes what is there, up to the size of an event. Two libraries are
  arguments: \<open>clock\<close> is the conversion of a timestamp by \<open>datetime\<close> and \<open>scapy\<close> the reading of the
  packet bytes as IP (\<open>True\<close>) or IPv6; either may raise, which is \<open>Inl\<close> with the exception's text.
  A list of strings is what the calls of \<open>print\<close> write, one string per call, without the newline \<open>print\<close> adds; arrows are
  in UTF-8. The keyboard interrupt is left out. Shown: under every schedule of writes and reads the viewer prints the
  server's traffic, packet by packet and in the order of the reads and writes.
\<close>

section \<open>Events as bytes\<close>

definition le64 :: "byte list \<Rightarrow> u64" where
  "le64 x = ucast (le32 (x ! 0) (x ! 1) (x ! 2) (x ! 3)) OR push_bit 32 (ucast (le32 (x ! 4) (x ! 5) (x ! 6) (x ! 7)))"

definition bytes64 :: "u64 \<Rightarrow> byte list" where
  "bytes64 w = [byte_of 0 w, byte_of 1 w, byte_of 2 w, byte_of 3 w, byte_of 4 w, byte_of 5 w, byte_of 6 w, byte_of 7 w]"

text \<open>The packed struct handed to \<open>write\<close>.\<close>

definition event_bytes :: "Event \<Rightarrow> byte list" where
  "event_bytes ev = [ev_dir ev] @ bytes64 (ev_timestamp_ns ev) @ [byte_of 0 (ev_tu_len ev), byte_of 1 (ev_tu_len ev)] @ ev_tu ev"

section \<open>The viewer\<close>

text \<open>
  What the viewer reads of scapy's packet: names and addresses, the first of the layers it asks for that
  the packet contains, with that layer's fields as text, and the summary.
\<close>

datatype layer = ICMP_layer string string | ND_RS | ND_RA | ND_NS | ND_NA | TCP_layer string string string | Other_layer

record scapy_view =
  sv_name :: string
  sv_src :: string
  sv_dst :: string
  sv_payload :: "string option"
  sv_layer :: layer
  sv_summary :: "string + string"

type_synonym clock = "u64 \<Rightarrow> string + string"
type_synonym scapy = "bool \<Rightarrow> byte list \<Rightarrow> string + scapy_view"

text \<open>The escape sequences of class \<open>Color\<close>.\<close>

definition esc :: "string \<Rightarrow> string" where
  "esc code = CHR 0x1B # ''['' @ code @ ''m''"

abbreviation (input) Color_RESET :: string where "Color_RESET \<equiv> esc ''0''"
abbreviation (input) Color_BOLD :: string where "Color_BOLD \<equiv> esc ''1''"
abbreviation (input) Color_RED :: string where "Color_RED \<equiv> esc ''91''"
abbreviation (input) Color_GREEN :: string where "Color_GREEN \<equiv> esc ''92''"
abbreviation (input) Color_YELLOW :: string where "Color_YELLOW \<equiv> esc ''93''"
abbreviation (input) Color_BLUE :: string where "Color_BLUE \<equiv> esc ''94''"
abbreviation (input) Color_MAGENTA :: string where "Color_MAGENTA \<equiv> esc ''95''"
abbreviation (input) Color_CYAN :: string where "Color_CYAN \<equiv> esc ''96''"
abbreviation (input) Color_GRAY :: string where "Color_GRAY \<equiv> esc ''90''"

abbreviation (input) left_arrow :: string where "left_arrow \<equiv> [CHR 0xE2, CHR 0x86, CHR 0x90]"
abbreviation (input) right_arrow :: string where "right_arrow \<equiv> [CHR 0xE2, CHR 0x86, CHR 0x92]"

fun join :: "string \<Rightarrow> string list \<Rightarrow> string" where
  "join sep [] = []"
| "join sep [x] = x"
| "join sep (x # y # ys) = x @ sep @ join sep (y # ys)"

text \<open>The rows of the fallback dump.\<close>

definition dump_row :: "byte list \<Rightarrow> nat \<Rightarrow> string" where
  "dump_row packet_bytes i = (
     let chunk = take 16 (drop i packet_bytes);
         hex_part = join '' '' (map (\<lambda>b. fmt_x 2 (unat b)) chunk);
         ascii_part = map (\<lambda>b. if 32 \<le> unat b \<and> unat b < 127 then char_of (unat b) else CHR ''.'') chunk
     in Color_GRAY @ fmt_x 4 i @ ''  '' @ hex_part @ replicate (47 - length hex_part) (CHR '' '') @ ''  '' @
        ascii_part @ Color_RESET)"

definition layer_lines :: "layer \<Rightarrow> byte list \<Rightarrow> string list" where
  "layer_lines l packet_bytes = (case l of
     ICMP_layer type code \<Rightarrow> [Color_BOLD @ ''ICMP:'' @ Color_RESET @ '' Type '' @ type @ '' | Code '' @ code]
   | ND_RS \<Rightarrow> [Color_BOLD @ ''ICMPv6:'' @ Color_RESET @ '' Router Solicitation'']
   | ND_RA \<Rightarrow> [Color_BOLD @ ''ICMPv6:'' @ Color_RESET @ '' Router Advertisement'']
   | ND_NS \<Rightarrow> [Color_BOLD @ ''ICMPv6:'' @ Color_RESET @ '' Neighbor Solicitation'']
   | ND_NA \<Rightarrow> [Color_BOLD @ ''ICMPv6:'' @ Color_RESET @ '' Neighbor Advertisement'']
   | TCP_layer sport dport flags \<Rightarrow> [Color_BOLD @ ''TCP:'' @ Color_RESET @ '' Port '' @ sport @ '' '' @ right_arrow @ '' '' @
       dport @ '' | Flags: '' @ Color_YELLOW @ flags @ Color_RESET]
   | Other_layer \<Rightarrow> map (\<lambda>k. dump_row packet_bytes (16 * k)) [0..<(length packet_bytes + 15) div 16])"

definition error_line :: "string \<Rightarrow> string" where
  "error_line e = Color_RED @ ''[ERROR]: '' @ e @ Color_RESET"

text \<open>What is printed once the event is taken apart; an exception ends it with the error line.\<close>

definition print_event :: "clock \<Rightarrow> scapy \<Rightarrow> nat \<Rightarrow> byte \<Rightarrow> u64 \<Rightarrow> nat \<Rightarrow> byte list \<Rightarrow> string list" where
  "print_event clock scapy event_num direction timestamp_ns tu_len packet_bytes =
     (case scapy (drop_bit 4 (packet_bytes ! 0) = 4) packet_bytes of
        Inl e \<Rightarrow> [error_line e]
      | Inr pkt \<Rightarrow> (case clock timestamp_ns of
          Inl e \<Rightarrow> [error_line e]
        | Inr time_str \<Rightarrow>
            let (dir_color, arrow, dir_text) =
                  (if direction = 1 then (Color_GREEN, left_arrow, ''RECV'') else (Color_BLUE, right_arrow, ''SEND''))
            in [NL @ Color_BOLD @ Color_CYAN @ replicate 80 (CHR ''='') @ Color_RESET,
                Color_BOLD @ ''Event #'' @ fmt_u event_num @ Color_RESET @ '' | '' @ Color_GRAY @ time_str @ Color_RESET @ '' | '' @
                  dir_color @ dir_text @ '' '' @ arrow @ Color_RESET @ '' | '' @
                  ''Length: '' @ Color_MAGENTA @ fmt_u tu_len @ Color_RESET @ '' bytes'',
                Color_BOLD @ sv_name pkt @ '':'' @ Color_RESET @ '' '' @ sv_src pkt @ '' '' @ right_arrow @ '' '' @ sv_dst pkt @ '' | '' @
                  ''Protocol: '' @ Color_YELLOW @ (case sv_payload pkt of None \<Rightarrow> ''None'' | Some n \<Rightarrow> n) @ Color_RESET] @
               layer_lines (sv_layer pkt) packet_bytes @
               [case sv_summary pkt of Inl e \<Rightarrow> error_line e | Inr summary \<Rightarrow> Color_GRAY @ summary @ Color_RESET]))"

text \<open>\<open>None\<close> when the event has length 0, on which the viewer exits.\<close>

definition display_event :: "clock \<Rightarrow> scapy \<Rightarrow> nat \<Rightarrow> byte list \<Rightarrow> string list option" where
  "display_event clock scapy event_num event_data = (
     let direction = event_data ! 0;
         timestamp_ns = le64 (take 8 (drop 1 event_data));
         tu_len = le16 (event_data ! 9) (event_data ! 10)
     in if tu_len = 0 then None
        else let packet_bytes = take (unat tu_len) (drop 11 event_data)
             in Some (print_event clock scapy event_num direction timestamp_ns (unat tu_len) packet_bytes))"

text \<open>
  The loop of \<open>main\<close> on the results of its reads; a read of another size than an event is dropped.
  \<open>close\<close> prints a line and exits with a message.
\<close>

datatype viewer_end = Reading | Exited string

definition close_viewer :: "string \<Rightarrow> string list \<times> viewer_end" where
  "close_viewer msg = ([NL @ NL @ Color_YELLOW @ ''[LOG]: Closing debugger...'' @ Color_RESET @ NL], Exited msg)"

abbreviation (input) event_size :: nat where "event_size \<equiv> 1511"

fun view_main :: "clock \<Rightarrow> scapy \<Rightarrow> byte list list \<Rightarrow> nat \<Rightarrow> string list \<times> viewer_end" where
  "view_main clock scapy [] event_num = ([], Reading)"
| "view_main clock scapy (data # ds) event_num =
     (if data = [] then close_viewer ''Server closed abruptly''
      else if length data = event_size
      then (case display_event clock scapy (event_num + 1) data of
             None \<Rightarrow> close_viewer ''Server detached (Host sent shutdown)''
           | Some ls \<Rightarrow> apfst (append ls) (view_main clock scapy ds (event_num + 1)))
      else view_main clock scapy ds event_num)"

section \<open>The pipe\<close>

datatype pipe_op = Put Event | Get

text \<open>The bytes in the pipe and the results of the reads; a read of an empty pipe waits, so it is not a step.\<close>

fun pipe_run :: "pipe_op list \<Rightarrow> byte list \<Rightarrow> byte list list \<Rightarrow> byte list \<times> byte list list" where
  "pipe_run [] pipe chunks = (pipe, chunks)"
| "pipe_run (Put ev # ops) pipe chunks = pipe_run ops (pipe @ event_bytes ev) chunks"
| "pipe_run (Get # ops) pipe chunks =
     (if pipe = [] then pipe_run ops pipe chunks
      else pipe_run ops (drop event_size pipe) (chunks @ [take event_size pipe]))"

fun puts :: "pipe_op list \<Rightarrow> Event list" where
  "puts [] = []"
| "puts (Put ev # ops) = ev # puts ops"
| "puts (Get # ops) = puts ops"

section \<open>Reading back an event\<close>

definition event_packet :: "Event \<Rightarrow> byte list" where
  "event_packet ev = take (unat (ev_tu_len ev)) (ev_tu ev)"

text \<open>A packet as the traffic has it: direction, time and bytes. \<open>shown\<close> is what the viewer owes it.\<close>

type_synonym passage = "byte \<times> u64 \<times> byte list"

definition passage_of :: "Event \<Rightarrow> passage" where
  "passage_of ev = (ev_dir ev, ev_timestamp_ns ev, event_packet ev)"

definition shown :: "clock \<Rightarrow> scapy \<Rightarrow> nat \<Rightarrow> passage \<Rightarrow> string list" where
  "shown clock scapy k x = (case x of (dir, time, p) \<Rightarrow> print_event clock scapy k dir time (length p) p)"

text \<open>An event that carries a packet.\<close>

definition event_ok :: "Event \<Rightarrow> bool" where
  "event_ok ev \<longleftrightarrow> length (ev_tu ev) = 1500 \<and> 0 < unat (ev_tu_len ev) \<and> unat (ev_tu_len ev) \<le> 1500"

lemma length_event_bytes: "length (event_bytes ev) = 11 + length (ev_tu ev)"
  by (simp add: event_bytes_def bytes64_def)

lemma event_bytes_not_Nil [simp]: "event_bytes ev \<noteq> []"
  by (simp add: event_bytes_def)

lemma le64_bytes64 [simp]: "le64 (bytes64 w) = w"
proof -
  let ?lo = "ucast w :: u32" and ?hi = "ucast (drop_bit 32 w) :: u32"
  have "byte_of k w = byte_of k ?lo" "byte_of (4 + k) w = byte_of k ?hi" if "k < 4" for k
    using that by (auto intro!: bit_word_eqI simp: byte_of_def bit_simps add.commute add.left_commute)
  from this(1) [of 0] this(1) [of 1] this(1) [of 2] this(1) [of 3] this(2) [of 0] this(2) [of 1] this(2) [of 2] this(2) [of 3]
  have "le32 (byte_of 0 w) (byte_of (Suc 0) w) (byte_of 2 w) (byte_of 3 w) = ?lo"
    "le32 (byte_of 4 w) (byte_of 5 w) (byte_of 6 w) (byte_of 7 w) = ?hi" by simp_all
  moreover have "ucast ?lo OR push_bit 32 (ucast ?hi) = w"
    by (auto intro!: bit_word_eqI simp: bit_simps)
  ultimately show ?thesis by (simp add: le64_def bytes64_def)
qed

lemma event_bytes_parts:
  "event_bytes ev ! 0 = ev_dir ev" "take 8 (drop 1 (event_bytes ev)) = bytes64 (ev_timestamp_ns ev)"
  "drop 11 (event_bytes ev) = ev_tu ev" "event_bytes ev ! 9 = byte_of 0 (ev_tu_len ev)"
  "event_bytes ev ! 10 = byte_of 1 (ev_tu_len ev)"
proof -
  have b64: "length (bytes64 w) = 8" for w by (simp add: bytes64_def)
  show "event_bytes ev ! 0 = ev_dir ev" "take 8 (drop 1 (event_bytes ev)) = bytes64 (ev_timestamp_ns ev)"
    "drop 11 (event_bytes ev) = ev_tu ev" "event_bytes ev ! 9 = byte_of 0 (ev_tu_len ev)"
    "event_bytes ev ! 10 = byte_of 1 (ev_tu_len ev)"
    by (simp_all add: event_bytes_def b64 nth_append nth_Cons')
qed

lemma display_event_stop: "ev_tu_len ev = 0 \<Longrightarrow> display_event clock scapy k (event_bytes ev) = None"
  by (simp add: display_event_def Let_def event_bytes_parts)

lemma display_event_shown:
  assumes "event_ok ev"
  shows "display_event clock scapy k (event_bytes ev) = Some (shown clock scapy k (passage_of ev))"
proof -
  have "ev_tu_len ev \<noteq> 0" "length (event_packet ev) = unat (ev_tu_len ev)"
    using assms by (auto simp: event_ok_def event_packet_def)
  then show ?thesis
    unfolding display_event_def Let_def event_bytes_parts by (simp add: shown_def passage_of_def event_packet_def)
qed

lemma view_main_events:
  assumes "\<forall>ev \<in> set evs. event_ok ev"
  shows "view_main clock scapy (map event_bytes evs @ ds) k =
    apfst (append (concat (map2 (shown clock scapy) [Suc k..<Suc (k + length evs)] (map passage_of evs))))
      (view_main clock scapy ds (k + length evs))"
  using assms
proof (induction evs arbitrary: k)
  case (Cons ev evs)
  have "[Suc k..<Suc (k + length (ev # evs))] = Suc k # [Suc (Suc k)..<Suc (Suc k + length evs)]" by (simp add: upt_rec)
  with Cons show ?case
    by (simp add: display_event_shown length_event_bytes event_ok_def apfst_def map_prod_def case_prod_beta del: upt_Suc)
qed (simp add: apfst_def map_prod_def)

text \<open>Writes of whole events keep the reads aligned.\<close>

lemma pipe_run_events:
  assumes "\<forall>ev \<in> set (pend @ puts ops). length (ev_tu ev) = 1500"
  shows "\<exists>got pend'. pipe_run ops (concat (map event_bytes pend)) chunks =
      (concat (map event_bytes pend'), chunks @ map event_bytes got) \<and> pend @ puts ops = got @ pend'"
  using assms
proof (induction ops arbitrary: pend chunks)
  case (Cons op ops)
  show ?case
  proof (cases op)
    case (Put ev)
    with Cons.IH [of "pend @ [ev]" chunks] Cons.prems show ?thesis by simp
  next
    case Get
    show ?thesis
    proof (cases pend)
      case Nil
      with Get Cons.IH [of "[]" chunks] Cons.prems show ?thesis by simp
    next
      case pend: (Cons ev pend1)
      have "length (event_bytes ev) = 1511" using pend Cons.prems by (simp add: length_event_bytes)
      with pend Get have run: "pipe_run (op # ops) (concat (map event_bytes pend)) chunks =
          pipe_run ops (concat (map event_bytes pend1)) (chunks @ [event_bytes ev])" by simp
      from Cons.IH [of pend1 "chunks @ [event_bytes ev]"] Cons.prems pend Get obtain got pend' where
        "pipe_run ops (concat (map event_bytes pend1)) (chunks @ [event_bytes ev]) =
          (concat (map event_bytes pend'), (chunks @ [event_bytes ev]) @ map event_bytes got)" "pend1 @ puts ops = got @ pend'"
        by auto
      with run Get pend show ?thesis by (intro exI [of _ "ev # got"] exI [of _ pend']) simp
    qed
  qed
qed auto

lemma pipe_run_drained:
  assumes "\<forall>ev \<in> set (puts ops). length (ev_tu ev) = 1500" "pipe_run ops [] [] = ([], chunks)"
  shows "chunks = map event_bytes (puts ops)"
proof -
  from pipe_run_events [of "[]" ops "[]"] assms obtain got pend' where
    "concat (map event_bytes pend') = []" "chunks = map event_bytes got" "puts ops = got @ pend'" by auto
  then show ?thesis by (cases pend') auto
qed

section \<open>What the server logs\<close>

text \<open>The packets a tick delivers, and those of a run.\<close>

definition tick_reads :: "tick \<Rightarrow> buffer list" where
  "tick_reads t = (case tk_packet t of None \<Rightarrow> [] | Some p \<Rightarrow> if p = [] then [] else [take 1500 p])"

definition reads :: "tick list \<Rightarrow> buffer list" where
  "reads ts = concat (map tick_reads (takeWhile (\<lambda>t. \<not> tk_shutdown t) ts))"

text \<open>
  The traffic of a run: each packet read, with the time of its log call, followed by the packet written
  in reply if there is one.
\<close>

definition tick_traffic :: "tick \<Rightarrow> world \<Rightarrow> world \<Rightarrow> passage list" where
  "tick_traffic t w w' = map (\<lambda>p. (LOG_READ, log_time (tk_log_read t), p)) (tick_reads t) @
     map (\<lambda>p. (LOG_WRITE, log_time (tk_log_write t), p)) (drop (length (w_sent w)) (w_sent w'))"

fun traffic :: "tick list \<Rightarrow> world \<Rightarrow> passage list" where
  "traffic [] w = []"
| "traffic (t # ts) w = (if tk_shutdown t then []
     else case server_iter MTU_SIZE t w of None \<Rightarrow> [] | Some w' \<Rightarrow> tick_traffic t w w' @ traffic ts w')"

definition packets_of :: "byte \<Rightarrow> passage list \<Rightarrow> byte list list" where
  "packets_of dir T = map (\<lambda>x. snd (snd x)) (filter (\<lambda>x. fst x = dir) T)"

lemma packets_of_append [simp]: "packets_of dir (S @ T) = packets_of dir S @ packets_of dir T"
  by (simp add: packets_of_def)

lemma length_traffic:
  "length (traffic ts w) = length (packets_of LOG_WRITE (traffic ts w)) + length (packets_of LOG_READ (traffic ts w))"
proof -
  have dirs: "fst x = LOG_WRITE \<or> fst x = LOG_READ" if "x \<in> set (traffic ts w)" for x
    using that
  proof (induction ts arbitrary: w)
    case (Cons t ts)
    then show ?case by (cases "server_iter 1500 t w") (auto simp: tick_traffic_def split: if_splits)
  qed simp
  have "filter (\<lambda>x. fst x = LOG_READ) (traffic ts w) = filter (\<lambda>x. fst x \<noteq> LOG_WRITE) (traffic ts w)"
    using dirs by (intro filter_cong) auto
  then show ?thesis
    using sum_length_filter_compl [of "\<lambda>x. fst x = LOG_WRITE" "traffic ts w"] by (simp add: packets_of_def)
qed

lemma logged_facts:
  assumes "length b = 1500" "0 < n" "n \<le> 1500"
  shows "passage_of (logged b n dir e) = (dir, log_time e, bytes_at b 0 n)" "event_ok (logged b n dir e)"
proof -
  have n: "uint (word_of_int n :: u16) = n" using assms by (simp add: uint_word_of_int_eq take_bit_int_eq_self)
  then have u: "unat (word_of_int n :: u16) = nat n" by (simp add: unat_eq_nat_uint)
  show "passage_of (logged b n dir e) = (dir, log_time e, bytes_at b 0 n)" "event_ok (logged b n dir e)"
    using assms by (simp_all add: passage_of_def event_packet_def event_ok_def logged_def u in_range_def)
qed

text \<open>One iteration with a log whose writes succeed.\<close>

lemma server_iter_logs:
  assumes "world_inv w" "conn_count w < 2147483648" "server_iter MTU_SIZE t w = Some w'" "VERBOSE (fst (w_log w))"
    and "le_write (tk_log_read t) = Written" "le_write (tk_log_write t) = Written"
  shows "\<exists>evs sent. w_log w' = (fst (w_log w), snd (w_log w) @ evs) \<and> w_sent w' = w_sent w @ sent \<and>
    (\<forall>ev \<in> set evs. event_ok ev) \<and> map passage_of evs = tick_traffic t w w'"
proof -
  have inv: "srv_inv (w_srv w)" "length (w_buf w) = 1500" using assms by (auto simp: world_inv_def)
  have room: "room (w_srv w)" using room_count [OF inv(1)] assms(2) by (simp add: conn_count_def)
  obtain n b where nb: "tick_read t w = (n, b)" by fastforce
  have b: "length b = 1500" "n \<le> 1500" using tun_read_ok [OF inv(2), of "tk_packet t"] nb by auto
  have rd: "tick_reads t = (if n > 0 then [bytes_at b 0 n] else [])"
    using nb inv(2) by (auto simp: tick_reads_def tun_read_def bytes_at_def Let_def min_def split: option.splits if_splits)
  obtain fd out where log: "w_log w = (fd, out)" by fastforce
  have v: "VERBOSE fd" using assms(4) log by simp
  show ?thesis
  proof (cases "n > 0")
    case False
    with nb assms(3) rd log show ?thesis
      by (intro exI [of _ "[]"]) (auto simp: server_iter_def tick_traffic_def)
  next
    case True
    from net_demux_ok [OF inv(1) room, of b n "tk_amb t"] b obtain k b' s where
      d: "net_demux (w_srv w) b n (tk_amb t) = Some (k, b', s)" "0 \<le> k" "k \<le> 1500" "length b' = 1500"
      by (auto simp: received_def)
    let ?r = "logged b n LOG_READ (tk_log_read t)" and ?s = "logged b' k LOG_WRITE (tk_log_write t)"
    let ?evs = "?r # (if k > 0 then [?s] else [])" and ?sent = "if k > 0 then [bytes_at b' 0 k] else []"
    have "w' = \<lparr>w_srv = s, w_buf = b', w_log = (fd, out @ ?evs), w_sent = w_sent w @ ?sent\<rparr>"
      using assms(3,5,6) True nb b d log v
      by (cases "k > 0") (simp_all add: server_iter_def tun_write_def in_range_def LOG_EVENT_eq)
    then show ?thesis
      using rd True log logged_facts [OF b(1) True b(2)] logged_facts [OF d(4) _ d(3)]
      by (intro exI [of _ ?evs] exI [of _ ?sent]) (auto simp: tick_traffic_def)
  qed
qed

text \<open>The log at the end of a run: the traffic, then the shutdown event if there was one.\<close>

definition stop_events :: "tick list \<Rightarrow> Event list \<Rightarrow> bool" where
  "stop_events ts stop \<longleftrightarrow> (if \<exists>t \<in> set ts. tk_shutdown t
     then \<exists>ev. stop = [ev] \<and> length (ev_tu ev) = 1500 \<and> ev_tu_len ev = 0 else stop = [])"

lemma server_run_logs:
  assumes "world_inv w" "conn_count w + length ts < 2147483648" "server_run MTU_SIZE ts w = Some w'" "VERBOSE (fst (w_log w))"
    and "\<forall>t \<in> set ts. le_write (tk_log_read t) = Written \<and> le_write (tk_log_write t) = Written"
  shows "\<exists>evs stop. snd (w_log w') = snd (w_log w) @ evs @ stop \<and> (\<forall>ev \<in> set evs. event_ok ev) \<and>
    map passage_of evs = traffic ts w \<and> stop_events ts stop \<and>
    w_sent w' = w_sent w @ packets_of LOG_WRITE (traffic ts w) \<and> packets_of LOG_READ (traffic ts w) = reads ts"
  using assms
proof (induction ts arbitrary: w)
  case Nil
  then show ?case by (simp add: stop_events_def reads_def packets_of_def)
next
  case (Cons t ts)
  obtain fd out where log: "w_log w = (fd, out)" by fastforce
  have v: "VERBOSE fd" using Cons.prems(4) log by simp
  show ?case
  proof (cases "tk_shutdown t")
    case True
    let ?ev = "\<lparr>ev_dir = 2, ev_timestamp_ns = log_time (tk_log_read t), ev_tu_len = 0, ev_tu = replicate 1500 0\<rparr>"
    have "w' = w\<lparr>w_log := (fd, out @ [?ev])\<rparr>"
      using True Cons.prems(3,5) log v by (simp add: LOG_EVENT_def log_event_def)
    with True log show ?thesis
      by (intro exI [of _ "[]"] exI [of _ "[?ev]"]) (simp add: reads_def packets_of_def stop_events_def)
  next
    case False
    from server_iter_ok [OF Cons.prems(1), of t] Cons.prems(2) obtain w1 where
      w1: "server_iter MTU_SIZE t w = Some w1" "world_inv w1" "conn_count w1 \<le> conn_count w + 1" by auto
    from server_iter_logs [OF Cons.prems(1) _ w1(1) Cons.prems(4)] Cons.prems(2,5) obtain evs sent where
      e: "w_log w1 = (fst (w_log w), snd (w_log w) @ evs)" "w_sent w1 = w_sent w @ sent" "\<forall>ev \<in> set evs. event_ok ev"
        "map passage_of evs = tick_traffic t w w1" by auto
    have "server_run MTU_SIZE ts w1 = Some w'" using Cons.prems(3) False w1(1) by simp
    from Cons.IH [OF w1(2) _ this] w1(3) Cons.prems(2,4,5) e(1) obtain evs' stop where
      ih: "snd (w_log w') = snd (w_log w1) @ evs' @ stop" "\<forall>ev \<in> set evs'. event_ok ev"
        "map passage_of evs' = traffic ts w1" "stop_events ts stop"
        "w_sent w' = w_sent w1 @ packets_of LOG_WRITE (traffic ts w1)" "packets_of LOG_READ (traffic ts w1) = reads ts" by auto
    have "packets_of LOG_WRITE (tick_traffic t w w1) = sent" "packets_of LOG_READ (tick_traffic t w w1) = tick_reads t"
      by (simp_all add: packets_of_def tick_traffic_def e(2) filter_map comp_def)
    moreover have "stop_events (t # ts) stop" using ih(4) False by (simp add: stop_events_def)
    ultimately show ?thesis
      using e ih False w1(1) by (intro exI [of _ "evs @ evs'"] exI [of _ stop]) (auto simp: reads_def)
  qed
qed

section \<open>Properties\<close>

text \<open>
  C8: the viewer prints the traffic. Take any run of the server with an attached viewer in which
  every write to the log succeeds, and any schedule in which the events the server writes
  pass through the pipe and are read until it is empty. Then what the viewer prints is exactly this: for
  each packet the server read from the device or wrote to it, in the order in which this happened, the block of lines that
  \<open>print_event\<close> composes for the packet's number counted from 1, its direction, time,
  length and bytes, with scapy's and \<open>datetime\<close>'s rendering of them or, where these raise, an error line; and nothing else but the closing line.
  No packet is lost, repeated, cut or swapped: the sent ones are those written to the device, the received ones
  the non-empty packets read. The viewer ends if and only if the server was shut down, and otherwise waits for more.
\<close>

theorem viewer_prints_traffic:
  assumes "length ts < 2147483648" "log_fd > -1"
    and "\<forall>t \<in> set ts. le_write (tk_log_read t) = Written \<and> le_write (tk_log_write t) = Written"
    and "server_run MTU_SIZE ts (world_start failing log_fd) = Some w'"
    and "puts ops = snd (w_log w')" "pipe_run ops [] [] = ([], chunks)"
  shows "let T = traffic ts (world_start failing log_fd);
        (closing, exit) = (if \<exists>t \<in> set ts. tk_shutdown t then close_viewer ''Server detached (Host sent shutdown)'' else ([], Reading))
     in view_main clock scapy chunks 0 = (concat (map2 (shown clock scapy) [1..<length T + 1] T) @ closing, exit) \<and>
        packets_of LOG_WRITE T = w_sent w' \<and> packets_of LOG_READ T = reads ts \<and>
        length T = length (w_sent w') + length (reads ts)"
proof -
  let ?w = "world_start failing log_fd" and ?down = "\<exists>t \<in> set ts. tk_shutdown t"
  let ?T = "traffic ts ?w"
  have start: "VERBOSE (fst (w_log ?w))" "snd (w_log ?w) = []" "w_sent ?w = []"
    using assms(2) by (simp_all add: world_start_def VERBOSE_def)
  from server_run_logs [OF world_inv_start(1) _ assms(4) start(1) assms(3)] assms(1) world_inv_start(2) start(2,3)
  obtain evs stop where log: "snd (w_log w') = evs @ stop" and evs: "\<forall>ev \<in> set evs. event_ok ev"
    and T: "map passage_of evs = ?T" and stop: "stop_events ts stop"
    and pk: "w_sent w' = packets_of LOG_WRITE ?T" "packets_of LOG_READ ?T = reads ts" by auto
  have "\<forall>ev \<in> set (puts ops). length (ev_tu ev) = 1500"
    using log assms(5) stop evs by (auto simp: stop_events_def event_ok_def split: if_splits)
  from pipe_run_drained [OF this assms(6)] have chunks: "chunks = map event_bytes evs @ map event_bytes stop"
    using assms(5) log by simp
  have "view_main clock scapy (map event_bytes stop) k =
      (if ?down then close_viewer ''Server detached (Host sent shutdown)'' else ([], Reading))" for k
    using stop by (cases ?down) (auto simp: stop_events_def display_event_stop length_event_bytes)
  then have "view_main clock scapy chunks 0 = apfst (append (concat (map2 (shown clock scapy) [1..<length ?T + 1] ?T)))
      (if ?down then close_viewer ''Server detached (Host sent shutdown)'' else ([], Reading))"
    unfolding chunks view_main_events [OF evs] using T [symmetric] by (simp del: upt_Suc)
  then show ?thesis
    using pk length_traffic [of ts ?w] by (simp add: close_viewer_def Let_def)
qed

text \<open>A schedule that reads every event right after it is written.\<close>

definition prompt :: "Event list \<Rightarrow> pipe_op list" where
  "prompt evs = concat (map (\<lambda>ev. [Put ev, Get]) evs)"

lemma prompt_reads:
  "\<forall>ev \<in> set evs. length (ev_tu ev) = 1500 \<Longrightarrow> pipe_run (prompt evs) [] cs = ([], cs @ map event_bytes evs)"
  "puts (prompt evs) = evs"
  by (induction evs arbitrary: cs) (simp_all add: prompt_def length_event_bytes)

definition stop_tick :: tick where
  "stop_tick = server_shutdown (tick_of [])"

text \<open>Libraries that read every packet as TCP on IP, and a clock.\<close>

definition sample_clock :: clock where
  "sample_clock t = Inr ''12:00:00.000''"

definition sample_scapy :: scapy where
  "sample_scapy v4 p = (if v4 then Inr \<lparr>sv_name = ''IP'', sv_src = ''10.8.0.2'', sv_dst = ''10.8.0.1'', sv_payload = Some ''TCP'',
     sv_layer = TCP_layer ''51000'' ''http_alt'' ''S'', sv_summary = Inr ''IP / TCP''\<rparr> else Inl ''not IP'')"

theorem viewer_prints_traffic_witness:
  "\<exists>w'. server_run MTU_SIZE [tick_of (take 40 syn_packet), tick_of (take 40 handshake_ack_packet), stop_tick]
       (world_start (\<lambda>n. False) 3) = Some w' \<and>
     (\<exists>T. view_main sample_clock sample_scapy (snd (pipe_run (prompt (snd (w_log w'))) [] [])) 0 =
       (concat (map2 (shown sample_clock sample_scapy) [1..<length T + 1] T) @ fst (close_viewer []),
        Exited ''Server detached (Host sent shutdown)'') \<and>
     packets_of LOG_READ T = [take 40 syn_packet, take 40 handshake_ack_packet] \<and> packets_of LOG_WRITE T = w_sent w')"
proof -
  let ?ts = "[tick_of (take 40 syn_packet), tick_of (take 40 handshake_ack_packet), stop_tick]" and ?w = "world_start (\<lambda>n. False) 3"
  from server_run_ok [OF world_inv_start(1), of "\<lambda>n. False" 3 ?ts] world_inv_start(2) obtain w' where
    run: "server_run MTU_SIZE ?ts ?w = Some w'" by (auto simp del: server_run.simps)
  have wr: "\<forall>t \<in> set ?ts. le_write (tk_log_read t) = Written \<and> le_write (tk_log_write t) = Written"
    by (simp add: tick_of_def stop_tick_def server_shutdown_def quiet_log_def)
  have stop: "\<exists>t \<in> set ?ts. tk_shutdown t" by (simp add: stop_tick_def server_shutdown_def)
  have rd: "reads ?ts = [take 40 syn_packet, take 40 handshake_ack_packet]"
    by (simp add: reads_def tick_reads_def tick_of_def stop_tick_def server_shutdown_def syn_packet_def handshake_ack_packet_def)
  have "VERBOSE (fst (w_log ?w))" by (simp add: world_start_def VERBOSE_def)
  from server_run_logs [OF world_inv_start(1) _ run this wr] world_inv_start(2) stop
  have tu: "\<forall>ev \<in> set (snd (w_log w')). length (ev_tu ev) = 1500"
    by (auto simp: stop_events_def event_ok_def world_start_def simp del: server_run.simps traffic.simps)
  have chunks: "pipe_run (prompt (snd (w_log w'))) [] [] = ([], map event_bytes (snd (w_log w')))" using prompt_reads(1) [OF tu, of "[]"] by simp
  have "view_main sample_clock sample_scapy (map event_bytes (snd (w_log w'))) 0 =
      (concat (map2 (shown sample_clock sample_scapy) [1..<length (traffic ?ts ?w) + 1] (traffic ?ts ?w)) @ fst (close_viewer []),
       Exited ''Server detached (Host sent shutdown)'') \<and>
      packets_of LOG_READ (traffic ?ts ?w) = reads ?ts \<and> packets_of LOG_WRITE (traffic ?ts ?w) = w_sent w'"
    using viewer_prints_traffic [OF _ _ wr run prompt_reads(2) chunks, of sample_clock sample_scapy] stop
    by (simp add: Let_def close_viewer_def del: server_run.simps traffic.simps upt_Suc)
  with run rd chunks show ?thesis
    by (intro exI [of _ w'] conjI exI [of _ "traffic ?ts ?w"]) (simp_all only: snd_conv)
qed

end
