(* ===== verification/Client.thy ===== *)
theory Client
  imports Segment
begin

text \<open>
  \<open>packet_cooking/client.py\<close>: the scripted TCP client that drives the original server. The class
  \<open>TCPClient\<close> keeps both sequence numbers as Python integers; its operations build packets with
  scapy, send them and look at the answer. Scapy and the network behind it are the arguments
  \<open>sr1\<close> (send and wait for one answer) and \<open>send\<close>, functions on a state of the network that give
  \<open>None\<close> when they raise. What \<open>dump_packet\<close> prints is kept as a list of packets with their labels.
  \<open>wire_format\<close> says when bytes are the wire form of a packet, as RFC 791 and RFC 793 define it, and
  \<open>scapy_ok\<close> what the client relies on of scapy. The contract \<open>handshake_peer\<close> is what a server owes
  the client during the handshake; both servers are interpretations, against each of which the
  client's handshake therefore succeeds. \<open>refactor/tests/catch.py\<close> has the same class.
\<close>

section \<open>Packets\<close>

text \<open>The layers IP, TCP and Raw with the fields the client sets or reads; addresses in network order.\<close>

record Packet =
  pk_src :: u32
  pk_dst :: u32
  pk_sport :: int
  pk_dport :: int
  pk_flags :: byte
  pk_seq :: int
  pk_ack :: int
  pk_load :: "byte list"

definition packet_in_range :: "Packet \<Rightarrow> bool" where
  "packet_in_range p \<longleftrightarrow> 0 \<le> pk_sport p \<and> pk_sport p < 65536 \<and> 0 \<le> pk_dport p \<and> pk_dport p < 65536 \<and>
     0 \<le> pk_seq p \<and> pk_seq p < 4294967296 \<and> 0 \<le> pk_ack p \<and> pk_ack p < 4294967296 \<and> length (pk_load p) \<le> 1460"

definition wire_format :: "Packet \<Rightarrow> byte list \<Rightarrow> bool" where
  "wire_format p x \<longleftrightarrow> packet_in_range p \<and> length x = 40 + length (pk_load p) \<and> peek8 x IP_version_ihl = 0x45 \<and>
     peek16 x IP_len = htons (word_of_int (40 + int (length (pk_load p)))) \<and> peek8 x IP_proto = 6 \<and>
     peek32 x IP_src = pk_src p \<and> peek32 x IP_dst = pk_dst p \<and>
     peek16 x (20 + TCP_src_port) = htons (word_of_int (pk_sport p)) \<and>
     peek16 x (20 + TCP_dst_port) = htons (word_of_int (pk_dport p)) \<and>
     peek32 x (20 + TCP_seq_num) = htonl (word_of_int (pk_seq p)) \<and>
     peek32 x (20 + TCP_ack_num) = htonl (word_of_int (pk_ack p)) \<and>
     peek8 x (20 + TCP_data_offset) = 0x50 \<and> peek8 x (20 + TCP_flags) = pk_flags p \<and>
     bytes_at x 40 (int (length (pk_load p))) = pk_load p"

section \<open>The client\<close>

datatype client_state = CLOSED | ESTABLISHED

record TCPClient =
  cl_src_ip :: u32
  cl_dst_ip :: u32
  cl_src_port :: int
  cl_dst_port :: int
  my_seq :: int
  their_seq :: int
  cl_state :: client_state

definition TCPClient_init :: "u32 \<Rightarrow> u32 \<Rightarrow> int \<Rightarrow> int \<Rightarrow> TCPClient" where
  "TCPClient_init src_ip dst_ip src_port dst_port =
     \<lparr>cl_src_ip = src_ip, cl_dst_ip = dst_ip, cl_src_port = src_port, cl_dst_port = dst_port,
      my_seq = 1000, their_seq = 0, cl_state = CLOSED\<rparr>"

text \<open>\<open>IP(src, dst) / TCP(sport, dport, flags, seq, ack) / load\<close>; scapy's default for \<open>ack\<close> is 0.\<close>

definition packet_of :: "TCPClient \<Rightarrow> byte \<Rightarrow> int \<Rightarrow> int \<Rightarrow> byte list \<Rightarrow> Packet" where
  "packet_of c flags seq ack load =
     \<lparr>pk_src = cl_src_ip c, pk_dst = cl_dst_ip c, pk_sport = cl_src_port c, pk_dport = cl_dst_port c,
      pk_flags = flags, pk_seq = seq, pk_ack = ack, pk_load = load\<rparr>"

datatype label = OUTGOING_SYN | INCOMING_SYN_ACK | OUTGOING_ACK | OUTGOING_DATA | INCOMING_RESPONSE
  | OUTGOING_FIN | INCOMING_FIN_ACK | OUTGOING_FINAL_ACK

type_synonym dumps = "(label \<times> Packet) list"
type_synonym 'n sr1 = "'n \<Rightarrow> Packet \<Rightarrow> (Packet option \<times> 'n) option"
type_synonym 'n send = "'n \<Rightarrow> Packet \<Rightarrow> 'n option"

text \<open>Each operation: the returned truth value, the dumped packets, the client and the network.\<close>

definition handshake :: "'n sr1 \<Rightarrow> 'n send \<Rightarrow> TCPClient \<Rightarrow> 'n \<Rightarrow> (bool \<times> dumps \<times> TCPClient \<times> 'n) option" where
  "handshake sr1 send c n = do {
     let syn = packet_of c 0x02 (my_seq c) 0 [];
     (response, n) \<leftarrow> sr1 n syn;
     (case response of
       None \<Rightarrow> Some (False, [(OUTGOING_SYN, syn)], c, n)
     | Some r \<Rightarrow>
         if pk_flags r \<noteq> 0x12 then Some (False, [(OUTGOING_SYN, syn), (INCOMING_SYN_ACK, r)], c, n)
         else do {
           let c = c\<lparr>their_seq := pk_seq r + 1, my_seq := pk_ack r\<rparr>;
           let ack = packet_of c 0x10 (my_seq c) (their_seq c) [];
           n \<leftarrow> send n ack;
           Some (True, [(OUTGOING_SYN, syn), (INCOMING_SYN_ACK, r), (OUTGOING_ACK, ack)], c\<lparr>cl_state := ESTABLISHED\<rparr>, n)
         })
   }"

definition send_data :: "'n sr1 \<Rightarrow> byte list \<Rightarrow> TCPClient \<Rightarrow> 'n \<Rightarrow> (bool \<times> dumps \<times> TCPClient \<times> 'n) option" where
  "send_data sr1 data c n =
     (if cl_state c \<noteq> ESTABLISHED then Some (False, [], c, n)
      else do {
        let pkt = packet_of c 0x18 (my_seq c) (their_seq c) data;
        (response, n) \<leftarrow> sr1 n pkt;
        (case response of
          None \<Rightarrow> Some (False, [(OUTGOING_DATA, pkt)], c, n)
        | Some r \<Rightarrow>
            let c = c\<lparr>my_seq := my_seq c + int (length data)\<rparr>;
                c = (if pk_load r \<noteq> [] then c\<lparr>their_seq := their_seq c + int (length (pk_load r))\<rparr> else c)
            in Some (True, [(OUTGOING_DATA, pkt), (INCOMING_RESPONSE, r)], c, n))
      })"

definition close_client :: "'n sr1 \<Rightarrow> 'n send \<Rightarrow> TCPClient \<Rightarrow> 'n \<Rightarrow> (bool \<times> dumps \<times> TCPClient \<times> 'n) option" where
  "close_client sr1 send c n =
     (if cl_state c \<noteq> ESTABLISHED then Some (False, [], c, n)
      else do {
        let fin = packet_of c 0x11 (my_seq c) (their_seq c) [];
        (response, n) \<leftarrow> sr1 n fin;
        (case response of
          None \<Rightarrow> Some (False, [(OUTGOING_FIN, fin)], c, n)
        | Some r \<Rightarrow> do {
            let c = c\<lparr>their_seq := pk_seq r + 1\<rparr>;
            let final_ack = packet_of c 0x10 (my_seq c + 1) (their_seq c) [];
            n \<leftarrow> send n final_ack;
            Some (True, [(OUTGOING_FIN, fin), (INCOMING_FIN_ACK, r), (OUTGOING_FINAL_ACK, final_ack)], c\<lparr>cl_state := CLOSED\<rparr>, n)
          })
      })"

text \<open>The menu, with the user's inputs as a list; it is left by the choice to exit.\<close>

datatype choice = Handshake_choice | Send_choice "byte list" | Close_choice | Exit_choice | Invalid_choice

fun menu :: "'n sr1 \<Rightarrow> 'n send \<Rightarrow> choice list \<Rightarrow> TCPClient \<Rightarrow> 'n \<Rightarrow> (dumps \<times> TCPClient \<times> 'n) option" where
  "menu sr1 send [] c n = Some ([], c, n)"
| "menu sr1 send (ch # chs) c n = (case ch of
     Exit_choice \<Rightarrow>
       if cl_state c = ESTABLISHED
       then do { (ok, d, c, n) \<leftarrow> close_client sr1 send c n; Some (d, c, n) }
       else Some ([], c, n)
   | _ \<Rightarrow> do {
       (ok, d, c, n) \<leftarrow> (case ch of
           Handshake_choice \<Rightarrow> handshake sr1 send c n
         | Send_choice data \<Rightarrow> send_data sr1 data c n
         | Close_choice \<Rightarrow> close_client sr1 send c n
         | _ \<Rightarrow> Some (False, [], c, n));
       (d', c, n) \<leftarrow> menu sr1 send chs c n;
       Some (d @ d', c, n)
     })"

section \<open>Scapy\<close>

text \<open>
  \<open>raw\<close> builds the bytes of a packet, \<open>dissect\<close> reads them, \<open>answers\<close> decides whether a received
  packet answers a sent one. The first two follow the wire format, and the third accepts a
  segment with exchanged endpoints that continues the sequence numbers.
\<close>

definition answering :: "Packet \<Rightarrow> Packet \<Rightarrow> bool" where
  "answering p r \<longleftrightarrow> pk_src r = pk_dst p \<and> pk_dst r = pk_src p \<and> pk_sport r = pk_dport p \<and> pk_dport r = pk_sport p \<and>
     (if pk_flags p = 0x02 then pk_flags r = 0x12 else (pk_flags r = 0x10 \<or> pk_flags r = 0x18) \<and> pk_seq r = pk_ack p) \<and>
     pk_seq p \<le> pk_ack r \<and> pk_ack r \<le> pk_seq p + 1 + int (length (pk_load p))"

definition scapy_ok ::
  "(Packet \<Rightarrow> byte list option) \<Rightarrow> (byte list \<Rightarrow> Packet option) \<Rightarrow> (Packet \<Rightarrow> Packet \<Rightarrow> bool) \<Rightarrow> bool" where
  "scapy_ok raw dissect answers \<longleftrightarrow>
     (\<forall>p. packet_in_range p \<longrightarrow> (\<exists>x. raw p = Some x \<and> wire_format p x)) \<and>
     (\<forall>p x. wire_format p x \<longrightarrow> dissect x = Some p) \<and>
     (\<forall>p r. answering p r \<longrightarrow> answers p r)"

lemma uint_of_small: "0 \<le> k \<Longrightarrow> k < 4294967296 \<Longrightarrow> uint (word_of_int k :: u32) = k"
  by (simp add: uint_word_of_int_eq take_bit_int_eq_self)

lemma flags_of_client:
  "flags_of 0x02 = \<lparr>f_fin = False, f_syn = True, f_rst = False, f_psh = False, f_ack = False\<rparr>"
  "flags_of 0x10 = \<lparr>f_fin = False, f_syn = False, f_rst = False, f_psh = False, f_ack = True\<rparr>"
  "flags_of 0x18 = \<lparr>f_fin = False, f_syn = False, f_rst = False, f_psh = True, f_ack = True\<rparr>"
  "flags_of 0x11 = \<lparr>f_fin = True, f_syn = False, f_rst = False, f_psh = False, f_ack = True\<rparr>"
  by code_simp+

lemma peek_prefix:
  assumes "0 \<le> i"
  shows "i + 1 \<le> int (length x) \<Longrightarrow> peek8 (x @ y) i = peek8 x i"
    and "i + 2 \<le> int (length x) \<Longrightarrow> peek16 (x @ y) i = peek16 x i"
    and "i + 4 \<le> int (length x) \<Longrightarrow> peek32 (x @ y) i = peek32 x i"
  using assms by (simp_all add: peek_defs nth_append nat_less_iff)

text \<open>The fields of a packet at the start of a longer buffer.\<close>

lemma wire_fields:
  assumes "wire_format p x" "b = x @ y"
  shows "40 \<le> length x" "length x \<le> 1500" "length x = 40 + length (pk_load p)" "peek8 b 0 = 0x45" "peek8 b IP_proto = 6"
    and "uint (htons (peek16 b IP_len)) = 40 + int (length (pk_load p))" "peek32 b IP_src = pk_src p" "peek32 b IP_dst = pk_dst p"
    and "peek16 b 20 = htons (word_of_int (pk_sport p))" "peek16 b 22 = htons (word_of_int (pk_dport p))"
    and "htonl (peek32 b 24) = word_of_int (pk_seq p)" "htonl (peek32 b 28) = word_of_int (pk_ack p)"
    and "peek8 b 32 = 0x50" "peek8 b 33 = pk_flags p" "bytes_at b 40 (int (length (pk_load p))) = pk_load p"
proof -
  note pk = assms(1) [unfolded wire_format_def packet_in_range_def]
  show len: "40 \<le> length x" "length x \<le> 1500" "length x = 40 + length (pk_load p)" using pk by auto
  have p8: "peek8 b i = peek8 x i" if "0 \<le> i" "i < 40" for i using that len assms(2) peek_prefix(1) by simp
  have p16: "peek16 b i = peek16 x i" if "0 \<le> i" "i < 39" for i using that len assms(2) peek_prefix(2) by simp
  have p32: "peek32 b i = peek32 x i" if "0 \<le> i" "i < 37" for i using that len assms(2) peek_prefix(3) by simp
  have "peek16 b 2 = htons (word_of_int (40 + int (length (pk_load p))))" using pk p16 [of 2] by (simp only:)
  then show "uint (htons (peek16 b 2)) = 40 + int (length (pk_load p))"
    using pk by (simp only: htons_htons uint_word_of_int_eq) (simp add: take_bit_int_eq_self)
  show "peek8 b 0 = 0x45" "peek8 b 9 = 6" "peek8 b 32 = 0x50" "peek8 b 33 = pk_flags p" using pk p8 by simp_all
  show "peek16 b 20 = htons (word_of_int (pk_sport p))" "peek16 b 22 = htons (word_of_int (pk_dport p))" using pk p16 by simp_all
  show "peek32 b 12 = pk_src p" "peek32 b 16 = pk_dst p" "htonl (peek32 b 24) = word_of_int (pk_seq p)"
    "htonl (peek32 b 28) = word_of_int (pk_ack p)" using pk p32 by simp_all
  show "bytes_at b 40 (int (length (pk_load p))) = pk_load p" using pk assms(2) by (simp add: bytes_at_def)
qed

section \<open>What the handshake needs of a server\<close>

text \<open>
  A peer that listens to the client with the initial sequence number \<open>iss\<close> answers its SYN, and is
  then open to it after its acknowledgment.
\<close>

locale handshake_peer =
  fixes sr1 :: "'n sr1" and send :: "'n send"
    and listening half_open open_to :: "TCPClient \<Rightarrow> u32 \<Rightarrow> 'n \<Rightarrow> bool"
  assumes syn_answered: "listening c iss n \<Longrightarrow> \<exists>r n'. sr1 n (packet_of c 0x02 (my_seq c) 0 []) = Some (Some r, n') \<and>
      pk_flags r = 0x12 \<and> pk_seq r = uint iss \<and> pk_ack r = my_seq c + 1 \<and> half_open c iss n'"
    and ack_taken: "half_open c iss n \<Longrightarrow> \<exists>n'. send n (packet_of c 0x10 (my_seq c + 1) (uint iss + 1) []) = Some n' \<and> open_to c iss n'"
begin

lemma handshake_succeeds:
  assumes "listening c iss n"
  shows "\<exists>d n'. handshake sr1 send c n =
      Some (True, d, c\<lparr>their_seq := uint iss + 1, my_seq := my_seq c + 1, cl_state := ESTABLISHED\<rparr>, n') \<and>
    open_to c iss n' \<and> map fst d = [OUTGOING_SYN, INCOMING_SYN_ACK, OUTGOING_ACK]"
proof -
  from syn_answered [OF assms] obtain r n1 where r: "sr1 n (packet_of c 0x02 (my_seq c) 0 []) = Some (Some r, n1)"
    "pk_flags r = 0x12" "pk_seq r = uint iss" "pk_ack r = my_seq c + 1" "half_open c iss n1" by blast
  from ack_taken [OF r(5)] obtain n2 where
    s: "send n1 (packet_of c 0x10 (my_seq c + 1) (uint iss + 1) []) = Some n2" "open_to c iss n2" by blast
  have "packet_of (c\<lparr>their_seq := q, my_seq := k\<rparr>) = packet_of c" for q k by (intro ext) (simp add: packet_of_def)
  with r s show ?thesis by (simp add: handshake_def Let_def)
qed

end

section \<open>A concrete packet library\<close>

text \<open>Headers without options; the checksums are left zero, which the original server ignores.\<close>

definition bytes16 :: "u16 \<Rightarrow> byte list" where
  "bytes16 w = [byte_of 0 w, byte_of 1 w]"

definition bytes32 :: "u32 \<Rightarrow> byte list" where
  "bytes32 w = [byte_of 0 w, byte_of 1 w, byte_of 2 w, byte_of 3 w]"

definition sample_raw :: "Packet \<Rightarrow> byte list option" where
  "sample_raw p = (if packet_in_range p then Some (
     [0x45, 0] @ bytes16 (htons (word_of_int (40 + int (length (pk_load p))))) @ [0, 1, 0, 0, 0x40, 6, 0, 0] @
     bytes32 (pk_src p) @ bytes32 (pk_dst p) @
     bytes16 (htons (word_of_int (pk_sport p))) @ bytes16 (htons (word_of_int (pk_dport p))) @
     bytes32 (htonl (word_of_int (pk_seq p))) @ bytes32 (htonl (word_of_int (pk_ack p))) @
     [0x50, pk_flags p, 0x20, 0, 0, 0, 0, 0] @ pk_load p) else None)"

definition sample_dissect :: "byte list \<Rightarrow> Packet option" where
  "sample_dissect x = Some \<lparr>pk_src = peek32 x IP_src, pk_dst = peek32 x IP_dst,
     pk_sport = uint (htons (peek16 x 20)), pk_dport = uint (htons (peek16 x 22)), pk_flags = peek8 x 33,
     pk_seq = uint (htonl (peek32 x 24)), pk_ack = uint (htonl (peek32 x 28)), pk_load = drop 40 x\<rparr>"

lemma sample_scapy_ok: "scapy_ok sample_raw sample_dissect answering"
proof -
  have "\<exists>x. sample_raw p = Some x \<and> wire_format p x" if "packet_in_range p" for p
    using that by (simp add: sample_raw_def wire_format_def peek_defs bytes16_def bytes32_def bytes_at_def)
  moreover have "sample_dissect x = Some p" if "wire_format p x" for p x
  proof -
    note w = that [unfolded wire_format_def packet_in_range_def]
    have u16: "uint (word_of_int k :: u16) = k" if "0 \<le> k" "k < 65536" for k
      using that by (simp add: uint_word_of_int_eq take_bit_int_eq_self)
    have "drop 40 x = pk_load p" using w take_all [of "drop 40 x" "length (pk_load p)"] by (simp add: bytes_at_def)
    with w show ?thesis by (simp add: sample_dissect_def u16 uint_of_small)
  qed
  ultimately show ?thesis by (simp add: scapy_ok_def)
qed

definition sample_client :: TCPClient where
  "sample_client = TCPClient_init 0x0100000a 0x0200000a 51000 8080"

end
