(* ===== verification/Conversation.thy ===== *)
theory Conversation
  imports Server Client
begin

text \<open>
  The client class (\<open>refactor/tests/catch.py\<close>, the same as in \<open>packet_cooking/client.py\<close>) against the
  refactored server. A packet the client sends is read by one iteration of the server's loop, and
  what the loop writes to the device is what scapy may hand to the client. The refactored server
  verifies checksums, so scapy is also relied on to fill them in (\<open>scapy_sums\<close>). Shown: the
  handshake succeeds, and after it nothing the client does but a second handshake gets an answer.
\<close>

section \<open>Client and server connected\<close>

record net =
  ct_world :: world
  ct_time :: nat

text \<open>\<open>ticks k\<close> holds what the server's iteration number \<open>k\<close> draws on besides the packet.\<close>

definition tick_for :: "(nat \<Rightarrow> tick) \<Rightarrow> net \<Rightarrow> byte list \<Rightarrow> tick" where
  "tick_for ticks n x = (ticks (ct_time n))\<lparr>tk_shutdown := False, tk_packet := Some x\<rparr>"

definition deliver :: "(Packet \<Rightarrow> byte list option) \<Rightarrow> (nat \<Rightarrow> tick) \<Rightarrow> net \<Rightarrow> Packet \<Rightarrow> (byte list list \<times> net) option" where
  "deliver raw ticks n p = do {
     x \<leftarrow> raw p;
     w \<leftarrow> server_run MTU_SIZE [tick_for ticks n x] (ct_world n);
     Some (drop (length (w_sent (ct_world n))) (w_sent w), \<lparr>ct_world = w, ct_time = ct_time n + 1\<rparr>)
   }"

definition sr1_net ::
  "(Packet \<Rightarrow> byte list option) \<Rightarrow> (byte list \<Rightarrow> Packet option) \<Rightarrow> (Packet \<Rightarrow> Packet \<Rightarrow> bool) \<Rightarrow> (nat \<Rightarrow> tick) \<Rightarrow> net sr1" where
  "sr1_net raw dissect answers ticks n p = do {
     (w, n) \<leftarrow> deliver raw ticks n p;
     rs \<leftarrow> those (map dissect w);
     Some (find (answers p) rs, n)
   }"

definition send_net :: "(Packet \<Rightarrow> byte list option) \<Rightarrow> (nat \<Rightarrow> tick) \<Rightarrow> net send" where
  "send_net raw ticks n p = do {
     (w, n) \<leftarrow> deliver raw ticks n p;
     Some n
   }"

text \<open>Both checksum fields hold the RFC 1071 checksum of what they cover, with the field itself zero.\<close>

definition checksummed :: "byte list \<Rightarrow> bool" where
  "checksummed x \<longleftrightarrow>
     peek16 x IP_checksum = rfc1071 (words16 (take 20 (poke16 x IP_checksum 0))) \<and>
     peek16 x (20 + TCP_checksum) = rfc1071 (words16 (pseudo_bytes (pseudo_of x (int (length x) - 20)) @
       drop 20 (poke16 x (20 + TCP_checksum) 0)))"

definition scapy_sums :: "(Packet \<Rightarrow> byte list option) \<Rightarrow> bool" where
  "scapy_sums raw \<longleftrightarrow> (\<forall>p x. raw p = Some x \<longrightarrow> wire_format p x \<longrightarrow> checksummed x)"

section \<open>A packet in the receive buffer\<close>

definition flow :: "Packet \<Rightarrow> ID" where
  "flow p = \<lparr>id_src_port = word_of_int (pk_sport p), id_dst_port = word_of_int (pk_dport p),
     id_src_ip = ntohl (pk_src p), id_dst_ip = ntohl (pk_dst p)\<rparr>"

text \<open>What the stack makes of a packet of the client.\<close>

lemma wire_accepted:
  assumes "wire_format p x" "checksummed x" "length tu = 1500" "b = x @ drop (length x) tu"
  shows "length b = 1500" "segment_at b (int (length x)) 20" "ip_validate b (int (length x)) = Some 1" "ihl_of b = 20"
    and "seg_id b 20 = flow p" "peek16 b (20 + 16) = tcp_cks b (int (length x)) 20"
proof -
  note w = wire_fields [OF assms(1,4)]
  show l: "length b = 1500" using w(1,2) assms(3,4) by simp
  show ihl: "ihl_of b = 20" using w(4) by (simp add: hlen_low_def)
  show "segment_at b (int (length x)) 20" using l ihl w(1,2) by (simp add: segment_at_def)
  have "peek16 b 10 = peek16 x 10" "peek16 b 36 = peek16 x 36" "peek32 b 12 = peek32 x 12" "peek32 b 16 = peek32 x 16"
    "peek8 b 9 = peek8 x 9" using assms(4) w(1) peek_prefix [of _ x] by simp_all
  note pre = this
  have p16: "poke16 b i v = poke16 x i v @ drop (length x) tu" if "0 \<le> i" "i + 2 \<le> int (length x)" for i v
    using that assms(4) by (simp add: poke_defs list_update_append nat_less_iff)
  have c10: "peek16 b 10 = cks (bytes_at (poke16 b 10 0) 0 20)"
    using assms(2) w(1) by (simp add: checksummed_def pre p16 bytes_at_def rfc1071_words16)
  then have "poke16 b 10 (cks (bytes_at (poke16 b 10 0) 0 20)) = b"
    using l c16.poke_peek [of b 10] by (simp add: in_range_def)
  then have "cks (bytes_at b 0 20) = 0"
    using cks_roundtrip [of b 0 20 10] l by (simp add: in_range_def)
  then show "ip_validate b (int (length x)) = Some 1"
    using ip_validate_eq [of "int (length x)" b] l ihl w(1,2,4) by simp
  show "seg_id b 20 = flow p" using w(7-10) by (simp add: seg_id_def flow_def)
  have "pseudo_of b n = pseudo_of x n" for n by (simp add: pseudo_of_def pre)
  moreover have "bytes_at (poke16 b 36 0) 20 (int (length x) - 20) = drop 20 (poke16 x 36 0)"
    using w(1) by (simp add: p16 bytes_at_def nat_diff_distrib)
  ultimately show "peek16 b (20 + 16) = tcp_cks b (int (length x)) 20"
    using assms(2) by (simp add: checksummed_def pre tcp_cks_def rfc1071_words16)
qed

text \<open>The header fields the dispatcher looks at.\<close>

lemma wire_header:
  assumes "wire_format p x" "b = x @ y"
  shows "tcp_flags (tcp_header b 20) = pk_flags p" "ntohl (tcp_seq_num (tcp_header b 20)) = word_of_int (pk_seq p)"
    "ntohl (tcp_ack_num (tcp_header b 20)) = word_of_int (pk_ack p)" "tcp_data_offset (tcp_header b 20) = 0x50"
  using wire_fields [OF assms] by (simp_all add: tcp_header_def)

definition header_of :: "Packet \<Rightarrow> TCP \<Rightarrow> bool" where
  "header_of p h \<longleftrightarrow> tcp_flags h = pk_flags p \<and> ntohl (tcp_seq_num h) = word_of_int (pk_seq p) \<and>
     ntohl (tcp_ack_num h) = word_of_int (pk_ack p) \<and> tcp_data_offset h = 0x50"

text \<open>The SYN-ACK on the wire.\<close>

definition syn_ack_packet :: "Packet \<Rightarrow> TCB \<Rightarrow> Packet" where
  "syn_ack_packet p t = \<lparr>pk_src = pk_dst p, pk_dst = pk_src p, pk_sport = pk_dport p, pk_dport = pk_sport p,
     pk_flags = 0x12, pk_seq = uint (snd_iss (tcb_send t)), pk_ack = uint (rcv_next (tcb_recv t)), pk_load = []\<rparr>"

lemma syn_ack_wire:
  assumes "wire_format p x" "length tu = 1500" "b = x @ drop (length x) tu" "segment_at b len 20"
  shows "wire_format (syn_ack_packet p t) (bytes_at (syn_ack b len 20 t) 0 40)"
proof -
  note w = wire_fields [OF assms(1,3)]
  have l: "length b = 1500" using assms(4) by (simp add: segment_at_def)
  let ?y = "syn_ack b len 20 t" and ?t = "bytes_at (syn_ack b len 20 t) 0 40"
  have y: "?t = take 40 ?y" "length ?t = 40" using l by (simp_all add: bytes_at_def)
  have pre: "peek8 ?t i = peek8 ?y i" "peek16 ?t i = peek16 ?y i" "peek32 ?t i = peek32 ?y i" if "0 \<le> i" "i < 37" for i
    using that y peek_prefix [of i ?t "drop 40 ?y"] by simp_all
  have ip: "peek8 ?y 0 = 0x45" "peek8 ?y 9 = 6" "peek16 ?y 2 = htons 40" "peek32 ?y 12 = pk_dst p" "peek32 ?y 16 = pk_src p"
    using l w by (simp_all add: syn_ack_def Let_def reply_ip_def mem_simps in_range_def hlen_low_def hlen_high_def)
  from syn_ack_header [OF assms(4), of t] w(9,10,13) have th: "peek16 ?y 20 = htons (word_of_int (pk_dport p))"
    "peek16 ?y 22 = htons (word_of_int (pk_sport p))" "peek8 ?y 32 = 0x50" "peek8 ?y 33 = 0x12"
    "peek32 ?y 24 = htonl (snd_iss (tcb_send t))" "peek32 ?y 28 = htonl (rcv_next (tcb_recv t))"
    by (simp_all add: tcp_header_def set_hlen_high_def hlen_high_def)
  have "packet_in_range (syn_ack_packet p t)"
    using assms(1) uint_lt2p [of "snd_iss (tcb_send t)"] uint_lt2p [of "rcv_next (tcb_recv t)"]
    by (simp add: wire_format_def packet_in_range_def syn_ack_packet_def)
  with ip th y(2) show ?thesis
    by (simp add: wire_format_def syn_ack_packet_def pre)
qed

section \<open>One packet\<close>

definition net_ready :: "net \<Rightarrow> bool" where
  "net_ready n \<longleftrightarrow> world_inv (ct_world n) \<and> conn_count (ct_world n) < 2147483648 \<and> (\<forall>k. \<not> oom (w_srv (ct_world n)) k)"

abbreviation view_of :: "net \<Rightarrow> ID \<Rightarrow> TCB option" where
  "view_of n \<equiv> conn_view (w_srv (ct_world n))"

lemma server_iter_packet:
  assumes "server_iter MTU_SIZE t w = Some w'" "tick_read t w = (k, b)" "k > 0"
    and "net_demux (w_srv w) b k (tk_amb t) = Some (n, b', s')"
  shows "w_srv w' = s'" "w_sent w' = (if n > 0 then w_sent w @ [bytes_at b' 0 n] else w_sent w)"
  using assms by (auto simp: server_iter_def tun_write_def bind_eq_Some_conv split: if_splits)

lemma tcp_packet_run:
  fixes n :: net
  assumes "scapy_ok raw dissect answers" "scapy_sums raw" "net_ready n" "packet_in_range p"
    and spec: "\<And>h. header_of p h \<Longrightarrow> \<exists>t. tcp_spec (view_of n) (flow p) h (tcp_gen_iss (tk_amb (ticks (ct_time n)))) = (rep t, m t) \<and> P t"
    and reply: "\<And>t. P t \<Longrightarrow> rep t = No_Reply \<or> rep t = Syn_Ack t \<or> rep t = Send_Rst"
  shows "\<exists>t sent n'. deliver raw ticks n p = Some (sent, n') \<and> P t \<and> world_inv (ct_world n') \<and>
    (\<forall>k. \<not> oom (w_srv (ct_world n')) k) \<and> ct_time n' = ct_time n + 1 \<and> view_of n' = m t \<and>
    w_sent (ct_world n') = w_sent (ct_world n) @ sent \<and> (rep t = Send_Rst \<longrightarrow> length sent = 1) \<and>
    (rep t \<noteq> Send_Rst \<longrightarrow> those (map dissect sent) = Some (if rep t = No_Reply then [] else [syn_ack_packet p t]))"
proof -
  let ?w = "ct_world n" and ?a = "tk_amb (ticks (ct_time n))"
  obtain x where x: "raw p = Some x" "wire_format p x" "checksummed x" using assms(1,2,4) by (auto simp: scapy_ok_def scapy_sums_def)
  have inv: "srv_inv (w_srv ?w)" "length (w_buf ?w) = 1500" using assms(3) by (auto simp: net_ready_def world_inv_def)
  have room: "room (w_srv ?w)" using room_count [OF inv(1)] assms(3) by (simp add: net_ready_def conn_count_def)
  let ?b = "x @ drop (length x) (w_buf ?w)" and ?t = "tick_for ticks n x"
  note acc = wire_accepted [OF x(2,3) inv(2) refl] and hd = wire_header [OF x(2) refl]
  obtain t where t: "tcp_spec (view_of n) (seg_id ?b 20) (tcp_header ?b 20) (tcp_gen_iss ?a) = (rep t, m t)" "P t"
    using spec [of "tcp_header ?b 20"] hd acc(5) by (auto simp: header_of_def)
  from tcp_dispatch_ok [OF inv(1) room acc(2,6), of ?a] t assms(3) obtain l b' s' where
    d: "tcp_dispatch (w_srv ?w) ?b (int (length x)) 20 ?a = Some (l, b', s')" "srv_inv s'" "oom s' = oom (w_srv ?w)"
      "conn_view s' = m t" and c: "carries (rep t) ?b (int (length x)) 20 (amb_junk ?a) l b'"
    by (auto simp: net_ready_def)
  note fs = wire_fields [OF x(2) refl]
  have rd: "tick_read ?t ?w = (int (length x), ?b)" "int (length x) > 0" "tk_amb ?t = ?a"
    using fs(1,2) by (auto simp: tick_for_def tun_read_def)
  have dm: "net_demux (w_srv ?w) ?b (int (length x)) ?a = Some (l, b', s')"
    using d(1) acc(1,3,4) fs(2,5) by (simp add: net_demux_eq received_def)
  obtain w' where w': "server_iter MTU_SIZE ?t ?w = Some w'" "world_inv w'"
    using server_iter_ok [of ?w ?t] assms(3) by (auto simp: net_ready_def)
  note it = server_iter_packet [OF w'(1) rd(1,2) dm [folded rd(3)]]
  let ?sent = "if l > 0 then [bytes_at b' 0 l] else []"
  have run: "deliver raw ticks n p = Some (?sent, \<lparr>ct_world = w', ct_time = ct_time n + 1\<rparr>)"
    using x(1) w'(1) it(2) by (simp add: deliver_def tick_for_def)
  have "(rep t = Send_Rst \<longrightarrow> length ?sent = 1) \<and>
      (rep t \<noteq> Send_Rst \<longrightarrow> those (map dissect ?sent) = Some (if rep t = No_Reply then [] else [syn_ack_packet p t]))"
    using reply [OF t(2)] c syn_ack_wire [OF x(2) inv(2) refl acc(2), of t] hd(4) assms(1)
    by (auto simp: carries_def scapy_ok_def hlen_high_def)
  then show ?thesis
    using run t(2) w'(2) d(3,4) it assms(3)
    by (intro exI [of _ t] exI [of _ ?sent] exI [of _ "\<lparr>ct_world = w', ct_time = ct_time n + 1\<rparr>"]) (simp add: net_ready_def)
qed

section \<open>The handshake\<close>

definition client_id :: "TCPClient \<Rightarrow> ID" where
  "client_id c = flow (packet_of c 0 0 0 [])"

lemma flow_packet_of [simp]: "flow (packet_of c fl q a l) = client_id c"
  by (simp add: client_id_def flow_def packet_of_def)

lemma packet_of_fields:
  "pk_flags (packet_of c fl q a l) = fl" "pk_seq (packet_of c fl q a l) = q" "pk_ack (packet_of c fl q a l) = a"
  by (simp_all add: packet_of_def)

lemma client_id_update [simp]:
  "client_id (c\<lparr>my_seq := q\<rparr>) = client_id c" "client_id (c\<lparr>their_seq := q\<rparr>) = client_id c"
  "client_id (c\<lparr>cl_state := st\<rparr>) = client_id c"
  by (simp_all add: client_id_def flow_def packet_of_def)

lemma length_those: "those xs = Some ys \<Longrightarrow> length xs = length ys"
  by (induction xs arbitrary: ys) (auto split: option.splits)

text \<open>A client that may talk to the server, and a connection both agree on.\<close>

definition client_ok :: "TCPClient \<Rightarrow> bool" where
  "client_ok c \<longleftrightarrow> 0 \<le> cl_src_port c \<and> cl_src_port c < 65536 \<and> cl_dst_port c = 8080"

definition agreed :: "Con_State \<Rightarrow> u32 \<Rightarrow> TCB \<Rightarrow> bool" where
  "agreed st iss t \<longleftrightarrow> con_state t = st \<and> rcv_next (tcb_recv t) = 1001 \<and> snd_next (tcb_send t) = iss + 1"

text \<open>
  The server as a peer of the client's handshake: \<open>m\<close> is its connections, \<open>out\<close> what it has sent and
  \<open>k\<close> the number of packets it has received when the handshake begins.
\<close>

definition listening where
  "listening raw dissect answers ticks m out k c iss n \<longleftrightarrow> scapy_ok raw dissect answers \<and> scapy_sums raw \<and> net_ready n \<and>
     conn_count (ct_world n) < 2147483647 \<and> client_ok c \<and> my_seq c = 1000 \<and> ct_time n = k \<and> view_of n = m \<and>
     w_sent (ct_world n) = out \<and> m (client_id c) = None \<and> tcp_gen_iss (tk_amb (ticks k)) = iss \<and> uint iss < 4294967295"

definition half_open where
  "half_open raw dissect answers m out k c iss n \<longleftrightarrow> scapy_ok raw dissect answers \<and> scapy_sums raw \<and> net_ready n \<and>
     client_ok c \<and> my_seq c = 1000 \<and> uint iss < 4294967295 \<and>
     (\<exists>t y. view_of n = m(client_id c \<mapsto> t) \<and> agreed CON_SYN_RECEIVED iss t \<and> w_sent (ct_world n) = out @ [y])"

definition open_to where
  "open_to m out c iss n \<longleftrightarrow> net_ready n \<and>
     (\<exists>t y. view_of n = m(client_id c \<mapsto> t) \<and> agreed CON_ESTABLISHED iss t \<and> w_sent (ct_world n) = out @ [y])"

lemma client_id_port: "client_ok c \<Longrightarrow> id_dst_port (client_id c) = TCP_LISTEN_PORT"
  by (simp add: client_id_def flow_def packet_of_def client_ok_def)

lemma conn_count_upd:
  assumes "world_inv (ct_world n)" "view_of n' = (view_of n)(i \<mapsto> t)"
  shows "conn_count (ct_world n') \<le> conn_count (ct_world n) + 1"
proof -
  have "finite (dom (view_of n))" using conn_ptrs_view(2) assms(1) by (simp add: world_inv_def srv_inv_def)
  then show ?thesis using assms(2) by (simp add: conn_count_def card_insert_if)
qed

lemma syn_answered_net:
  fixes ticks :: "nat \<Rightarrow> tick"
  assumes "listening raw dissect answers ticks m out k c iss n"
  shows "\<exists>r n'. sr1_net raw dissect answers ticks n (packet_of c 0x02 (my_seq c) 0 []) = Some (Some r, n') \<and>
    pk_flags r = 0x12 \<and> pk_seq r = uint iss \<and> pk_ack r = my_seq c + 1 \<and> half_open raw dissect answers m out k c iss n'"
proof -
  note a = assms [unfolded listening_def]
  let ?syn = "packet_of c 0x02 1000 0 []"
  let ?P = "\<lambda>t. agreed CON_SYN_RECEIVED iss t \<and> snd_iss (tcb_send t) = iss"
  have sp: "\<exists>t. tcp_spec (view_of n) (flow ?syn) h (tcp_gen_iss (tk_amb (ticks (ct_time n)))) = (Syn_Ack t, m(client_id c \<mapsto> t)) \<and> ?P t"
    if "header_of ?syn h" for h
    using that a client_id_port [of c]
    by (simp add: tcp_spec_def Let_def header_of_def packet_of_fields flags_of_client fresh_tcb_def syn_received_def agreed_def)
  have sc: "scapy_ok raw dissect answers" "scapy_sums raw" "net_ready n" using a by simp_all
  have rng: "packet_in_range ?syn" using a by (simp add: packet_in_range_def packet_of_def client_ok_def)
  from tcp_packet_run [where P = ?P and rep = Syn_Ack and m = "\<lambda>t. m(client_id c \<mapsto> t)" and ticks = ticks, OF sc rng sp] obtain t sent n' where
    n': "deliver raw ticks n ?syn = Some (sent, n')" "?P t" "world_inv (ct_world n')" "\<forall>k. \<not> oom (w_srv (ct_world n')) k"
      "view_of n' = m(client_id c \<mapsto> t)" "w_sent (ct_world n') = w_sent (ct_world n) @ sent"
    and w: "those (map dissect sent) = Some [syn_ack_packet ?syn t]" by auto
  have ack: "answering ?syn (syn_ack_packet ?syn t)" using n'(2) by (simp add: answering_def syn_ack_packet_def packet_of_def agreed_def)
  then have "sr1_net raw dissect answers ticks n ?syn = Some (Some (syn_ack_packet ?syn t), n')"
    using n'(1) w sc(1) by (simp add: sr1_net_def scapy_ok_def)
  moreover have "net_ready n'"
    using n'(3,4) a conn_count_upd [of n n' "client_id c" t] n'(5) by (simp add: net_ready_def)
  then have "half_open raw dissect answers m out k c iss n'"
    using a n'(2,5,6) length_those [OF w] by (auto simp: half_open_def length_Suc_conv)
  ultimately show ?thesis using a n'(2) by (auto simp: syn_ack_packet_def agreed_def)
qed

lemma ack_taken_net:
  assumes "half_open raw dissect answers m out k c iss n"
  shows "\<exists>n'. send_net raw ticks n (packet_of c 0x10 (my_seq c + 1) (uint iss + 1) []) = Some n' \<and> open_to m out c iss n'"
proof -
  note a = assms [unfolded half_open_def]
  from a obtain t y where v: "view_of n = m(client_id c \<mapsto> t)" and t: "agreed CON_SYN_RECEIVED iss t"
    and y: "w_sent (ct_world n) = out @ [y]" by blast
  let ?ack = "packet_of c 0x10 1001 (uint iss + 1) []"
  have sp: "\<exists>u. tcp_spec (view_of n) (flow ?ack) h (tcp_gen_iss (tk_amb (ticks (ct_time n)))) = (No_Reply, m(client_id c \<mapsto> u)) \<and>
      agreed CON_ESTABLISHED iss u" if "header_of ?ack h" for h
    using that t v client_id_port [of c] a
    by (intro exI [of _ "established t"])
      (simp add: tcp_spec_def Let_def header_of_def packet_of_fields flags_of_client established_def agreed_def)
  have sc: "scapy_ok raw dissect answers" "scapy_sums raw" "net_ready n" using a by simp_all
  have rng: "packet_in_range ?ack" using a by (simp add: packet_in_range_def packet_of_def client_ok_def)
  from tcp_packet_run [where P = "agreed CON_ESTABLISHED iss" and rep = "\<lambda>t. No_Reply" and m = "\<lambda>t. m(client_id c \<mapsto> t)" and ticks = ticks,
    OF sc rng sp] obtain u sent n' where
    n': "deliver raw ticks n ?ack = Some (sent, n')" "agreed CON_ESTABLISHED iss u" "world_inv (ct_world n')"
      "\<forall>k. \<not> oom (w_srv (ct_world n')) k" "view_of n' = m(client_id c \<mapsto> u)" "w_sent (ct_world n') = w_sent (ct_world n) @ sent"
      "those (map dissect sent) = Some []" by auto
  have "dom (view_of n') = dom (view_of n)" using n'(5) v by auto
  then have "open_to m out c iss n'"
    using n' a y length_those [OF n'(7)] by (auto simp: open_to_def net_ready_def conn_count_def)
  with n'(1) a show ?thesis by (simp add: send_net_def)
qed

interpretation peer: handshake_peer "sr1_net raw dissect answers ticks" "send_net raw ticks"
  "listening raw dissect answers ticks m out k" "half_open raw dissect answers m out k" "open_to m out"
  for raw dissect answers ticks m out k
  by unfold_locales (rule syn_answered_net, assumption, rule ack_taken_net)

section \<open>After the handshake\<close>

text \<open>On an established connection the server neither answers nor notices data and FIN.\<close>

lemma sr1_net_silent:
  assumes "scapy_ok raw dissect answers" "scapy_sums raw" "net_ready n" "client_ok c"
    and "view_of n (client_id c) = Some t" "con_state t = CON_ESTABLISHED"
    and "packet_in_range (packet_of c fl q a l)" "fl = 0x18 \<or> fl = 0x11"
  shows "\<exists>n'. sr1_net raw dissect answers ticks n (packet_of c fl q a l) = Some (None, n') \<and> net_ready n' \<and>
    view_of n' = view_of n \<and> w_sent (ct_world n') = w_sent (ct_world n)"
proof -
  let ?p = "packet_of c fl q a l"
  have sp: "\<exists>u. tcp_spec (view_of n) (flow ?p) h (tcp_gen_iss (tk_amb (ticks (ct_time n)))) = (No_Reply, view_of n) \<and> u = t"
    if "header_of ?p h" for h
    using that assms(5,6,8) client_id_port [OF assms(4)]
    by (auto simp: tcp_spec_def Let_def header_of_def packet_of_fields flags_of_client)
  from tcp_packet_run [where P = "\<lambda>u. u = t" and rep = "\<lambda>t. No_Reply" and m = "\<lambda>t. view_of n" and ticks = ticks,
    OF assms(1-3,7) sp] obtain sent n' where
    n': "deliver raw ticks n ?p = Some (sent, n')" "world_inv (ct_world n')" "\<forall>k. \<not> oom (w_srv (ct_world n')) k"
      "view_of n' = view_of n" "w_sent (ct_world n') = w_sent (ct_world n) @ sent" "those (map dissect sent) = Some []" by auto
  with assms(3) length_those [OF n'(6)] show ?thesis by (simp add: sr1_net_def net_ready_def conn_count_def)
qed

text \<open>A second SYN on an established connection is answered by one segment and ends the connection.\<close>

lemma second_syn:
  assumes "scapy_ok raw dissect answers" "scapy_sums raw" "net_ready n" "client_ok c"
    and "view_of n (client_id c) = Some t" "con_state t = CON_ESTABLISHED" "packet_in_range (packet_of c 0x02 q 0 [])"
  shows "\<exists>z n'. deliver raw ticks n (packet_of c 0x02 q 0 []) = Some ([z], n') \<and>
    view_of n' = (view_of n)(client_id c := None)"
proof -
  let ?p = "packet_of c 0x02 q 0 []"
  have sp: "\<exists>u. tcp_spec (view_of n) (flow ?p) h (tcp_gen_iss (tk_amb (ticks (ct_time n)))) =
      (Send_Rst, (view_of n)(client_id c := None)) \<and> u = t" if "header_of ?p h" for h
    using that assms(5,6) client_id_port [OF assms(4)]
    by (auto simp: tcp_spec_def Let_def header_of_def packet_of_fields flags_of_client)
  from tcp_packet_run [where P = "\<lambda>u. u = t" and rep = "\<lambda>t. Send_Rst" and m = "\<lambda>t. (view_of n)(client_id c := None)"
    and ticks = ticks, OF assms(1-3,7) sp] show ?thesis
    by (auto simp: length_Suc_conv)
qed

text \<open>The choices of a user who does not start a second handshake.\<close>

fun talking :: "choice \<Rightarrow> bool" where
  "talking Handshake_choice = False"
| "talking (Send_choice data) = (length data \<le> 1460)"
| "talking _ = True"

definition answered :: "label \<Rightarrow> bool" where
  "answered l \<longleftrightarrow> l = INCOMING_RESPONSE \<or> l = INCOMING_FIN_ACK"

definition in_conversation :: "TCPClient \<Rightarrow> net \<Rightarrow> bool" where
  "in_conversation c n \<longleftrightarrow> net_ready n \<and> client_ok c \<and> cl_state c = ESTABLISHED \<and>
     0 \<le> my_seq c \<and> my_seq c < 4294967296 \<and> 0 \<le> their_seq c \<and> their_seq c < 4294967296 \<and>
     (\<exists>t. view_of n (client_id c) = Some t \<and> con_state t = CON_ESTABLISHED)"

lemma send_data_silent:
  assumes "scapy_ok raw dissect answers" "scapy_sums raw" "in_conversation c n" "length data \<le> 1460"
  shows "\<exists>d n'. send_data (sr1_net raw dissect answers ticks) data c n = Some (False, d, c, n') \<and> in_conversation c n' \<and>
    view_of n' = view_of n \<and> w_sent (ct_world n') = w_sent (ct_world n) \<and> \<not> (\<exists>l \<in> fst ` set d. answered l)"
proof -
  note a = assms(3) [unfolded in_conversation_def]
  then obtain t where t: "view_of n (client_id c) = Some t" "con_state t = CON_ESTABLISHED" by blast
  have "packet_in_range (packet_of c 0x18 (my_seq c) (their_seq c) data)"
    using a assms(4) by (simp add: packet_in_range_def packet_of_def client_ok_def)
  from sr1_net_silent [OF assms(1,2) _ _ t this] a obtain n' where
    "sr1_net raw dissect answers ticks n (packet_of c 0x18 (my_seq c) (their_seq c) data) = Some (None, n')" "net_ready n'"
    "view_of n' = view_of n" "w_sent (ct_world n') = w_sent (ct_world n)" by blast
  with a show ?thesis by (simp add: send_data_def Let_def in_conversation_def answered_def)
qed

lemma close_silent:
  assumes "scapy_ok raw dissect answers" "scapy_sums raw" "in_conversation c n"
  shows "\<exists>d n'. close_client (sr1_net raw dissect answers ticks) send c n = Some (False, d, c, n') \<and> in_conversation c n' \<and>
    view_of n' = view_of n \<and> w_sent (ct_world n') = w_sent (ct_world n) \<and> \<not> (\<exists>l \<in> fst ` set d. answered l)"
proof -
  note a = assms(3) [unfolded in_conversation_def]
  then obtain t where t: "view_of n (client_id c) = Some t" "con_state t = CON_ESTABLISHED" by blast
  have "packet_in_range (packet_of c 0x11 (my_seq c) (their_seq c) [])"
    using a by (simp add: packet_in_range_def packet_of_def client_ok_def)
  from sr1_net_silent [OF assms(1,2) _ _ t this] a obtain n' where
    "sr1_net raw dissect answers ticks n (packet_of c 0x11 (my_seq c) (their_seq c) []) = Some (None, n')" "net_ready n'"
    "view_of n' = view_of n" "w_sent (ct_world n') = w_sent (ct_world n)" by blast
  with a show ?thesis by (simp add: close_client_def Let_def in_conversation_def answered_def)
qed

lemma menu_silent:
  assumes "scapy_ok raw dissect answers" "scapy_sums raw" "list_all talking chs" "in_conversation c n"
  shows "\<exists>d n'. menu (sr1_net raw dissect answers ticks) send chs c n = Some (d, c, n') \<and>
    in_conversation c n' \<and> view_of n' = view_of n \<and> w_sent (ct_world n') = w_sent (ct_world n) \<and>
    \<not> (\<exists>l \<in> fst ` set d. answered l)"
  using assms(3,4)
proof (induction chs arbitrary: n)
  case (Cons ch chs)
  have est: "cl_state c = ESTABLISHED" using Cons.prems(2) by (simp add: in_conversation_def)
  note cl = close_silent [where send = send and ticks = ticks, OF assms(1,2) Cons.prems(2)]
  show ?case
  proof (cases ch)
    case (Send_choice data)
    then have "length data \<le> 1460" using Cons.prems(1) by simp
    from send_data_silent [where ticks = ticks, OF assms(1,2) Cons.prems(2) this] obtain d n1 where
      n1: "send_data (sr1_net raw dissect answers ticks) data c n = Some (False, d, c, n1)" "in_conversation c n1"
        "view_of n1 = view_of n" "w_sent (ct_world n1) = w_sent (ct_world n)" "\<not> (\<exists>l \<in> fst ` set d. answered l)" by blast
    from Cons.IH [OF _ n1(2)] Cons.prems(1) n1 Send_choice show ?thesis by (auto simp: image_Un)
  next
    case Close_choice
    from cl obtain d n1 where n1: "close_client (sr1_net raw dissect answers ticks) send c n = Some (False, d, c, n1)"
      "in_conversation c n1" "view_of n1 = view_of n" "w_sent (ct_world n1) = w_sent (ct_world n)"
      "\<not> (\<exists>l \<in> fst ` set d. answered l)" by blast
    from Cons.IH [OF _ n1(2)] Cons.prems(1) n1 Close_choice show ?thesis by (auto simp: image_Un)
  next
    case Exit_choice
    with cl est show ?thesis by auto
  next
    case Invalid_choice
    with Cons show ?thesis by auto
  qed (use Cons.prems(1) in simp)
qed simp

section \<open>Properties\<close>

text \<open>
  C7: the client with the refactored server. A new client connects to port 8080 of a server in any
  state in which its connection is unknown and memory suffices. The handshake succeeds: both
  sides are established and agree on the sequence numbers. Whatever the user then asks the client
  to do, short of a second handshake, the data it sends and its attempts to close stay without answer and
  without effect: the SYN-ACK remains the only packet the server sends, its connection stays
  ESTABLISHED with the same numbers, other connections are untouched, and the client stays
  ESTABLISHED too. The SYN of a second handshake, in contrast, is answered by one segment and
  removes the connection, which leaves the server with the connections it had before. Needed: scapy follows the wire format and fills in both checksums.
\<close>

theorem client_session:
  assumes "scapy_ok raw dissect answers" "scapy_sums raw" "net_ready n" "conn_count (ct_world n) < 2147483647"
    and "0 \<le> src_port" "src_port < 65536" "c = TCPClient_init src_ip dst_ip src_port 8080" "view_of n (client_id c) = None"
    and "iss = tcp_gen_iss (tk_amb (ticks (ct_time n)))" "uint iss < 4294967295" "list_all talking chs"
  shows "\<exists>d c' n' t y. menu (sr1_net raw dissect answers ticks) (send_net raw ticks) (Handshake_choice # chs) c n = Some (d, c', n') \<and>
     cl_state c' = ESTABLISHED \<and> con_state t = CON_ESTABLISHED \<and> view_of n' = (view_of n)(client_id c \<mapsto> t) \<and>
     rcv_next (tcb_recv t) = word_of_int (my_seq c') \<and> snd_next (tcb_send t) = word_of_int (their_seq c') \<and>
     w_sent (ct_world n') = w_sent (ct_world n) @ [y] \<and> \<not> (\<exists>l \<in> fst ` set d. answered l) \<and>
     (\<exists>z n''. deliver raw ticks n' (packet_of c' 0x02 (my_seq c') 0 []) = Some ([z], n'') \<and> view_of n'' = view_of n)"
proof -
  have c: "client_ok c" "my_seq c = 1000" using assms(5-7) by (simp_all add: client_ok_def TCPClient_init_def)
  let ?c = "c\<lparr>their_seq := uint iss + 1, my_seq := 1001, cl_state := ESTABLISHED\<rparr>"
  have "listening raw dissect answers ticks (view_of n) (w_sent (ct_world n)) (ct_time n) c iss n"
    using assms c by (simp add: listening_def)
  from peer.handshake_succeeds [OF this] c(2) obtain d1 n1 where
    h: "handshake (sr1_net raw dissect answers ticks) (send_net raw ticks) c n = Some (True, d1, ?c, n1)"
    and o: "open_to (view_of n) (w_sent (ct_world n)) c iss n1"
    and d1: "map fst d1 = [OUTGOING_SYN, INCOMING_SYN_ACK, OUTGOING_ACK]" by auto
  from o obtain t y where t: "net_ready n1" "view_of n1 = (view_of n)(client_id c \<mapsto> t)" "agreed CON_ESTABLISHED iss t"
    "w_sent (ct_world n1) = w_sent (ct_world n) @ [y]" by (auto simp: open_to_def)
  have "in_conversation ?c n1" using t c assms(10) by (simp add: in_conversation_def client_ok_def agreed_def)
  from menu_silent [where ticks = ticks and send = "send_net raw ticks", OF assms(1,2,11) this] obtain d2 n2 where
    m: "menu (sr1_net raw dissect answers ticks) (send_net raw ticks) chs ?c n1 = Some (d2, ?c, n2)" "view_of n2 = view_of n1" "in_conversation ?c n2"
      "w_sent (ct_world n2) = w_sent (ct_world n1)" "\<not> (\<exists>l \<in> fst ` set d2. answered l)" by blast
  have "fst ` set (d1 @ d2) = set (map fst d1) \<union> fst ` set d2" by (simp add: image_Un)
  then have "\<not> (\<exists>l \<in> fst ` set (d1 @ d2). answered l)" unfolding d1 using m(5) by (simp add: answered_def)
  moreover have "packet_in_range (packet_of ?c 0x02 1001 0 [])"
    using c by (simp add: packet_in_range_def packet_of_def client_ok_def)
  then obtain z n3 where "deliver raw ticks n2 (packet_of ?c 0x02 1001 0 []) = Some ([z], n3)"
    "view_of n3 = (view_of n2)(client_id ?c := None)"
    using second_syn [OF assms(1,2), of n2 ?c _ 1001 ticks] m(3) unfolding in_conversation_def by blast
  moreover have "(view_of n2)(client_id ?c := None) = view_of n" using m(2) t(2) assms(8) by (simp add: fun_upd_idem_iff)
  ultimately show ?thesis using h m t
    by (intro exI [of _ "d1 @ d2"] exI [of _ ?c] exI [of _ n2] exI [of _ t] exI [of _ y]) (simp add: agreed_def)
qed

text \<open>The concrete packet library of theory \<open>Client\<close> with the checksums filled in.\<close>

definition seal :: "byte list \<Rightarrow> byte list" where
  "seal x = (let x = poke16 x IP_checksum (rfc1071 (words16 (take 20 (poke16 x IP_checksum 0))))
     in poke16 x 36 (rfc1071 (words16 (pseudo_bytes (pseudo_of x (int (length x) - 20)) @ drop 20 (poke16 x 36 0)))))"

definition sealed_raw :: "Packet \<Rightarrow> byte list option" where
  "sealed_raw p = map_option seal (sample_raw p)"

lemma take_poke16:
  "0 \<le> i \<Longrightarrow> i + 2 \<le> 20 \<Longrightarrow> take 20 (poke16 x i v) = poke16 (take 20 x) i v" "20 \<le> i \<Longrightarrow> take 20 (poke16 x i v) = take 20 x"
  by (simp_all add: poke16_def take_update_swap nat_add_distrib list_update_beyond min_le_iff_disj le_nat_iff)

lemma seal_wire: "wire_format p x \<Longrightarrow> wire_format p (seal x)"
  by (simp add: wire_format_def seal_def Let_def mem_simps)

lemma seal_sums:
  assumes "40 \<le> length x"
  shows "checksummed (seal x)"
proof -
  let ?c = "rfc1071 (words16 (take 20 (poke16 x 10 0)))"
  let ?y = "poke16 x 10 ?c"
  let ?d = "rfc1071 (words16 (pseudo_bytes (pseudo_of ?y (int (length x) - 20)) @ drop 20 (poke16 ?y 36 0)))"
  have s: "seal x = poke16 ?y 36 ?d" by (simp add: seal_def Let_def)
  have r: "in_range x 10 2" "in_range ?y 36 2" "in_range (take 20 x) 10 2" using assms by (simp_all add: in_range_def)
  have "take 20 (poke16 (seal x) 10 0) = take 20 (poke16 x 10 0)"
    unfolding s by (simp add: take_poke16 c16.poke_poke [OF r(3)])
  moreover have "drop 20 (poke16 (seal x) 36 0) = drop 20 (poke16 ?y 36 0)" unfolding s by (simp add: c16.poke_poke [OF r(2)])
  moreover have "pseudo_of (seal x) k = pseudo_of ?y k" for k unfolding s by (simp add: pseudo_of_def mem_simps)
  moreover have "peek16 (seal x) 10 = ?c" "peek16 (seal x) 36 = ?d" "length (seal x) = length x"
    unfolding s using r by (simp_all add: mem_simps)
  ultimately show ?thesis by (simp add: checksummed_def)
qed

lemma sealed_scapy_ok: "scapy_ok sealed_raw sample_dissect answering" "scapy_sums sealed_raw"
proof -
  have "\<exists>x. sample_raw p = Some x \<and> wire_format p x" if "packet_in_range p" for p
    using sample_scapy_ok that by (simp add: scapy_ok_def)
  then have "\<exists>x. sealed_raw p = Some x \<and> wire_format p x" if "packet_in_range p" for p
    using that seal_wire [of p] by (fastforce simp: sealed_raw_def)
  with sample_scapy_ok show "scapy_ok sealed_raw sample_dissect answering" by (simp add: scapy_ok_def)
  have "40 \<le> length x" if "sample_raw p = Some x" for p x
    using that by (auto simp: sample_raw_def bytes16_def bytes32_def split: if_splits)
  then show "scapy_sums sealed_raw" by (auto simp: scapy_sums_def sealed_raw_def seal_sums)
qed

definition started_net :: net where
  "started_net = \<lparr>ct_world = world_start (\<lambda>n. False) (-1), ct_time = 0\<rparr>"

lemma started_net_ok: "net_ready started_net" "conn_count (ct_world started_net) < 2147483647" "view_of started_net i = None"
  using world_inv_start [of "\<lambda>n. False" "-1"] srv_inv_start [of "\<lambda>n. False"] idle_ok(4)
  by (simp_all add: net_ready_def started_net_def world_start_def)

theorem client_session_witness:
  "\<exists>d c' n' t. menu (sr1_net sealed_raw sample_dissect answering (\<lambda>k. tick_of [])) (send_net sealed_raw (\<lambda>k. tick_of []))
       [Handshake_choice, Send_choice [71, 69, 84], Close_choice, Exit_choice] sample_client started_net = Some (d, c', n') \<and>
     cl_state c' = ESTABLISHED \<and> view_of n' (client_id sample_client) = Some t \<and> con_state t = CON_ESTABLISHED"
proof -
  have "uint (tcp_gen_iss (tk_amb (tick_of []))) < 4294967295" by (simp add: tick_of_def tcp_gen_iss_def quiet_ambient_def)
  with client_session [OF sealed_scapy_ok started_net_ok(1,2), of 51000 sample_client "0x0100000a" "0x0200000a" _ "\<lambda>k. tick_of []"
      "[Send_choice [71, 69, 84], Close_choice, Exit_choice]"] started_net_ok(3)
  show ?thesis by (auto simp: sample_client_def simp del: menu.simps)
qed

end
