(* ===== verification/V1_Net.thy ===== *)
theory V1_Net
  imports Icmp
begin

text \<open>
  The original program below TCP: \<open>network/network.c\<close>, \<open>network/ip/ip.c\<close> and \<open>network/icmp/icmp.c\<close>.
  The packet sits in the heap buffer of 1501 bytes that \<open>main\<close> allocates. Unlike the refactored
  stack, the original one validates neither checksums nor lengths and takes the length of a
  message from the IP header. Shown: on every request the refactored stack answers, the original
  one builds the same bytes; and when the length field claims more than the buffer holds, it
  reads outside of it.
\<close>

section \<open>Operations\<close>

datatype packet_op = IPV4_ICMP | IPV4_TCP | IPV6 | VER_UNDF | PROTO_UNDF

definition packet_checksum :: "buffer \<Rightarrow> int \<Rightarrow> int \<Rightarrow> u16 option" where
  "packet_checksum b raw_pack pack_len = do {
     (acc, ptr, pack_len) \<leftarrow> sum_words b raw_pack pack_len 0;
     acc \<leftarrow> (if pack_len > 0 then do { v \<leftarrow> load8 b ptr; Some (acc + ucast v) } else Some acc);
     Some (ucast (NOT (fold_carry acc)))
   }"

definition packet_deserialize :: "buffer \<Rightarrow> packet_op option" where
  "packet_deserialize b = do {
     v \<leftarrow> load8 b IP_version_ihl;
     let ip_version = drop_bit 4 v;
     let ihl = v AND 0xf;
     if ip_version = 6 then Some IPV6
     else if ip_version \<noteq> 4 then Some VER_UNDF
     else if ihl < 5 then Some PROTO_UNDF
     else do {
       p \<leftarrow> load8 b IP_proto;
       if p = 1 then Some IPV4_ICMP else if p = 6 then Some IPV4_TCP else Some PROTO_UNDF
     }
   }"

definition ip_swap_dst_v1 :: "buffer \<Rightarrow> buffer option" where
  "ip_swap_dst_v1 b = do {
     src \<leftarrow> load32 b IP_src;
     dst \<leftarrow> load32 b IP_dst;
     b \<leftarrow> store32 b IP_src dst;
     store32 b IP_dst src
   }"

definition ip_update_checksum :: "buffer \<Rightarrow> int \<Rightarrow> buffer option" where
  "ip_update_checksum b pack_len = do {
     b \<leftarrow> store16 b IP_checksum 0;
     c \<leftarrow> packet_checksum b 0 pack_len;
     store16 b IP_checksum c
   }"

definition icmp_update_checksum :: "buffer \<Rightarrow> int \<Rightarrow> int \<Rightarrow> buffer option" where
  "icmp_update_checksum b icmp_pack pack_len = do {
     b \<leftarrow> store16 b (icmp_pack + ICMP_checksum) 0;
     c \<leftarrow> packet_checksum b icmp_pack pack_len;
     store16 b (icmp_pack + ICMP_checksum) c
   }"

definition icmp_echo_reply_v1 :: "buffer \<Rightarrow> int \<Rightarrow> buffer option" where
  "icmp_echo_reply_v1 b icmp_pack = do {
     b \<leftarrow> store8 b (icmp_pack + ICMP_type) 0;
     b \<leftarrow> store8 b (icmp_pack + ICMP_code) 0;
     v \<leftarrow> load8 b IP_version_ihl;
     let ihl_bytes = hlen_low v;
     l \<leftarrow> load16 b IP_len;
     let icmp_len = uint (ntohs l) - ihl_bytes;
     b \<leftarrow> icmp_update_checksum b icmp_pack icmp_len;
     b \<leftarrow> ip_swap_dst_v1 b;
     ip_update_checksum b ihl_bytes
   }"

definition icmp_dispatch_v1 :: "buffer \<Rightarrow> int \<Rightarrow> buffer option" where
  "icmp_dispatch_v1 b icmp_pack = do {
     t \<leftarrow> load8 b (icmp_pack + ICMP_type);
     if t = 8 then icmp_echo_reply_v1 b icmp_pack else Some b
   }"

section \<open>What the operations do\<close>

lemma packet_checksum_eq [simp]: "packet_checksum = checksum"
  by (simp add: fun_eq_iff packet_checksum_def checksum_def)

lemma ip_swap_dst_v1_eq [simp]: "ip_swap_dst_v1 = ip_swap_dst"
  by (simp add: fun_eq_iff ip_swap_dst_v1_def ip_swap_dst_def)

lemma ip_update_checksum_eq [op_simps]:
  "60 \<le> length b \<Longrightarrow> n = ihl_of b \<Longrightarrow> ip_update_checksum b n = Some (ip_summed b)"
  using hlen_low_bounds [of "peek8 b 0"]
  by (simp add: ip_update_checksum_def ip_summed_def in_range_def mem_simps op_simps c16.poke_poke)

lemma icmp_update_checksum_eq: "icmp_update_checksum = icmp_checksum"
  by (simp add: fun_eq_iff icmp_update_checksum_def icmp_checksum_def)

lemma icmp_echo_reply_v1_eq:
  assumes "60 \<le> length b" "off = ihl_of b" "20 \<le> off" "n = uint (htons (peek16 b 2))"
    and "off + 8 \<le> n" "n \<le> int (length b)"
  shows "icmp_echo_reply_v1 b off = Some (echo_reply b n off)"
proof -
  let ?b = "poke8 (poke8 b off 0) (off + 1) 0"
  have "n < 65536" using uint_lt2p [of "htons (peek16 b 2)"] assms(4) by simp
  then have "icmp_update_checksum ?b off (n - off) = Some (icmp_summed ?b off (n - off))"
    unfolding icmp_update_checksum_eq using assms by (intro icmp_checksum_eq) (auto simp: in_range_def)
  moreover have "ihl_of (swapped (icmp_summed ?b off (n - off))) = off"
    using assms by (simp add: mem_simps)
  ultimately show ?thesis
    using assms by (simp add: icmp_echo_reply_v1_def echo_reply_def Let_def in_range_def mem_simps op_simps)
qed

text \<open>With a length field beyond the buffer the checksum loop leaves it.\<close>

lemma icmp_v1_fault:
  assumes "length buf = 1501" "offset = ihl_of buf" "20 \<le> offset" "icmp_type (icmp_header buf offset) = ICMP_ECHO"
    and "uint (ntohs (ipv4_len (ip_header buf))) > 1501"
  shows "icmp_dispatch_v1 buf offset = None"
proof -
  let ?b = "poke8 (poke8 buf offset 0) (offset + 1) 0" and ?n = "uint (htons (peek16 buf 2))"
  have off: "offset \<le> 60" using assms(2) hlen_low_bounds by simp
  have "checksum (poke16 ?b (offset + 2) 0) offset (?n - offset) = None"
    using assms(1,3,5) off by (intro checksum_fault) (auto simp: ip_header_def)
  then have "icmp_update_checksum ?b offset (?n - offset) = None"
    using assms(1,3) off by (simp add: icmp_update_checksum_def in_range_def mem_simps)
  then show ?thesis
    using assms off
    by (simp add: icmp_dispatch_v1_def icmp_echo_reply_v1_def icmp_header_def in_range_def mem_simps Let_def)
qed

text \<open>Otherwise the handler returns, whatever the message; a message shorter than its header is summed as empty.\<close>

lemma checksum_defined: "0 \<le> i \<Longrightarrow> i + n \<le> int (length b) \<Longrightarrow> n \<le> 131072 \<Longrightarrow> \<exists>c. checksum b i n = Some c"
proof (cases "0 \<le> n")
  case False
  then show ?thesis by (simp add: checksum_def sum_words.simps)
qed (simp add: checksum_eq in_range_def)

lemma icmp_v1_defined:
  assumes "length buf = 1501" "offset = ihl_of buf" "20 \<le> offset" "uint (ntohs (peek16 buf 2)) \<le> 1501"
  shows "\<exists>buf'. icmp_dispatch_v1 buf offset = Some buf' \<and> length buf' = 1501 \<and> peek16 buf' 2 = peek16 buf 2"
proof (cases "peek8 buf offset = 8")
  case False
  have "offset \<le> 60" using assms(2) hlen_low_bounds by simp
  with False assms show ?thesis by (simp add: icmp_dispatch_v1_def in_range_def mem_simps)
next
  case True
  let ?b = "poke16 (poke8 (poke8 buf offset 0) (offset + 1) 0) (offset + 2) 0" and ?n = "uint (ntohs (peek16 buf 2))"
  have off: "offset \<le> 60" using assms(2) hlen_low_bounds by simp
  obtain c where c: "checksum ?b offset (?n - offset) = Some c"
    using checksum_defined [of offset "?n - offset" ?b] assms by auto
  let ?b2 = "swapped (poke16 ?b (offset + 2) c)"
  have "ihl_of ?b2 = offset" using assms(1-3) off by (simp add: mem_simps)
  then have "ip_update_checksum ?b2 offset = Some (ip_summed ?b2)"
    using assms(1) by (intro ip_update_checksum_eq) simp_all
  then have "icmp_dispatch_v1 buf offset = Some (ip_summed ?b2)"
    using True assms off c
    by (simp add: icmp_dispatch_v1_def icmp_echo_reply_v1_def icmp_update_checksum_def in_range_def mem_simps op_simps Let_def)
  moreover have "peek16 (ip_summed ?b2) 2 = peek16 buf 2" using assms(1,3) by (simp add: mem_simps)
  ultimately show ?thesis using assms(1) by simp
qed

text \<open>
  The original classifier reads only the first ten bytes and answers ICMP or TCP exactly for
  version 4 headers of at least five words with that protocol; unlike \<open>ip_validate\<close> it checks
  neither the header checksum nor any length.
\<close>

lemma packet_deserialize_decides:
  assumes "10 \<le> length b"
  shows "packet_deserialize b = Some (
    if drop_bit 4 (peek8 b 0) = 6 then IPV6
    else if drop_bit 4 (peek8 b 0) \<noteq> 4 then VER_UNDF
    else if ihl_of b < 20 then PROTO_UNDF
    else if ipv4_proto (ip_header b) = 1 then IPV4_ICMP
    else if ipv4_proto (ip_header b) = 6 then IPV4_TCP else PROTO_UNDF)"
proof -
  have "peek8 b 0 AND 0xf < 5 \<longleftrightarrow> ihl_of b < 20"
    by (simp add: hlen_low_def word_less_def)
  then show ?thesis
    using assms by (simp add: packet_deserialize_def in_range_def mem_simps ip_header_def)
qed

section \<open>Properties\<close>

text \<open>
  C32: the refactoring kept the echo reply. On every packet the refactored stack answers as a ping,
  if the length field of the IP header is the received length, the original handler produces
  byte for byte the same reply.
\<close>

theorem icmp_refactoring_equivalent:
  assumes "60 \<le> length buf" "len \<le> int (length buf)" "offset = ihl_of buf" "20 \<le> offset" "offset \<le> len"
    and "icmp_dispatch buf len offset = Some (n, buf')" "n \<noteq> 0" "len = uint (ntohs (ipv4_len (ip_header buf)))"
  shows "icmp_dispatch_v1 buf offset = Some buf' \<and> n = len"
proof -
  have l: "len < 65536" using uint_lt2p [of "htons (peek16 buf 2)"] assms(8) by (simp add: ip_header_def)
  have r: "in_range buf offset (len - offset)" "len - offset \<le> 131072"
    using assms l by (auto simp: in_range_def)
  have "icmp_validate buf offset (len - offset) = Some 1" "8 \<le> len - offset"
    using assms(6,7) icmp_validate_eq [OF r] by (auto simp: icmp_dispatch_def split: if_splits)
  moreover from this have ld: "load8 buf offset = Some (peek8 buf offset)"
    using assms r by (intro load_in_range) (simp add: in_range_def)
  moreover have "icmp_echo_reply buf len offset = Some (len, echo_reply buf len offset)"
    using assms l calculation(2) by (intro icmp_echo_reply_eq) auto
  ultimately have "peek8 buf offset = 8" "n = len" "buf' = echo_reply buf len offset"
    using assms(6,7) by (auto simp: icmp_dispatch_def split: if_splits)
  moreover have "icmp_echo_reply_v1 buf offset = Some (echo_reply buf len offset)"
    using assms(1-5,8) \<open>8 \<le> len - offset\<close> by (intro icmp_echo_reply_v1_eq) (auto simp: ip_header_def)
  ultimately show ?thesis using ld by (simp add: icmp_dispatch_v1_def)
qed

theorem icmp_refactoring_equivalent_witness:
  "\<exists>buf'. icmp_dispatch ping 28 20 = Some (28, buf') \<and> icmp_dispatch_v1 ping 20 = Some buf'"
proof -
  have off: "20 = ihl_of ping" "load8 ping 20 = Some 8" "28 = uint (ntohs (ipv4_len (ip_header ping)))"
    "icmp_validate ping 20 8 = Some 1" by code_simp+
  have len: "60 \<le> length ping" "28 \<le> int (length ping)" by (simp_all add: ping_def)
  have "icmp_echo_reply ping 28 20 = Some (28, echo_reply ping 28 20)"
    by (rule icmp_echo_reply_eq) (use len in simp_all)
  then have d: "icmp_dispatch ping 28 20 = Some (28, echo_reply ping 28 20)"
    using off(2,4) by (simp add: icmp_dispatch_def)
  show ?thesis
    using icmp_refactoring_equivalent [OF len off(1) _ _ d _ off(3)] d by simp
qed

end
