(* ===== verification/V1_Table.thy ===== *)
theory V1_Table
  imports Prelude Connection_Table "HOL-Library.Multiset"
begin

text \<open>
  The connection list of the original program (\<open>network/tcp/tcp.c\<close> and \<open>tcp.h\<close>): control blocks
  on the heap, threaded through their \<open>next\<close> pointers from \<open>TCP_Server_Instance.head\<close>. The loops
  over the list are partial functions, \<open>None\<close> on a bad pointer and on a cycle; under the list
  invariant they return, and the list is a second implementation of the contract
  \<open>connection_table\<close>. The \<open>int\<close> fields are 32-bit patterns; signed additions are checked where they
  are made.
\<close>

section \<open>Data\<close>

datatype TCP_State =
  TCP_SYN_RECEIVED | TCP_ESTABLISHED | TCP_CLOSE_WAIT | TCP_CLOSING | TCP_LAST_ACK | TCP_TIME_WAIT

record TCP_Connection_ID =
  c_src_ip :: u32
  c_src_port :: u32
  c_dst_ip :: u32
  c_dst_port :: u32

record TCP_Send_State =
  s_unac :: u32
  s_next :: u32
  s_window :: u32
  s_iss :: u32

record TCP_Recieve_State =
  r_next :: u32
  r_window :: u32
  r_irs :: u32

record TCB_v1 =
  v1_id :: TCP_Connection_ID
  v1_state :: TCP_State
  v1_send :: TCP_Send_State
  v1_recv :: TCP_Recieve_State
  v1_buffer :: "byte list"
  v1_recv_size :: u32
  v1_recv_consumed :: u32
  v1_next :: nat

text \<open>
  The heap as in theory \<open>Tcb\<close>: addresses are serial numbers of allocator calls, 0 is \<open>NULL\<close>.
  \<open>TCP_Server_Instance\<close> is the pair of \<open>si_head\<close> and \<open>si_size\<close>.
\<close>

record server_v1 =
  blocks :: "nat \<rightharpoonup> TCB_v1"
  allocs :: nat
  out_of_memory :: "nat \<Rightarrow> bool"
  si_head :: nat
  si_size :: u32

definition block_at :: "(nat \<rightharpoonup> TCB_v1) \<Rightarrow> nat \<Rightarrow> TCB_v1 option" where
  "block_at h p = (if p = 0 then None else h p)"

section \<open>Operations\<close>

definition tcp_init_server_instance :: "(nat \<Rightarrow> bool) \<Rightarrow> server_v1" where
  "tcp_init_server_instance failing =
     \<lparr>blocks = Map.empty, allocs = 0, out_of_memory = failing, si_head = 0, si_size = 0\<rparr>"

definition tcp_compare_id :: "TCP_Connection_ID \<Rightarrow> TCP_Connection_ID \<Rightarrow> bool" where
  "tcp_compare_id a b \<longleftrightarrow>
     (if c_src_ip a \<noteq> c_src_ip b then False
      else if c_src_port a \<noteq> c_src_port b then False
      else if c_dst_ip a \<noteq> c_dst_ip b then False
      else if c_dst_port a \<noteq> c_dst_port b then False
      else True)"

definition new_block :: "TCP_Connection_ID \<Rightarrow> TCB_v1" where
  "new_block i = \<lparr>v1_id = i, v1_state = TCP_SYN_RECEIVED,
     v1_send = \<lparr>s_unac = 0, s_next = 0, s_window = 0, s_iss = 0\<rparr>,
     v1_recv = \<lparr>r_next = 0, r_window = 8192, r_irs = 0\<rparr>,
     v1_buffer = replicate 16384 0, v1_recv_size = 0, v1_recv_consumed = 0, v1_next = 0\<rparr>"

definition tcp_init_tcb :: "server_v1 \<Rightarrow> TCP_Connection_ID \<Rightarrow> nat \<times> server_v1" where
  "tcp_init_tcb s i = (let ok = \<not> out_of_memory s (allocs s); s = s\<lparr>allocs := allocs s + 1\<rparr>
     in if \<not> ok then (0, s) else (allocs s, s\<lparr>blocks := (blocks s)(allocs s \<mapsto> new_block i)\<rparr>))"

text \<open>The search of \<open>tcp_insert_tcb\<close>: \<open>None\<close> in the result when the identity is present, else the last node.\<close>

partial_function (option) insert_scan ::
  "(nat \<rightharpoonup> TCB_v1) \<Rightarrow> nat \<Rightarrow> nat \<Rightarrow> nat \<Rightarrow> nat option option" where
  "insert_scan h search tail tcb =
     (if search = 0 then Some (Some tail)
      else do {
        t \<leftarrow> block_at h search;
        u \<leftarrow> block_at h tcb;
        if tcp_compare_id (v1_id t) (v1_id u) then Some None
        else insert_scan h (v1_next t) search tcb
      })"

definition tcp_insert_tcb :: "server_v1 \<Rightarrow> nat \<Rightarrow> server_v1 option" where
  "tcp_insert_tcb s tcb = do {
     r \<leftarrow> insert_scan (blocks s) (si_head s) 0 tcb;
     (case r of
       None \<Rightarrow> Some s
     | Some tail \<Rightarrow>
         if si_head s = 0 then Some (s\<lparr>si_head := tcb, si_size := si_size s + 1\<rparr>)
         else do {
           t \<leftarrow> block_at (blocks s) tail;
           Some (s\<lparr>blocks := (blocks s)(tail \<mapsto> t\<lparr>v1_next := tcb\<rparr>), si_size := si_size s + 1\<rparr>)
         })
   }"

partial_function (option) state_scan ::
  "(nat \<rightharpoonup> TCB_v1) \<Rightarrow> nat \<Rightarrow> TCP_Connection_ID \<Rightarrow> nat option" where
  "state_scan h search i =
     (if search = 0 then Some 0
      else do {
        t \<leftarrow> block_at h search;
        if tcp_compare_id (v1_id t) i then Some search else state_scan h (v1_next t) i
      })"

definition tcp_get_state :: "server_v1 \<Rightarrow> TCP_Connection_ID \<Rightarrow> nat option" where
  "tcp_get_state s i = state_scan (blocks s) (si_head s) i"

partial_function (option) prev_scan :: "(nat \<rightharpoonup> TCB_v1) \<Rightarrow> nat \<Rightarrow> nat \<Rightarrow> nat option" where
  "prev_scan h prev tcb =
     (if prev = 0 then Some 0
      else do {
        t \<leftarrow> block_at h prev;
        if v1_next t \<noteq> tcb then prev_scan h (v1_next t) tcb else Some prev
      })"

definition tcp_remove_connection :: "server_v1 \<Rightarrow> nat \<Rightarrow> server_v1 option" where
  "tcp_remove_connection s tcb = do {
     s \<leftarrow> (if si_head s = tcb
          then do {
            t \<leftarrow> block_at (blocks s) (si_head s);
            Some (s\<lparr>si_head := v1_next t\<rparr>)
          }
          else do {
            prev \<leftarrow> prev_scan (blocks s) (si_head s) tcb;
            if prev = 0 then Some s
            else do {
              u \<leftarrow> block_at (blocks s) tcb;
              t \<leftarrow> block_at (blocks s) prev;
              Some (s\<lparr>blocks := (blocks s)(prev \<mapsto> t\<lparr>v1_next := v1_next u\<rparr>)\<rparr>)
            }
          });
     u \<leftarrow> block_at (blocks s) tcb;
     Some (s\<lparr>blocks := (blocks s)(tcb := None), si_size := si_size s - 1\<rparr>)
   }"

section \<open>Lists on the heap\<close>

fun chain :: "(nat \<rightharpoonup> TCB_v1) \<Rightarrow> nat \<Rightarrow> nat list \<Rightarrow> bool" where
  "chain h p [] \<longleftrightarrow> p = 0"
| "chain h p (q # qs) \<longleftrightarrow> p = q \<and> q \<noteq> 0 \<and> (case h q of None \<Rightarrow> False | Some t \<Rightarrow> chain h (v1_next t) qs)"

fun walk :: "nat \<Rightarrow> (nat \<rightharpoonup> TCB_v1) \<Rightarrow> nat \<Rightarrow> nat list" where
  "walk 0 h p = []"
| "walk (Suc n) h p = (if p = 0 then [] else case h p of None \<Rightarrow> [] | Some t \<Rightarrow> p # walk n h (v1_next t))"

lemma compare_id_eq [simp]: "tcp_compare_id a b \<longleftrightarrow> a = b"
  by (cases a; cases b) (auto simp: tcp_compare_id_def)

lemma walk_chain: "chain h p ps \<Longrightarrow> length ps \<le> n \<Longrightarrow> walk n h p = ps"
proof (induction ps arbitrary: p n)
  case Nil
  then show ?case by (cases n) auto
next
  case (Cons q qs)
  then show ?case by (cases n) (auto split: option.splits)
qed

lemma chain_cong: "\<forall>q \<in> set ps. h' q = h q \<Longrightarrow> chain h' p ps = chain h p ps"
  by (induction ps arbitrary: p) (auto split: option.splits)

lemma chain_live: "chain h p ps \<Longrightarrow> q \<in> set ps \<Longrightarrow> \<exists>t. h q = Some t \<and> q \<noteq> 0"
  by (induction ps arbitrary: p) (auto split: option.splits)


text \<open>Relinking: the last node of a prefix is made to point to the rest.\<close>

lemma chain_relink:
  assumes "chain h p (xs @ q # ys)" "distinct (xs @ q # ys)" "h q = Some t" "chain h r zs" "q \<notin> set zs"
  shows "chain (h(q \<mapsto> t\<lparr>v1_next := r\<rparr>)) p (xs @ q # zs)"
  using assms
proof (induction xs arbitrary: p)
  case Nil
  then have "chain (h(q \<mapsto> t\<lparr>v1_next := r\<rparr>)) r zs"
    by (subst chain_cong) auto
  with Nil show ?case by (simp add: fun_upd_def)
next
  case (Cons x xs)
  then show ?case by (auto split: option.splits)
qed

lemma state_scan_eq:
  "chain h p ps \<Longrightarrow> state_scan h p i = Some (case find (\<lambda>q. map_option v1_id (h q) = Some i) ps of None \<Rightarrow> 0 | Some q \<Rightarrow> q)"
  by (induction ps arbitrary: p) (subst state_scan.simps, auto simp: block_at_def split: option.splits)+

lemma insert_scan_eq:
  assumes "chain h p ps" "h tcb = Some u" "tcb \<noteq> 0"
  shows "insert_scan h p tail tcb = Some (if v1_id u \<in> (\<lambda>q. v1_id (the (h q))) ` set ps then None
    else Some (if ps = [] then tail else last ps))"
  using assms(1)
proof (induction ps arbitrary: p tail)
  case Nil
  then show ?case by (simp add: insert_scan.simps)
next
  case (Cons q qs)
  then obtain t where t: "h q = Some t" "p = q" "q \<noteq> 0" "chain h (v1_next t) qs" by (auto split: option.splits)
  then have "insert_scan h p tail tcb = (if v1_id t = v1_id u then Some None else insert_scan h (v1_next t) q tcb)"
    using assms(2,3) by (subst insert_scan.simps) (simp add: block_at_def)
  with t Cons.IH [OF t(4)] show ?case by auto
qed

lemma prev_scan_eq:
  assumes "chain h p (xs @ q # tcb # ys)" "distinct (xs @ q # tcb # ys)"
  shows "prev_scan h p tcb = Some q"
  using assms
proof (induction xs arbitrary: p)
  case Nil
  then show ?case by (subst prev_scan.simps) (auto simp: block_at_def split: option.splits)
next
  case (Cons x xs)
  then obtain t where t: "h x = Some t" "p = x" "x \<noteq> 0" "chain h (v1_next t) (xs @ q # tcb # ys)"
    by (auto split: option.splits)
  have "v1_next t \<noteq> tcb" using t(4) Cons.prems(2) by (cases xs) auto
  with t Cons show ?case by (subst prev_scan.simps) (simp add: block_at_def)
qed

section \<open>The table as a map\<close>

definition conn_list :: "server_v1 \<Rightarrow> nat list" where
  "conn_list s = walk (allocs s) (blocks s) (si_head s)"

definition block_id_v1 :: "server_v1 \<Rightarrow> nat \<Rightarrow> TCP_Connection_ID option" where
  "block_id_v1 s p = map_option v1_id (blocks s p)"

text \<open>The blocks without their links.\<close>

definition contents :: "server_v1 \<Rightarrow> nat \<Rightarrow> TCB_v1 option" where
  "contents s p = map_option (\<lambda>t. t\<lparr>v1_next := 0\<rparr>) (blocks s p)"

definition conns_v1 :: "server_v1 \<Rightarrow> TCP_Connection_ID \<Rightarrow> nat option" where
  "conns_v1 s i = find (\<lambda>q. block_id_v1 s q = Some i) (conn_list s)"

text \<open>
  A proper list without repetition, identities pairwise different, the size field right, and
  blocks outside the list not pointing anywhere.
\<close>

definition list_inv :: "server_v1 \<Rightarrow> bool" where
  "list_inv s \<longleftrightarrow> chain (blocks s) (si_head s) (conn_list s) \<and> distinct (conn_list s) \<and>
     (\<forall>p \<in> dom (blocks s). 0 < p \<and> p \<le> allocs s) \<and>
     inj_on (block_id_v1 s) (set (conn_list s)) \<and>
     si_size s = of_nat (length (conn_list s)) \<and>
     (\<forall>p t. blocks s p = Some t \<longrightarrow> p \<notin> set (conn_list s) \<longrightarrow> v1_next t = 0)"

lemma conn_list_eq:
  assumes "chain (blocks s) (si_head s) ps" "distinct ps" "\<forall>p \<in> dom (blocks s). 0 < p \<and> p \<le> allocs s"
  shows "conn_list s = ps"
proof -
  have "set ps \<subseteq> {1..allocs s}"
    using chain_live [OF assms(1)] assms(3) by fastforce
  then have "length ps \<le> allocs s"
    using distinct_card [OF assms(2)] card_mono [of "{1..allocs s}" "set ps"] by simp
  with assms(1) show ?thesis by (simp add: conn_list_def walk_chain)
qed

lemma list_invI:
  assumes "chain (blocks s) (si_head s) ps" "distinct ps" "\<forall>p \<in> dom (blocks s). 0 < p \<and> p \<le> allocs s"
    and "inj_on (block_id_v1 s) (set ps)" "si_size s = of_nat (length ps)"
    and "\<forall>p t. blocks s p = Some t \<longrightarrow> p \<notin> set ps \<longrightarrow> v1_next t = 0"
  shows "list_inv s \<and> conn_list s = ps"
  using assms conn_list_eq [OF assms(1-3)] by (simp add: list_inv_def)

lemma find_unique_iff:
  "inj_on f (set ps) \<Longrightarrow> find (\<lambda>q. f q = Some i) ps = Some p \<longleftrightarrow> p \<in> set ps \<and> f p = Some i"
  by (induction ps) (auto simp: inj_on_def)

lemma conns_v1_Some_iff:
  "list_inv s \<Longrightarrow> conns_v1 s i = Some p \<longleftrightarrow> p \<in> set (conn_list s) \<and> block_id_v1 s p = Some i"
  unfolding conns_v1_def list_inv_def by (rule find_unique_iff) simp

lemma conns_v1_eqI:
  assumes "list_inv s" "\<And>p. f = Some p \<longleftrightarrow> p \<in> set (conn_list s) \<and> block_id_v1 s p = Some i"
  shows "conns_v1 s i = f"
  using conns_v1_Some_iff [OF assms(1)] assms(2) by (metis not_Some_eq)

lemma tcp_get_state_eq:
  "list_inv s \<Longrightarrow> tcp_get_state s i = Some (case conns_v1 s i of None \<Rightarrow> 0 | Some p \<Rightarrow> p)"
  unfolding tcp_get_state_def conns_v1_def block_id_v1_def list_inv_def
  using state_scan_eq [of "blocks s" "si_head s" "conn_list s" i] by simp

lemma list_inv_live: "list_inv s \<Longrightarrow> p \<in> set (conn_list s) \<Longrightarrow> \<exists>t. blocks s p = Some t \<and> p \<noteq> 0"
  using chain_live by (auto simp: list_inv_def)

section \<open>Insertion\<close>

lemma tcp_insert_ok:
  assumes "list_inv s" "block_id_v1 s p = Some i" "conns_v1 s i = None"
  shows "\<exists>s'. tcp_insert_tcb s p = Some s' \<and> list_inv s' \<and> conn_list s' = conn_list s @ [p] \<and>
    block_id_v1 s' = block_id_v1 s \<and> allocs s' = allocs s \<and> out_of_memory s' = out_of_memory s \<and>
    contents s' = contents s"
proof -
  let ?ps = "conn_list s"
  from assms(1) have ch: "chain (blocks s) (si_head s) ?ps" and dist: "distinct ?ps"
    and dom: "\<forall>p \<in> dom (blocks s). 0 < p \<and> p \<le> allocs s" and inj: "inj_on (block_id_v1 s) (set ?ps)"
    and size: "si_size s = of_nat (length ?ps)"
    and out: "\<forall>p t. blocks s p = Some t \<longrightarrow> p \<notin> set ?ps \<longrightarrow> v1_next t = 0" by (auto simp: list_inv_def)
  from assms(2) obtain u where u: "blocks s p = Some u" "v1_id u = i" by (auto simp: block_id_v1_def)
  have none: "\<forall>q \<in> set ?ps. block_id_v1 s q \<noteq> Some i"
    using assms(3) conns_v1_Some_iff [OF assms(1)] by (metis option.distinct(1))
  then have new: "p \<notin> set ?ps" using assms(2) by auto
  then have nx: "v1_next u = 0" using out u by blast
  have p: "p \<noteq> 0" using dom u by auto
  have scan: "insert_scan (blocks s) (si_head s) 0 p = Some (Some (if ?ps = [] then 0 else last ?ps))"
  proof -
    have "v1_id u \<notin> (\<lambda>q. v1_id (the (blocks s q))) ` set ?ps"
      using none u(2) chain_live [OF ch] by (fastforce simp: block_id_v1_def)
    then show ?thesis using insert_scan_eq [OF ch u(1) p] by simp
  qed
  have inj': "inj_on (block_id_v1 s) (set (?ps @ [p]))" "distinct (?ps @ [p])"
    using inj none assms(2) dist new by (auto simp: inj_on_def)
  show ?thesis
  proof (cases "?ps = []")
    case True
    let ?s = "s\<lparr>si_head := p, si_size := si_size s + 1\<rparr>"
    have run: "tcp_insert_tcb s p = Some ?s" using scan True ch by (simp add: tcp_insert_tcb_def)
    have "list_inv ?s \<and> conn_list ?s = [p]"
      using u p nx dom out size True by (intro list_invI) (auto simp: block_id_v1_def)
    with run True show ?thesis by (auto simp: block_id_v1_def contents_def)
  next
    case False
    then obtain xs q where xs: "?ps = xs @ [q]" by (cases ?ps rule: rev_cases) auto
    then obtain t where t: "blocks s q = Some t" "q \<noteq> 0" using chain_live [OF ch] by auto
    let ?s = "s\<lparr>blocks := (blocks s)(q \<mapsto> t\<lparr>v1_next := p\<rparr>), si_size := si_size s + 1\<rparr>"
    have "si_head s \<noteq> 0" using ch False by (cases ?ps) auto
    then have run: "tcp_insert_tcb s p = Some ?s"
      using scan xs t by (simp add: tcp_insert_tcb_def block_at_def)
    have id: "block_id_v1 ?s = block_id_v1 s" using t by (auto simp: block_id_v1_def)
    have "chain (blocks s) p [p]" using u p nx by simp
    then have "chain (blocks ?s) (si_head ?s) (xs @ q # [p])"
      using chain_relink [of "blocks s" "si_head s" xs q "[]" t p "[p]"] ch dist t xs new by auto
    then have "list_inv ?s \<and> conn_list ?s = ?ps @ [p]"
      using inj' dom t size id xs out new by (intro list_invI) (auto split: if_splits)
    with run id t show ?thesis by (auto simp: contents_def)
  qed
qed

section \<open>Removal\<close>

lemma chain_suffix: "chain h p (xs @ q # ys) \<Longrightarrow> \<exists>t. h q = Some t \<and> q \<noteq> 0 \<and> chain h (v1_next t) ys"
  by (induction xs arbitrary: p) (auto split: option.splits)

text \<open>Unlinking the node after \<open>q\<close>, or the first one, then freeing it.\<close>

lemma remove_steps:
  assumes "list_inv s" "p \<in> set (conn_list s)"
  shows "\<exists>h' hd'. tcp_remove_connection s p = Some (s\<lparr>blocks := h'(p := None), si_head := hd', si_size := si_size s - 1\<rparr>) \<and>
    chain (h'(p := None)) hd' (remove1 p (conn_list s)) \<and>
    (\<forall>q. map_option (\<lambda>t. t\<lparr>v1_next := 0\<rparr>) (h' q) = contents s q) \<and> (\<forall>q. q \<notin> set (conn_list s) \<longrightarrow> h' q = blocks s q)"
proof -
  let ?h = "blocks s" and ?ps = "conn_list s"
  from assms(1) have ch: "chain ?h (si_head s) ?ps" and dist: "distinct ?ps" by (auto simp: list_inv_def)
  from assms(2) obtain xs ys where ps: "?ps = xs @ p # ys" by (meson split_list)
  then have pn: "p \<notin> set xs" "p \<notin> set ys" "remove1 p ?ps = xs @ ys" using dist by (auto simp: remove1_append)
  from chain_suffix ch ps obtain u where u: "?h p = Some u" "p \<noteq> 0" "chain ?h (v1_next u) ys" by metis
  have rest: "chain (?h(p := None)) (v1_next u) ys" using u(3) pn(2) by (subst chain_cong) auto
  show ?thesis
  proof (cases xs rule: rev_cases)
    case Nil
    then have hd: "si_head s = p" using ch ps by simp
    have "tcp_remove_connection s p = Some (s\<lparr>blocks := ?h(p := None), si_head := v1_next u, si_size := si_size s - 1\<rparr>)"
      using hd u by (simp add: tcp_remove_connection_def block_at_def)
    with rest pn Nil show ?thesis by (intro exI [of _ ?h] exI [of _ "v1_next u"]) (auto simp: contents_def)
  next
    case (snoc zs q)
    then have ps': "?ps = zs @ q # p # ys" using ps by simp
    from chain_suffix ch ps' obtain t where t: "?h q = Some t" "q \<noteq> 0" "v1_next t = p" by fastforce
    have qp: "q \<noteq> p" "q \<notin> set ys" "p \<notin> set zs" using dist ps' by auto
    have "si_head s \<noteq> p" using ch ps' dist by (cases zs) auto
    then have run: "tcp_remove_connection s p =
        Some (s\<lparr>blocks := (?h(q \<mapsto> t\<lparr>v1_next := v1_next u\<rparr>))(p := None), si_head := si_head s, si_size := si_size s - 1\<rparr>)"
      using prev_scan_eq [of ?h "si_head s" zs q p ys] ch dist ps' u t qp
      by (simp add: tcp_remove_connection_def block_at_def)
    have "chain (?h(q \<mapsto> t\<lparr>v1_next := v1_next u\<rparr>)) (si_head s) (zs @ q # ys)"
      using chain_relink [of ?h "si_head s" zs q "p # ys" t "v1_next u" ys] ch dist ps' t u qp by simp
    then have "chain ((?h(q \<mapsto> t\<lparr>v1_next := v1_next u\<rparr>))(p := None)) (si_head s) (zs @ q # ys)"
      using qp pn by (subst chain_cong) auto
    with run snoc pn(3) t ps' show ?thesis
      by (intro exI [of _ "?h(q \<mapsto> t\<lparr>v1_next := v1_next u\<rparr>)"] exI [of _ "si_head s"]) (auto simp: contents_def)
  qed
qed

lemma contents_id: "block_id_v1 s p = map_option v1_id (contents s p)"
  by (cases "blocks s p") (simp_all add: block_id_v1_def contents_def)

lemma tcp_remove_ok:
  assumes "list_inv s" "p \<in> set (conn_list s)"
  shows "\<exists>s'. tcp_remove_connection s p = Some s' \<and> list_inv s' \<and> conn_list s' = remove1 p (conn_list s) \<and>
    allocs s' = allocs s \<and> out_of_memory s' = out_of_memory s \<and> contents s' = (contents s)(p := None)"
proof -
  from remove_steps [OF assms] obtain h' hd' where
    run: "tcp_remove_connection s p = Some (s\<lparr>blocks := h'(p := None), si_head := hd', si_size := si_size s - 1\<rparr>)"
    and ch: "chain (h'(p := None)) hd' (remove1 p (conn_list s))"
    and same: "\<And>q. map_option (\<lambda>t. t\<lparr>v1_next := 0\<rparr>) (h' q) = contents s q"
    and out: "\<And>q. q \<notin> set (conn_list s) \<Longrightarrow> h' q = blocks s q" by blast
  let ?s = "s\<lparr>blocks := h'(p := None), si_head := hd', si_size := si_size s - 1\<rparr>"
  have dist: "distinct (conn_list s)" and inj: "inj_on (block_id_v1 s) (set (conn_list s))"
    and size: "si_size s = of_nat (length (conn_list s))"
    and dom: "\<forall>p \<in> dom (blocks s). 0 < p \<and> p \<le> allocs s"
    and free: "\<forall>p t. blocks s p = Some t \<longrightarrow> p \<notin> set (conn_list s) \<longrightarrow> v1_next t = 0"
    using assms(1) by (auto simp: list_inv_def)
  have cont: "contents ?s = (contents s)(p := None)" using same by (auto simp: contents_def)
  have live: "blocks s q \<noteq> None" if "h' q \<noteq> None" for q
    using same [of q] that by (cases "blocks s q") (auto simp: contents_def)
  have "list_inv ?s \<and> conn_list ?s = remove1 p (conn_list s)"
  proof (rule list_invI)
    have "q \<in> dom (blocks s)" if "q \<in> dom (h'(p := None))" for q
      using live [of q] that by (auto simp: domIff split: if_splits)
    with dom have "\<forall>q \<in> dom (h'(p := None)). 0 < q \<and> q \<le> allocs s" by blast
    then show "\<forall>q \<in> dom (blocks ?s). 0 < q \<and> q \<le> allocs ?s" by simp
    show "inj_on (block_id_v1 ?s) (set (remove1 p (conn_list s)))"
      using inj dist cont by (auto simp: inj_on_def contents_id)
    have "length (conn_list s) = length (remove1 p (conn_list s)) + 1"
      using assms(2) length_pos_if_in_set [OF assms(2)] by (simp add: length_remove1)
    then show "si_size ?s = of_nat (length (remove1 p (conn_list s)))" using size by simp
    show "\<forall>q t. blocks ?s q = Some t \<longrightarrow> q \<notin> set (remove1 p (conn_list s)) \<longrightarrow> v1_next t = 0"
      using free out dist by (auto split: if_splits)
  qed (use ch dist in auto)
  with run cont show ?thesis by simp
qed

section \<open>The contract\<close>

definition lookup_v1 :: "server_v1 \<Rightarrow> TCP_Connection_ID \<Rightarrow> nat option option" where
  "lookup_v1 s i = map_option (\<lambda>p. if p = 0 then None else Some p) (tcp_get_state s i)"

definition insert_v1 :: "server_v1 \<Rightarrow> nat \<Rightarrow> (bool \<times> server_v1) option" where
  "insert_v1 s p = map_option (\<lambda>s'. (True, s')) (tcp_insert_tcb s p)"

lemma lookup_v1_eq: "list_inv s \<Longrightarrow> lookup_v1 s k = Some (conns_v1 s k)"
  using conns_v1_Some_iff [of s k] list_inv_live [of s] tcp_get_state_eq [of s]
  by (cases "conns_v1 s k") (auto simp: lookup_v1_def)

lemma insert_v1_ok:
  assumes inv: "list_inv s" and "block_id_v1 s p = Some k" "conns_v1 s k = None"
  shows "\<exists>s'. insert_v1 s p = Some (True, s') \<and> list_inv s' \<and> block_id_v1 s' = block_id_v1 s \<and>
    conns_v1 s' = (conns_v1 s)(k \<mapsto> p)"
proof -
  from tcp_insert_ok [OF assms] obtain s' where s': "tcp_insert_tcb s p = Some s'" "list_inv s'"
    "conn_list s' = conn_list s @ [p]" "block_id_v1 s' = block_id_v1 s" by blast
  have new: "block_id_v1 s q \<noteq> Some k" if "q \<in> set (conn_list s)" for q
    using that assms(3) conns_v1_Some_iff [OF inv, of k q] by auto
  have "conns_v1 s' i = ((conns_v1 s)(k \<mapsto> p)) i" for i
  proof (rule conns_v1_eqI [OF s'(2)])
    fix q
    show "((conns_v1 s)(k \<mapsto> p)) i = Some q \<longleftrightarrow> q \<in> set (conn_list s') \<and> block_id_v1 s' q = Some i"
      using assms(2) new [of q] conns_v1_Some_iff [OF inv, of i q] by (cases "i = k") (auto simp: s'(3,4))
  qed
  then have "conns_v1 s' = (conns_v1 s)(k \<mapsto> p)" by (rule ext)
  with s' show ?thesis by (simp add: insert_v1_def)
qed

lemma remove_v1_ok:
  assumes inv: "list_inv s" and "conns_v1 s k = Some p"
  shows "\<exists>s'. tcp_remove_connection s p = Some s' \<and> list_inv s' \<and> block_id_v1 s' = (block_id_v1 s)(p := None) \<and>
    conns_v1 s' = (conns_v1 s)(k := None)"
proof -
  from assms have p: "p \<in> set (conn_list s)" "block_id_v1 s p = Some k" using conns_v1_Some_iff [OF inv] by auto
  from tcp_remove_ok [OF inv p(1)] obtain s' where s': "tcp_remove_connection s p = Some s'" "list_inv s'"
    "conn_list s' = remove1 p (conn_list s)" "contents s' = (contents s)(p := None)" by blast
  have id: "block_id_v1 s' = (block_id_v1 s)(p := None)" using s'(4) by (auto simp: contents_id)
  have dist: "distinct (conn_list s)" and inj: "inj_on (block_id_v1 s) (set (conn_list s))"
    using inv by (auto simp: list_inv_def)
  have "conns_v1 s' i = ((conns_v1 s)(k := None)) i" for i
  proof (rule conns_v1_eqI [OF s'(2)])
    fix q
    have "q \<in> set (conn_list s') \<and> block_id_v1 s' q = Some i \<longleftrightarrow>
        q \<noteq> p \<and> q \<in> set (conn_list s) \<and> block_id_v1 s q = Some i"
      using dist by (simp add: s'(3) id)
    also have "\<dots> \<longleftrightarrow> ((conns_v1 s)(k := None)) i = Some q"
      using inj_onD [OF inj _ _ p(1), of q] p(2) conns_v1_Some_iff [OF inv, of i q] by (cases "i = k") auto
    finally show "((conns_v1 s)(k := None)) i = Some q \<longleftrightarrow> q \<in> set (conn_list s') \<and> block_id_v1 s' q = Some i" ..
  qed
  then have "conns_v1 s' = (conns_v1 s)(k := None)" by (rule ext)
  with s' id show ?thesis by simp
qed

interpretation lt: connection_table list_inv "\<lambda>s. True" conns_v1 block_id_v1 lookup_v1 insert_v1 tcp_remove_connection
proof unfold_locales
  fix s k p
  assume inv: "list_inv s"
  show "lookup_v1 s k = Some (conns_v1 s k)" using inv by (rule lookup_v1_eq)
  show "block_id_v1 s p = Some k" if "conns_v1 s k = Some p"
    using that conns_v1_Some_iff [OF inv] by simp
  show "\<exists>ok s'. insert_v1 s p = Some (ok, s') \<and> list_inv s' \<and> block_id_v1 s' = block_id_v1 s \<and>
      conns_v1 s' = (if ok then (conns_v1 s)(k \<mapsto> p) else conns_v1 s)"
    if "True" "block_id_v1 s p = Some k" "conns_v1 s k = None"
    using insert_v1_ok [OF inv that(2,3)] by (metis (full_types))
  show "\<exists>s'. tcp_remove_connection s p = Some s' \<and> list_inv s' \<and> block_id_v1 s' = (block_id_v1 s)(p := None) \<and>
      conns_v1 s' = (conns_v1 s)(k := None)"
    if "conns_v1 s k = Some p"
    using remove_v1_ok [OF inv that] .
qed

section \<open>The server's view\<close>

text \<open>Nothing is allocated but the listed blocks; the connections as a map, links left out.\<close>

definition srv_inv_v1 :: "server_v1 \<Rightarrow> bool" where
  "srv_inv_v1 s \<longleftrightarrow> list_inv s \<and> dom (blocks s) = set (conn_list s)"

definition view_v1 :: "server_v1 \<Rightarrow> TCP_Connection_ID \<Rightarrow> TCB_v1 option" where
  "view_v1 s i = (case conns_v1 s i of None \<Rightarrow> None | Some p \<Rightarrow> contents s p)"

lemma srv_inv_v1D: "srv_inv_v1 s \<Longrightarrow> list_inv s"
  by (simp add: srv_inv_v1_def)

lemma conns_v1_block:
  assumes "list_inv s" "conns_v1 s i = Some p"
  shows "\<exists>t. blocks s p = Some t \<and> v1_id t = i \<and> p \<noteq> 0 \<and> p \<in> set (conn_list s)"
  using assms conns_v1_Some_iff [OF assms(1)] list_inv_live [OF assms(1)] by (fastforce simp: block_id_v1_def)

lemma dom_contents [simp]: "dom (contents s) = dom (blocks s)"
  by (auto simp: contents_def)

lemma chain_set_block:
  "h p = Some t \<Longrightarrow> v1_next t' = v1_next t \<Longrightarrow> chain (h(p \<mapsto> t')) q ps = chain h q ps"
  by (induction ps arbitrary: q) (auto split: option.splits)

text \<open>Changing a listed block, but neither its identity nor its link.\<close>

lemma set_block_ok:
  assumes "srv_inv_v1 s" "conns_v1 s i = Some p" "blocks s p = Some t" "v1_id t' = v1_id t" "v1_next t' = v1_next t"
  defines "s' \<equiv> s\<lparr>blocks := (blocks s)(p \<mapsto> t')\<rparr>"
  shows "srv_inv_v1 s' \<and> conns_v1 s' = conns_v1 s \<and> view_v1 s' = (view_v1 s)(i \<mapsto> t'\<lparr>v1_next := 0\<rparr>)"
proof -
  from assms(1) have inv: "list_inv s" and dom: "dom (blocks s) = set (conn_list s)" by (auto simp: srv_inv_v1_def)
  have id: "block_id_v1 s' = block_id_v1 s" using assms(3,4) by (auto simp: block_id_v1_def s'_def)
  have "list_inv s' \<and> conn_list s' = conn_list s"
    using inv assms(3,5) id by (intro list_invI) (auto simp: list_inv_def s'_def chain_set_block [of "blocks s" p t t', OF assms(3,5)] split: if_splits)
  then have s': "list_inv s'" "conn_list s' = conn_list s" by auto
  moreover have same: "conns_v1 s' = conns_v1 s" using s'(2) id by (simp add: fun_eq_iff conns_v1_def)
  moreover have "view_v1 s' j = ((view_v1 s)(i \<mapsto> t'\<lparr>v1_next := 0\<rparr>)) j" for j
  proof (cases "conns_v1 s j")
    case (Some q)
    then have "q = p \<longleftrightarrow> j = i" using lt.table_inj [OF inv] assms(2) by auto
    with Some same show ?thesis by (auto simp: view_v1_def contents_def s'_def)
  qed (use same assms(2) in \<open>auto simp: view_v1_def\<close>)
  moreover have "dom (blocks s') = set (conn_list s')" using dom s'(2) assms(3) by (auto simp: s'_def)
  ultimately show ?thesis by (auto simp: srv_inv_v1_def)
qed

text \<open>Removing a connection.\<close>

lemma remove_view:
  assumes "srv_inv_v1 s" "conns_v1 s i = Some p"
  shows "\<exists>s'. tcp_remove_connection s p = Some s' \<and> srv_inv_v1 s' \<and> view_v1 s' = (view_v1 s)(i := None)"
proof -
  from assms(1) have inv: "list_inv s" and dom: "dom (blocks s) = set (conn_list s)" by (auto simp: srv_inv_v1_def)
  from conns_v1_block [OF inv assms(2)] have p: "p \<in> set (conn_list s)" by blast
  from tcp_remove_ok [OF inv p] obtain s' where s': "tcp_remove_connection s p = Some s'" "list_inv s'"
    "conn_list s' = remove1 p (conn_list s)" "contents s' = (contents s)(p := None)" by blast
  from lt.remove_table [OF inv assms(2)] s'(1) have c: "conns_v1 s' = (conns_v1 s)(i := None)" by auto
  have "distinct (conn_list s)" using inv by (simp add: list_inv_def)
  moreover have "dom (blocks s') = dom (blocks s) - {p}" using s'(4) by (metis dom_contents dom_fun_upd)
  ultimately have "dom (blocks s') = set (conn_list s')" using s'(3) dom by simp
  moreover have "view_v1 s' j = ((view_v1 s)(i := None)) j" for j
    using lt.table_inj [OF inv assms(2), of j] c s'(4) by (auto simp: view_v1_def split: option.splits)
  ultimately show ?thesis using s' by (auto simp: srv_inv_v1_def)
qed

text \<open>Allocating and appending a connection that is not listed yet, and what a failed allocation leads to.\<close>

lemma tcp_init_listed:
  assumes "srv_inv_v1 s" "tcp_init_tcb s i = (p, s1)" "\<not> out_of_memory s (allocs s)"
  shows "list_inv s1" "conn_list s1 = conn_list s" "conns_v1 s1 = conns_v1 s" "p \<notin> set (conn_list s)"
    and "blocks s1 = (blocks s)(p \<mapsto> new_block i)"
proof -
  from assms(1) have inv: "list_inv s" and dom: "dom (blocks s) = set (conn_list s)" by (auto simp: srv_inv_v1_def)
  have run: "p = allocs s + 1" "s1 = s\<lparr>allocs := p, blocks := (blocks s)(p \<mapsto> new_block i)\<rparr>"
    using assms(2,3) by (auto simp: tcp_init_tcb_def Let_def)
  have old: "\<forall>q \<in> dom (blocks s). 0 < q \<and> q \<le> allocs s" using inv by (simp add: list_inv_def)
  then have "\<forall>q \<in> dom (blocks s). q \<le> allocs s" by blast
  then have "p \<notin> dom (blocks s)" using run(1) by (metis Suc_eq_plus1 not_less_eq_eq order_refl)
  then have fresh: "blocks s p = None" "p \<notin> set (conn_list s)" using dom by auto
  have "chain (blocks s1) (si_head s1) (conn_list s)"
    using inv fresh(2) chain_cong [of "conn_list s" "blocks s1" "blocks s"] by (auto simp: list_inv_def run(2))
  moreover have "0 < q \<and> q \<le> allocs s1" if "q \<in> dom (blocks s1)" for q
  proof -
    from that have "q = p \<or> q \<in> dom (blocks s)" by (auto simp: run(2) split: if_splits)
    moreover have "0 < q \<and> q \<le> allocs s" if "q \<in> dom (blocks s)" using old that by blast
    ultimately have "0 < q \<and> q \<le> allocs s + 1" using run(1) by fastforce
    then show ?thesis using run(1) by (simp add: run(2))
  qed
  ultimately have "list_inv s1 \<and> conn_list s1 = conn_list s"
    using inv fresh run(2) by (intro list_invI)
      (auto simp: list_inv_def inj_on_def block_id_v1_def new_block_def split: if_splits)
  then show s1: "list_inv s1" "conn_list s1 = conn_list s" by auto
  show "conns_v1 s1 = conns_v1 s"
    using s1(2) fresh(2) run(2) by (auto simp: fun_eq_iff conns_v1_def block_id_v1_def intro!: find_cong)
  show "p \<notin> set (conn_list s)" "blocks s1 = (blocks s)(p \<mapsto> new_block i)" using fresh run(2) by simp_all
qed

lemma append_view:
  assumes "srv_inv_v1 s" "conns_v1 s i = None" "tcp_init_tcb s i = (p, s1)" "\<not> out_of_memory s (allocs s)"
  shows "\<exists>s2. tcp_insert_tcb s1 p = Some s2 \<and> srv_inv_v1 s2 \<and> conns_v1 s2 i = Some p \<and> p \<noteq> 0 \<and>
    blocks s2 p = Some (new_block i) \<and> (\<forall>t. (view_v1 s2)(i := t) = (view_v1 s)(i := t))"
proof -
  from assms(1) have inv: "list_inv s" and dom: "dom (blocks s) = set (conn_list s)" by (auto simp: srv_inv_v1_def)
  note s1 = tcp_init_listed [OF assms(1,3,4)]
  have id: "block_id_v1 s1 p = Some i" by (simp add: s1(5) block_id_v1_def new_block_def)
  from tcp_insert_ok [OF s1(1) id] s1(3) assms(2) obtain s2 where s2: "tcp_insert_tcb s1 p = Some s2" "list_inv s2"
    "conn_list s2 = conn_list s1 @ [p]" "contents s2 = contents s1" by auto
  from lt.insert_table [OF s1(1) _ id] s1(3) assms(2) s2(1) have c: "conns_v1 s2 = (conns_v1 s)(i \<mapsto> p)"
    by (auto simp: insert_v1_def)
  obtain t where t: "blocks s2 p = Some t" "p \<noteq> 0" using list_inv_live [OF s2(2), of p] s2(3) by auto
  have "contents s2 p = Some (new_block i)" using s2(4) s1(5) by (simp add: contents_def new_block_def)
  moreover have "v1_next t = 0"
    using chain_suffix [of "blocks s2" "si_head s2" "conn_list s1" p "[]"] s2(2,3) t by (auto simp: list_inv_def)
  ultimately have "t = new_block i" using t by (cases t) (simp add: contents_def)
  moreover have "dom (blocks s2) = insert p (dom (blocks s))"
    using s2(4) s1(5) dom_contents [of s1] dom_contents [of s2] by simp
  then have "dom (blocks s2) = set (conn_list s2)" using s2(3) s1(2) dom by simp
  moreover have "view_v1 s2 j = view_v1 s j" if "j \<noteq> i" for j
    using that c s2(4) s1(4,5) conns_v1_block [OF inv, of j]
    by (auto simp: view_v1_def contents_def split: option.splits)
  ultimately show ?thesis using s2 c t by (auto simp: srv_inv_v1_def fun_eq_iff)
qed

lemma append_null:
  assumes "list_inv s" "tcp_init_tcb s i = (p, s1)" "out_of_memory s (allocs s)"
  shows "p = 0 \<and> (\<forall>s2. tcp_insert_tcb s1 p = Some s2 \<longrightarrow> block_at (blocks s2) p = None)"
proof -
  have "p = 0" "s1 = s\<lparr>allocs := allocs s + 1\<rparr>" using assms(2,3) by (auto simp: tcp_init_tcb_def Let_def)
  then show ?thesis by (simp add: block_at_def)
qed

section \<open>Properties\<close>

lemma list_inv_start: "list_inv (tcp_init_server_instance failing)" "conn_list (tcp_init_server_instance failing) = []"
  using list_invI [of "tcp_init_server_instance failing" "[]"] by (auto simp: tcp_init_server_instance_def)

text \<open>
  C31: the linked list of the original program is a map too. From any well-formed list, appending
  a block with a new identity and removing any listed block, at the head, in the middle or at the
  end, both run without a bad pointer and without looping; the order of the other blocks is kept;
  afterwards lookups give exactly the inserted, or no longer the removed, block and are unchanged
  elsewhere, and the list is well formed again. Insertion changes the content of no block
  but for the links, and removal frees just that block.
\<close>

theorem list_insert_remove:
  assumes "list_inv s"
  shows "(\<forall>p i. block_id_v1 s p = Some i \<longrightarrow> tcp_get_state s i = Some 0 \<longrightarrow>
      (\<exists>s'. tcp_insert_tcb s p = Some s' \<and> list_inv s' \<and> conn_list s' = conn_list s @ [p] \<and>
        tcp_get_state s' i = Some p \<and> (\<forall>j. j \<noteq> i \<longrightarrow> tcp_get_state s' j = tcp_get_state s j) \<and>
        contents s' = contents s)) \<and>
    (\<forall>p i. tcp_get_state s i = Some p \<longrightarrow> p \<noteq> 0 \<longrightarrow>
      (\<exists>s'. tcp_remove_connection s p = Some s' \<and> list_inv s' \<and> conn_list s' = remove1 p (conn_list s) \<and>
        tcp_get_state s' i = Some 0 \<and> (\<forall>j. j \<noteq> i \<longrightarrow> tcp_get_state s' j = tcp_get_state s j) \<and>
        contents s' = (contents s)(p := None)))"
proof (intro conjI allI impI)
  fix p i
  assume p: "block_id_v1 s p = Some i" "tcp_get_state s i = Some 0"
  have none: "conns_v1 s i = None"
    using assms p(2) conns_v1_Some_iff [OF assms] list_inv_live [OF assms]
    by (auto simp: tcp_get_state_eq split: option.splits)
  from tcp_insert_ok [OF assms p(1) none] obtain s' where s': "tcp_insert_tcb s p = Some s'" "list_inv s'"
    "contents s' = contents s" "conn_list s' = conn_list s @ [p]" by auto
  moreover from lt.insert_table [OF assms _ p(1) none] s'(1) have "conns_v1 s' = (conns_v1 s)(i \<mapsto> p)"
    by (auto simp: insert_v1_def)
  ultimately show "\<exists>s'. tcp_insert_tcb s p = Some s' \<and> list_inv s' \<and> conn_list s' = conn_list s @ [p] \<and>
      tcp_get_state s' i = Some p \<and> (\<forall>j. j \<noteq> i \<longrightarrow> tcp_get_state s' j = tcp_get_state s j) \<and>
      contents s' = contents s"
    using assms by (simp add: tcp_get_state_eq)
next
  fix p i
  assume p: "tcp_get_state s i = Some p" "p \<noteq> 0"
  then have c: "conns_v1 s i = Some p" using assms by (auto simp: tcp_get_state_eq split: option.splits)
  then have "p \<in> set (conn_list s)" using conns_v1_block [OF assms] by blast
  from tcp_remove_ok [OF assms this] obtain s' where s': "tcp_remove_connection s p = Some s'" "list_inv s'"
    "conn_list s' = remove1 p (conn_list s)" "contents s' = (contents s)(p := None)" by blast
  moreover from lt.remove_table [OF assms c] s'(1) have "conns_v1 s' = (conns_v1 s)(i := None)" by auto
  ultimately show "\<exists>s'. tcp_remove_connection s p = Some s' \<and> list_inv s' \<and> conn_list s' = remove1 p (conn_list s) \<and>
      tcp_get_state s' i = Some 0 \<and> (\<forall>j. j \<noteq> i \<longrightarrow> tcp_get_state s' j = tcp_get_state s j) \<and>
      contents s' = (contents s)(p := None)"
    using assms by (simp add: tcp_get_state_eq)
qed

text \<open>A list of three blocks and a fourth block that is not listed.\<close>

definition flow_no :: "u32 \<Rightarrow> TCP_Connection_ID" where
  "flow_no k = \<lparr>c_src_ip = k, c_src_port = 2, c_dst_ip = 3, c_dst_port = 4\<rparr>"

definition sample_v1 :: server_v1 where
  "sample_v1 = (tcp_init_server_instance (\<lambda>n. False))\<lparr>allocs := 4, si_head := 1, si_size := 3,
     blocks := [1 \<mapsto> (new_block (flow_no 1))\<lparr>v1_next := 2\<rparr>, 2 \<mapsto> (new_block (flow_no 2))\<lparr>v1_next := 3\<rparr>,
       3 \<mapsto> new_block (flow_no 3), 4 \<mapsto> new_block (flow_no 4)]\<rparr>"

lemma sample_v1_ok: "list_inv sample_v1" "conn_list sample_v1 = [1, 2, 3]"
proof -
  have "list_inv sample_v1 \<and> conn_list sample_v1 = [1, 2, 3]"
    by (rule list_invI)
      (auto simp: sample_v1_def tcp_init_server_instance_def new_block_def block_id_v1_def flow_no_def inj_on_def split: if_splits)
  then show "list_inv sample_v1" "conn_list sample_v1 = [1, 2, 3]" by auto
qed

theorem list_insert_remove_witness:
  "(\<exists>s'. tcp_remove_connection sample_v1 2 = Some s' \<and> conn_list s' = [1, 3] \<and> tcp_get_state s' (flow_no 1) = Some 1 \<and>
      tcp_get_state s' (flow_no 2) = Some 0 \<and> tcp_get_state s' (flow_no 3) = Some 3) \<and>
   (\<exists>s'. tcp_insert_tcb sample_v1 4 = Some s' \<and> conn_list s' = [1, 2, 3, 4] \<and> tcp_get_state s' (flow_no 4) = Some 4)"
proof -
  have id: "block_id_v1 sample_v1 p = (if p \<in> {1, 2, 3, 4} then Some (flow_no (of_nat p)) else None)" for p
    by (simp add: block_id_v1_def sample_v1_def new_block_def)
  have get: "tcp_get_state sample_v1 (flow_no 1) = Some 1" "tcp_get_state sample_v1 (flow_no 2) = Some 2"
    "tcp_get_state sample_v1 (flow_no 3) = Some 3" "tcp_get_state sample_v1 (flow_no 4) = Some 0"
    using sample_v1_ok by (simp_all add: tcp_get_state_eq conns_v1_def id flow_no_def)
  have ne: "flow_no 1 \<noteq> flow_no 2" "flow_no 3 \<noteq> flow_no 2" by (simp_all add: flow_no_def)
  note laws = list_insert_remove [OF sample_v1_ok(1), unfolded sample_v1_ok(2)]
  show ?thesis
    using laws [THEN conjunct1, rule_format, of 4 "flow_no 4"] laws [THEN conjunct2, rule_format, of "flow_no 2" 2] get ne id [of 4]
    by auto
qed

end
