(* ===== verification/V1_Http.thy ===== *)
theory V1_Http
  imports Checksum
begin

text \<open>
  \<open>network/http/http.c\<close> of the original program: the answer to a request, built on the heap. The
  file system and the allocator are inputs (record \<open>http_env\<close>). Using a block that could not be
  allocated is a fault, \<open>None\<close>, as the program checks no allocation. The response is then read
  back by an independent reader of HTTP messages, which must find the status line, the
  announced length and the file.
\<close>

section \<open>Operations\<close>

definition bytes_of :: "string \<Rightarrow> byte list" where
  "bytes_of s = map of_char s"

abbreviation (input) CRLF :: string where "CRLF \<equiv> [CHR 0x0D, CHR 0x0A]"

text \<open>
  \<open>he_file\<close> is what \<open>fopen\<close> finds under a path, and so fixes the size \<open>ftell\<close> reports at the end
  of the file; \<open>he_read\<close> is the number of bytes \<open>fread\<close> can deliver before an error. The flags say
  whether the allocations for the file, the response and the duplicated literals succeed.
\<close>

record http_env =
  he_file :: "string \<Rightarrow> byte list option"
  he_read :: nat
  he_malloc_file :: bool
  he_malloc_response :: bool
  he_strdup :: bool

text \<open>\<open>%ld\<close> of a file size.\<close>

fun decimal :: "nat \<Rightarrow> byte list" where
  "decimal n = (if n < 10 then [of_nat (48 + n)] else decimal (n div 10) @ [of_nat (48 + n mod 10)])"

declare decimal.simps [simp del]

text \<open>
  \<open>snprintf\<close> into an array of \<open>n\<close> bytes: at most \<open>n - 1\<close> characters and a terminator; the
  result is the length of the whole text. The rest of the array is indeterminate, here 0.
\<close>

definition snprintf :: "nat \<Rightarrow> byte list \<Rightarrow> buffer \<times> int" where
  "snprintf n t = (let w = take (n - 1) t in (w @ replicate (n - length w) 0, int (length t)))"

text \<open>A literal duplicated on the heap, and its length.\<close>

definition strdup_literal :: "http_env \<Rightarrow> string \<Rightarrow> (buffer \<times> int) option" where
  "strdup_literal e s = (if he_strdup e then Some (bytes_of s, int (length s)) else None)"

definition ok_headers :: "nat \<Rightarrow> byte list" where
  "ok_headers file_size =
     bytes_of (''HTTP/1.1 200 OK'' @ CRLF @ ''Content-Type: text/html'' @ CRLF @ ''Content-Length: '') @
     decimal file_size @ bytes_of (CRLF @ ''Connection: close'' @ CRLF @ CRLF)"

text \<open>
  The message and \<open>*message_len\<close>. The sum of the two lengths is a \<open>long\<close> and is cut to 32 bits; an
  allocation of a negative length fails, so nothing can be copied there.
\<close>

definition http_serve_file :: "http_env \<Rightarrow> string \<Rightarrow> (buffer \<times> int) option" where
  "http_serve_file e filepath = (case he_file e filepath of
     None \<Rightarrow> strdup_literal e (''HTTP/1.1 404 Not Found'' @ CRLF @ CRLF)
   | Some f \<Rightarrow> do {
       let file_size = length f;
       file_content \<leftarrow> (if he_malloc_file e \<or> file_size = 0 then Some (take (he_read e) f) else None);
       let read_size = length file_content;
       if read_size \<noteq> file_size
       then strdup_literal e (''HTTP/1.1 500 Internal Server Error'' @ CRLF @ CRLF)
       else do {
         let (headers, header_len) = snprintf 256 (ok_headers file_size);
         let message_len = signed_take_bit 31 (header_len + int file_size);
         let response = (if he_malloc_response e then replicate (nat message_len) 0 else []);
         response \<leftarrow> memcpy response 0 headers 0 header_len;
         response \<leftarrow> memcpy response header_len file_content 0 (int file_size);
         Some (response, message_len)
       }
     })"

text \<open>\<open>strncmp(data, lit, n) == 0\<close> for a literal of \<open>n\<close> characters: stops at the first difference.\<close>

fun starts_with :: "buffer \<Rightarrow> int \<Rightarrow> byte list \<Rightarrow> bool option" where
  "starts_with b p [] = Some True"
| "starts_with b p (c # cs) = do { v \<leftarrow> load8 b p; if v \<noteq> c then Some False else starts_with b (p + 1) cs }"

definition http_handle_request :: "http_env \<Rightarrow> buffer \<Rightarrow> int \<Rightarrow> int \<Rightarrow> (buffer \<times> int) option" where
  "http_handle_request e b data data_len = do {
     get \<leftarrow> (if data_len \<ge> 4 then starts_with b data (bytes_of ''GET '') else Some False);
     if get then http_serve_file e ''./network/http/assets/Hello.html''
     else strdup_literal e (''HTTP/1.1 400 Bad Request'' @ CRLF @ CRLF)
   }"

section \<open>An independent reader of HTTP messages\<close>

text \<open>The bytes up to the first CR LF, and those after it.\<close>

fun crlf_line :: "byte list \<Rightarrow> (byte list \<times> byte list) option" where
  "crlf_line (a # b # bs) =
     (if a = 13 \<and> b = 10 then Some ([], bs) else map_option (\<lambda>(l, r). (a # l, r)) (crlf_line (b # bs)))"
| "crlf_line _ = None"

lemma crlf_line_shorter: "crlf_line bs = Some (l, r) \<Longrightarrow> length r < length bs"
  by (induction bs arbitrary: l rule: crlf_line.induct) (force split: if_splits)+

text \<open>Lines up to the empty one, then the body.\<close>

function header_lines :: "byte list \<Rightarrow> (byte list list \<times> byte list) option" where
  "header_lines bs = (case crlf_line bs of None \<Rightarrow> None
     | Some (l, r) \<Rightarrow> if l = [] then Some ([], r) else map_option (\<lambda>(ls, body). (l # ls, body)) (header_lines r))"
  by pat_completeness auto
termination
  by (relation "measure length") (auto dest: crlf_line_shorter)

declare header_lines.simps [simp del]

definition is_digit :: "byte \<Rightarrow> bool" where
  "is_digit c \<longleftrightarrow> 48 \<le> unat c \<and> unat c \<le> 57"

definition number :: "byte list \<Rightarrow> nat option" where
  "number ds = (if ds \<noteq> [] \<and> list_all is_digit ds then Some (foldl (\<lambda>n d. 10 * n + (unat d - 48)) 0 ds) else None)"

definition field_value :: "byte list \<Rightarrow> byte list list \<Rightarrow> byte list option" where
  "field_value key ls = map_option (drop (length key)) (find (\<lambda>l. take (length key) l = key) ls)"

text \<open>Status line, announced length if there is one, and body.\<close>

definition read_message :: "byte list \<Rightarrow> (byte list \<times> nat option \<times> byte list) option" where
  "read_message bs = (case header_lines bs of
     Some (status # fs, body) \<Rightarrow>
       Some (status, Option.bind (field_value (bytes_of ''Content-Length: '') fs) number, body)
   | _ \<Rightarrow> None)"

section \<open>Lemmas\<close>

lemma bytes_of_append [simp]: "bytes_of (s @ t) = bytes_of s @ bytes_of t"
  by (simp add: bytes_of_def)

lemma length_bytes_of [simp]: "length (bytes_of s) = length s"
  by (simp add: bytes_of_def)

lemma digit_byte: "n < 10 \<Longrightarrow> unat (of_nat (48 + n) :: byte) = 48 + n"
  by (simp add: unat_of_nat del: of_nat_add)

lemma decimal_digits: "list_all is_digit (decimal n) \<and> decimal n \<noteq> []"
proof (induction n rule: decimal.induct)
  case (1 n)
  have d: "is_digit (of_nat (48 + m))" if "m < 10" for m
    using digit_byte [OF that] that by (simp only: is_digit_def) simp
  show ?case
  proof (cases "n < 10")
    case True
    with d show ?thesis by (subst (1 2) decimal.simps) simp
  next
    case False
    with 1 d [of "n mod 10"] show ?thesis by (subst (1 2) decimal.simps) simp
  qed
qed

lemma decimal_value: "foldl (\<lambda>n d. 10 * n + (unat d - 48)) 0 (decimal n) = n"
proof (induction n rule: decimal.induct)
  case (1 n)
  show ?case
  proof (cases "n < 10")
    case True
    with digit_byte [OF this] show ?thesis by (subst decimal.simps) simp
  next
    case False
    with 1 digit_byte [of "n mod 10"] show ?thesis by (subst decimal.simps) (simp del: of_nat_add)
  qed
qed

lemma number_decimal [simp]: "number (decimal n) = Some n"
  using decimal_digits by (simp add: number_def decimal_value)

text \<open>As many digits as the size needs.\<close>

lemma length_decimal: "n < 10 ^ k \<Longrightarrow> 0 < k \<Longrightarrow> length (decimal n) \<le> k"
proof (induction k arbitrary: n)
  case (Suc k)
  show ?case
  proof (cases "n < 10")
    case False
    with Suc.prems have "n div 10 < 10 ^ k" "0 < k" by (auto intro: gr0I)
    with Suc.IH [of "n div 10"] False show ?thesis by (subst decimal.simps) simp
  qed (subst decimal.simps, simp)
qed simp

lemma crlf_line_append:
  assumes "13 \<notin> set l"
  shows "crlf_line (l @ 13 # 10 # r) = Some (l, r)"
  using assms
proof (induction l)
  case (Cons a l)
  then show ?case by (cases "l @ 13 # 10 # r") (auto simp: Cons_eq_append_conv)
qed simp

lemma header_lines_Cons:
  "13 \<notin> set l \<Longrightarrow> l \<noteq> [] \<Longrightarrow>
   header_lines (l @ 13 # 10 # r) = map_option (\<lambda>(ls, body). (l # ls, body)) (header_lines r)"
  by (subst header_lines.simps) (simp add: crlf_line_append)

lemma header_lines_end: "header_lines (13 # 10 # body) = Some ([], body)"
  by (subst header_lines.simps) simp

lemma decimal_no_CR: "13 \<notin> set (decimal n)"
  using decimal_digits [of n] by (auto simp: list_all_iff is_digit_def)

lemma bytes_of_CRLF: "bytes_of (CRLF @ s) = 13 # 10 # bytes_of s"
  by (simp add: bytes_of_def)

lemma read_ok_headers: "read_message (ok_headers n @ body) = Some (bytes_of ''HTTP/1.1 200 OK'', Some n, body)"
proof -
  let ?s = "bytes_of ''HTTP/1.1 200 OK''" and ?t = "bytes_of ''Content-Type: text/html''"
    and ?k = "bytes_of ''Content-Length: ''" and ?c = "bytes_of ''Connection: close''"
  have h: "ok_headers n @ body = ?s @ 13 # 10 # (?t @ 13 # 10 # ((?k @ decimal n) @ 13 # 10 # (?c @ 13 # 10 # 13 # 10 # body)))"
    by (simp add: ok_headers_def bytes_of_def)
  have cr: "13 \<notin> set ?s" "13 \<notin> set ?t" "13 \<notin> set ?k" "13 \<notin> set ?c" by code_simp+
  have ne: "?s \<noteq> []" "?t \<noteq> []" "?k @ decimal n \<noteq> []" "?c \<noteq> []" by (simp_all add: bytes_of_def)
  have "header_lines (ok_headers n @ body) = Some ([?s, ?t, ?k @ decimal n, ?c], body)"
    unfolding h using cr ne decimal_no_CR [of n] header_lines_Cons [of "?k @ decimal n"]
    by (simp add: header_lines_Cons header_lines_end)
  moreover have "take (length ?k) ?t \<noteq> ?k" by code_simp
  ultimately show ?thesis by (simp add: read_message_def field_value_def)
qed

lemma length_ok_headers: "length (ok_headers n) = 81 + length (decimal n)"
  by (simp add: ok_headers_def)

lemma memcpy_fill:
  assumes "length a = nat m" "0 \<le> m"
  shows "memcpy (replicate (nat m + length c) 0) 0 (a @ z) 0 m = Some (a @ replicate (length c) 0)"
    and "memcpy (a @ replicate (length c) 0) m c 0 (int (length c)) = Some (a @ c)"
  using assms by (simp_all add: memcpy_def in_range_def blit_def bytes_at_def nat_add_distrib)

text \<open>The successful answer is the header text followed by the file.\<close>

lemma serve_file_ok:
  assumes "he_file e path = Some f" "length f \<le> he_read e" "he_malloc_file e" "he_malloc_response e"
    and "length f < 2147483000"
  shows "http_serve_file e path = Some (ok_headers (length f) @ f, int (length (ok_headers (length f) @ f)))"
proof -
  let ?h = "ok_headers (length f)" and ?n = "int (length (ok_headers (length f)))"
  have l: "length ?h \<le> 91" using length_decimal [of "length f" 10] assms(5) by (simp add: length_ok_headers)
  then have sn: "snprintf 256 ?h = (?h @ replicate (256 - length ?h) 0, ?n)" by (simp add: snprintf_def Let_def)
  have m: "signed_take_bit 31 (?n + int (length f)) = ?n + int (length f)"
    using l assms(5) by (intro signed_take_bit_int_eq_self) simp_all
  have n: "nat (?n + int (length f)) = nat ?n + length f" by simp
  have "memcpy (replicate (nat (?n + int (length f))) 0) 0 (?h @ replicate (256 - length ?h) 0) 0 ?n =
      Some (?h @ replicate (length f) 0)"
    unfolding n by (rule memcpy_fill) simp_all
  with m assms memcpy_fill(2) [of ?h ?n f] show ?thesis
    by (simp add: http_serve_file_def Let_def sn)
qed

text \<open>Whatever the answer is, the reported length is its length and it is not empty.\<close>

lemma length_memcpy: "memcpy d i s j n = Some d' \<Longrightarrow> length d' = length d \<and> n \<le> int (length d) - i"
  by (auto simp: memcpy_def in_range_def split: if_splits)

lemma http_serve_file_len:
  assumes "http_serve_file e p = Some (m, k)"
  shows "k = int (length m) \<and> m \<noteq> []"
proof -
  have lit: "k = int (length m) \<and> m \<noteq> []" if "strdup_literal e t = Some (m, k)" "t \<noteq> []" for t
    using that by (auto simp: strdup_literal_def bytes_of_def split: if_splits)
  show ?thesis
  proof (cases "he_file e p")
    case None
    with assms lit show ?thesis by (simp add: http_serve_file_def)
  next
    case (Some f)
    let ?h = "ok_headers (length f)"
    let ?k = "signed_take_bit 31 (int (length ?h) + int (length f))"
    from Some assms consider "strdup_literal e (''HTTP/1.1 500 Internal Server Error'' @ CRLF @ CRLF) = Some (m, k)"
      | r1 where "memcpy (if he_malloc_response e then replicate (nat ?k) 0 else []) 0 (fst (snprintf 256 ?h)) 0 (int (length ?h)) = Some r1"
        "memcpy r1 (int (length ?h)) (take (he_read e) f) 0 (int (length f)) = Some m" "k = ?k"
      by (auto simp: http_serve_file_def Let_def snprintf_def bind_eq_Some_conv split: if_splits)
    then show ?thesis
    proof cases
      case 1
      with lit show ?thesis by simp
    next
      case 2
      from length_memcpy [OF 2(1)] length_memcpy [OF 2(2)] length_ok_headers [of "length f"] 2(3)
      show ?thesis by (auto split: if_splits)
    qed
  qed
qed

lemma http_handle_request_len:
  "http_handle_request e b d n = Some (m, k) \<Longrightarrow> k = int (length m) \<and> m \<noteq> []"
  using http_serve_file_len
  by (auto simp: http_handle_request_def bind_eq_Some_conv strdup_literal_def bytes_of_def split: if_splits)

text \<open>The first four bytes decide, all of them inside the buffer.\<close>

lemma starts_with_eq:
  "0 \<le> p \<Longrightarrow> p + int (length cs) \<le> int (length b) \<Longrightarrow> starts_with b p cs = Some (bytes_at b p (int (length cs)) = cs)"
proof (induction cs arbitrary: p)
  case (Cons c cs)
  then have "bytes_at b p (1 + int (length cs)) = b ! nat p # bytes_at b (p + 1) (int (length cs))"
    using bytes_at_Cons [of b p "1 + int (length cs)"] by (simp add: in_range_def)
  with Cons show ?case by (simp add: mem_simps in_range_def peek8_def add.commute)
qed (simp add: bytes_at_def)

text \<open>An answer without a body: the status line and nothing else.\<close>

lemma read_status_only:
  "13 \<notin> set (bytes_of t) \<Longrightarrow> t \<noteq> [] \<Longrightarrow>
   read_message (bytes_of (t @ CRLF @ CRLF)) = Some (bytes_of t, None, [])"
  using header_lines_Cons [of "bytes_of t" "[13, 10]"] header_lines_end [of "[]"]
  by (simp add: bytes_of_def read_message_def field_value_def)

section \<open>Properties\<close>

text \<open>
  C13: what a client of the original server reads. If the allocations succeed and the file is below
  2 GB, every request of at least four bytes inside the buffer gets a well-formed answer whose
  reported length is its length: a request that does not begin with \<open>GET\<close> and a space gets status
  400, a missing file 404, a file that cannot be read to its end 500, none of them with a body;
  otherwise the status is 200, the announced length, printed in decimal, is that of the body, and the body is the
  file.
\<close>

theorem http_handle_request_answers:
  assumes "0 \<le> data" "data + 4 \<le> int (length b)" "4 \<le> data_len"
    and "he_strdup e" "he_malloc_file e" "he_malloc_response e"
    and "\<And>f. he_file e ''./network/http/assets/Hello.html'' = Some f \<Longrightarrow> length f < 2147483000"
  shows "\<exists>m. http_handle_request e b data data_len = Some (m, int (length m)) \<and>
    read_message m = Some (
      if bytes_at b data 4 \<noteq> bytes_of ''GET '' then (bytes_of ''HTTP/1.1 400 Bad Request'', None, [])
      else case he_file e ''./network/http/assets/Hello.html'' of
          None \<Rightarrow> (bytes_of ''HTTP/1.1 404 Not Found'', None, [])
        | Some f \<Rightarrow> if length f \<le> he_read e then (bytes_of ''HTTP/1.1 200 OK'', Some (length f), f)
            else (bytes_of ''HTTP/1.1 500 Internal Server Error'', None, []))"
proof -
  let ?p = "''./network/http/assets/Hello.html''"
  have get: "starts_with b data (bytes_of ''GET '') = Some (bytes_at b data 4 = bytes_of ''GET '')"
    using starts_with_eq [of data "bytes_of ''GET ''" b] assms(1,2) by simp
  have lit: "strdup_literal e t = Some (bytes_of t, int (length (bytes_of t)))" for t
    using assms(4) by (simp add: strdup_literal_def)
  have cr: "13 \<notin> set (bytes_of ''HTTP/1.1 400 Bad Request'')" "13 \<notin> set (bytes_of ''HTTP/1.1 404 Not Found'')"
    "13 \<notin> set (bytes_of ''HTTP/1.1 500 Internal Server Error'')" by code_simp+
  note status = this [THEN read_status_only, OF list.distinct(2)]
  show ?thesis
  proof (cases "bytes_at b data 4 = bytes_of ''GET ''")
    case False
    with status(1) show ?thesis
      by (intro exI [of _ "bytes_of (''HTTP/1.1 400 Bad Request'' @ CRLF @ CRLF)"])
        (simp add: http_handle_request_def get lit assms(3) del: append.simps)
  next
    case True
    then have serve: "http_handle_request e b data data_len = http_serve_file e ?p"
      using assms(3) by (simp add: http_handle_request_def get)
    show ?thesis
    proof (cases "he_file e ?p")
      case None
      with True status(2) show ?thesis
        by (intro exI [of _ "bytes_of (''HTTP/1.1 404 Not Found'' @ CRLF @ CRLF)"])
          (simp add: serve http_serve_file_def lit del: append.simps)
    next
      case (Some f)
      show ?thesis
      proof (cases "length f \<le> he_read e")
        case True
        with serve_file_ok [OF Some True assms(5,6) assms(7) [OF Some]] \<open>bytes_at b data 4 = _\<close> Some show ?thesis
          by (intro exI [of _ "ok_headers (length f) @ f"]) (simp add: serve read_ok_headers)
      next
        case False
        with \<open>bytes_at b data 4 = _\<close> Some assms(5) status(3) show ?thesis
          by (intro exI [of _ "bytes_of (''HTTP/1.1 500 Internal Server Error'' @ CRLF @ CRLF)"])
            (simp add: serve http_serve_file_def lit Let_def min_def del: append.simps)
      qed
    qed
  qed
qed

definition sample_http :: http_env where
  "sample_http = \<lparr>he_file = (\<lambda>p. Some (bytes_of ''hello'')), he_read = 5, he_malloc_file = True,
     he_malloc_response = True, he_strdup = True\<rparr>"

theorem http_handle_request_answers_witness:
  "\<exists>m. http_handle_request sample_http (bytes_of ''GET /'') 0 5 = Some (m, int (length m)) \<and>
     read_message m = Some (bytes_of ''HTTP/1.1 200 OK'', Some 5, bytes_of ''hello'')"
proof -
  have "bytes_at (bytes_of ''GET /'') 0 4 = bytes_of ''GET ''" "length (bytes_of ''hello'') = 5"
    "length (bytes_of ''GET /'') = 5" by code_simp+
  then show ?thesis
    using http_handle_request_answers [of 0 "bytes_of ''GET /''" 5 sample_http]
    by (simp add: sample_http_def del: length_bytes_of)
qed

end
