(* ===== verification/V1_Tcp.thy ===== *)
theory V1_Tcp
  imports Segment V1_Net V1_Table V1_Http
begin

text \<open>
  \<open>network/tcp/tcp.c\<close> of the original program above its connection list: building of segments in
  the receive buffer and the dispatcher with its state machine, data handed to HTTP. The
  sequence numbers of a control block are C \<open>int\<close>s, so additions to them are signed: \<open>int_add\<close>
  is \<open>None\<close> when one overflows. The header overlay is the one of theory \<open>Segment\<close>, whose layout
  the original declares too. The clock, \<open>rand\<close> and what HTTP needs are inputs; the console
  output is in theory \<open>V1_Console\<close>. The behaviour, faults included, is then shown to be exactly that of a
  specification on the map of connections.
\<close>

section \<open>Signed arithmetic and blocks\<close>

definition int_add :: "u32 \<Rightarrow> u32 \<Rightarrow> u32 option" where
  "int_add a b = (if - 2147483648 \<le> sint a + sint b \<and> sint a + sint b < 2147483648 then Some (a + b) else None)"

abbreviation set_block :: "server_v1 \<Rightarrow> nat \<Rightarrow> TCB_v1 \<Rightarrow> server_v1" where
  "set_block s p t \<equiv> s\<lparr>blocks := (blocks s)(p \<mapsto> t)\<rparr>"

record v1_env =
  tv_sec :: int
  tv_usec :: int
  rand_v1 :: int
  http :: http_env

abbreviation (input) TCP_SILENT :: int where "TCP_SILENT \<equiv> 2"

section \<open>Operations\<close>

definition tcp_get_ticks :: "v1_env \<Rightarrow> u32" where
  "tcp_get_ticks e = word_of_int ((tv_sec e * 1000000 + tv_usec e) + rand_v1 e)"

text \<open>The local array has one byte more than is summed.\<close>

definition tcp_update_checksum :: "buffer \<Rightarrow> int \<Rightarrow> int \<Rightarrow> Pseudo \<Rightarrow> buffer option" where
  "tcp_update_checksum b tcp tcp_pack_len pseudo_ip = do {
     b \<leftarrow> store16 b (tcp + TCP_checksum) 0;
     let buffer = replicate (nat (tcp_pack_len + sizeof_Pseudo + 1)) 0;
     buffer \<leftarrow> memcpy buffer 0 (pseudo_bytes pseudo_ip) 0 sizeof_Pseudo;
     buffer \<leftarrow> memcpy buffer sizeof_Pseudo b tcp tcp_pack_len;
     c \<leftarrow> packet_checksum buffer 0 (tcp_pack_len + sizeof_Pseudo);
     store16 b (tcp + TCP_checksum) c
   }"

definition tcp_switch_port :: "buffer \<Rightarrow> int \<Rightarrow> buffer option" where
  "tcp_switch_port b tcp = do {
     dst \<leftarrow> load16 b (tcp + TCP_dst_port);
     src \<leftarrow> load16 b (tcp + TCP_src_port);
     b \<leftarrow> store16 b (tcp + TCP_dst_port) src;
     store16 b (tcp + TCP_src_port) dst
   }"

definition tcp_null_rst :: "buffer \<Rightarrow> int \<Rightarrow> buffer option" where
  "tcp_null_rst b tcp = do {
     fl \<leftarrow> load8 b (tcp + TCP_flags);
     let syn = (fl AND SYN \<noteq> 0);
     let ack = (fl AND ACK \<noteq> 0);
     let fin = (fl AND FIN \<noteq> 0);
     d \<leftarrow> load8 b (tcp + TCP_data_offset);
     let tcp_header_len = hlen_high d;
     v \<leftarrow> load8 b IP_version_ihl;
     let ip_header_len = hlen_low v;
     l \<leftarrow> load16 b IP_len;
     let seg_len = uint (ntohs l) - ip_header_len - tcp_header_len;
     (seq_num, ack_num, flags) \<leftarrow>
       (if ack
        then do {
          a \<leftarrow> load32 b (tcp + TCP_ack_num);
          Some (ntohl a, 0, RST)
        }
        else do {
          let seg_len = seg_len + (of_bool fin + of_bool syn);
          q \<leftarrow> load32 b (tcp + TCP_seq_num);
          Some (0, ntohl q + word_of_int seg_len, RST OR ACK)
        });
     b \<leftarrow> ip_swap_dst_v1 b;
     b \<leftarrow> tcp_switch_port b tcp;
     b \<leftarrow> store16 b IP_len (htons (word_of_int (ip_header_len + tcp_header_len)));
     b \<leftarrow> store32 b (tcp + TCP_seq_num) (htonl seq_num);
     b \<leftarrow> store32 b (tcp + TCP_ack_num) (htonl ack_num);
     b \<leftarrow> store8 b (tcp + TCP_data_offset) (set_hlen_high tcp_header_len);
     b \<leftarrow> store8 b (tcp + TCP_flags) flags;
     b \<leftarrow> store16 b (tcp + TCP_window) 0;
     b \<leftarrow> store16 b (tcp + TCP_urgent_ptr) 0;
     b \<leftarrow> ip_update_checksum b ip_header_len;
     src \<leftarrow> load32 b IP_src;
     dst \<leftarrow> load32 b IP_dst;
     tcp_update_checksum b tcp tcp_header_len
       \<lparr>ps_src = src, ps_dst = dst, ps_zero = 0, ps_proto = 6, ps_tcp_len = htons (word_of_int tcp_header_len)\<rparr>
   }"

definition tcp_null_syn_ack :: "v1_env \<Rightarrow> server_v1 \<Rightarrow> nat \<Rightarrow> buffer \<Rightarrow> int \<Rightarrow> (buffer \<times> server_v1) option" where
  "tcp_null_syn_ack e s tcb b tcp = do {
     t \<leftarrow> block_at (blocks s) tcb;
     q \<leftarrow> load32 b (tcp + TCP_seq_num);
     let irs = ntohl q;
     recv_next \<leftarrow> int_add irs 1;
     w \<leftarrow> load16 b (tcp + TCP_window);
     let iss = tcp_get_ticks e;
     send_next \<leftarrow> int_add iss 1;
     let t = t\<lparr>v1_recv := (v1_recv t)\<lparr>r_irs := irs, r_next := recv_next\<rparr>,
               v1_send := \<lparr>s_unac = iss, s_next = send_next, s_window = ucast (ntohs w), s_iss = iss\<rparr>\<rparr>;
     b \<leftarrow> ip_swap_dst_v1 b;
     b \<leftarrow> tcp_switch_port b tcp;
     d \<leftarrow> load8 b (tcp + TCP_data_offset);
     let tcp_header_len = hlen_high d;
     b \<leftarrow> store32 b (tcp + TCP_seq_num) (htonl (s_iss (v1_send t)));
     b \<leftarrow> store32 b (tcp + TCP_ack_num) (htonl (r_next (v1_recv t)));
     b \<leftarrow> store8 b (tcp + TCP_data_offset) (set_hlen_high tcp_header_len);
     b \<leftarrow> store8 b (tcp + TCP_flags) (SYN OR ACK);
     b \<leftarrow> store16 b (tcp + TCP_window) (htons (ucast (r_window (v1_recv t))));
     b \<leftarrow> store16 b (tcp + TCP_urgent_ptr) 0;
     v \<leftarrow> load8 b IP_version_ihl;
     let ip_header_len = hlen_low v;
     b \<leftarrow> store16 b IP_len (htons (word_of_int (ip_header_len + tcp_header_len)));
     b \<leftarrow> ip_update_checksum b ip_header_len;
     src \<leftarrow> load32 b IP_src;
     dst \<leftarrow> load32 b IP_dst;
     b \<leftarrow> tcp_update_checksum b tcp tcp_header_len
       \<lparr>ps_src = src, ps_dst = dst, ps_zero = 0, ps_proto = 6, ps_tcp_len = htons (word_of_int tcp_header_len)\<rparr>;
     Some (b, set_block s tcb t)
   }"

text \<open>
  \<open>rst_seq\<close> is compared in the byte order of the network, as in the source; the two \<open>SEQ\<close> macros
  subtract an \<open>int\<close> from a \<open>uint32_t\<close>, which is unsigned, but the sum in the second one is signed.
\<close>

definition tcp_got_rst :: "server_v1 \<Rightarrow> nat \<Rightarrow> buffer \<Rightarrow> int \<Rightarrow> (bool \<times> server_v1) option" where
  "tcp_got_rst s tcb b tcp = do {
     rst_seq \<leftarrow> load32 b (tcp + TCP_seq_num);
     t \<leftarrow> block_at (blocks s) tcb;
     inside \<leftarrow> (if SEQ_GEQ rst_seq (r_next (v1_recv t))
        then do {
          limit \<leftarrow> int_add (r_next (v1_recv t)) (r_window (v1_recv t));
          Some (SEQ_LT rst_seq limit)
        }
        else Some False);
     if inside then do { s \<leftarrow> tcp_remove_connection s tcb; Some (False, s) }
     else Some (True, s)
   }"

text \<open>\<open>body\<close> is \<open>None\<close> for \<open>NULL\<close>; \<open>body_len\<close> is separate, as in the source.\<close>

definition tcp_send_ack ::
  "server_v1 \<Rightarrow> nat \<Rightarrow> buffer \<Rightarrow> int \<Rightarrow> buffer option \<Rightarrow> int \<Rightarrow> (buffer \<times> server_v1) option" where
  "tcp_send_ack s tcb b tcp body body_len = do {
     b \<leftarrow> ip_swap_dst_v1 b;
     b \<leftarrow> tcp_switch_port b tcp;
     v \<leftarrow> load8 b IP_version_ihl;
     let ip_hl = hlen_low v;
     d \<leftarrow> load8 b (tcp + TCP_data_offset);
     let tcp_hl = hlen_high d;
     t \<leftarrow> block_at (blocks s) tcb;
     b \<leftarrow> store32 b (tcp + TCP_seq_num) (htonl (s_next (v1_send t)));
     b \<leftarrow> store32 b (tcp + TCP_ack_num) (htonl (r_next (v1_recv t)));
     b \<leftarrow> store8 b (tcp + TCP_data_offset) (set_hlen_high tcp_hl);
     b \<leftarrow> store16 b (tcp + TCP_window) (htons (ucast (r_window (v1_recv t))));
     b \<leftarrow> store16 b (tcp + TCP_urgent_ptr) 0;
     (b, t) \<leftarrow> (case body of
         Some data \<Rightarrow>
           if body_len > 0
           then do {
             b \<leftarrow> store8 b (tcp + TCP_flags) (PSH OR ACK);
             b \<leftarrow> memcpy b (tcp + tcp_hl) data 0 body_len;
             b \<leftarrow> store16 b IP_len (htons (word_of_int (ip_hl + tcp_hl + body_len)));
             send_next \<leftarrow> int_add (s_next (v1_send t)) (word_of_int body_len);
             Some (b, t\<lparr>v1_send := (v1_send t)\<lparr>s_next := send_next\<rparr>\<rparr>)
           }
           else do {
             b \<leftarrow> store8 b (tcp + TCP_flags) ACK;
             b \<leftarrow> store16 b IP_len (htons (word_of_int (ip_hl + tcp_hl)));
             Some (b, t)
           }
       | None \<Rightarrow> do {
           b \<leftarrow> store8 b (tcp + TCP_flags) ACK;
           b \<leftarrow> store16 b IP_len (htons (word_of_int (ip_hl + tcp_hl)));
           Some (b, t)
         });
     b \<leftarrow> ip_update_checksum b ip_hl;
     src \<leftarrow> load32 b IP_src;
     dst \<leftarrow> load32 b IP_dst;
     b \<leftarrow> tcp_update_checksum b tcp (tcp_hl + body_len)
       \<lparr>ps_src = src, ps_dst = dst, ps_zero = 0, ps_proto = 6, ps_tcp_len = htons (word_of_int (tcp_hl + body_len))\<rparr>;
     Some (b, set_block s tcb t)
   }"

definition tcp_handle_data :: "v1_env \<Rightarrow> server_v1 \<Rightarrow> nat \<Rightarrow> buffer \<Rightarrow> int \<Rightarrow> (int \<times> buffer \<times> server_v1) option" where
  "tcp_handle_data e s tcb b tcp = do {
     v \<leftarrow> load8 b IP_version_ihl;
     let ip_hl = hlen_low v;
     d \<leftarrow> load8 b (tcp + TCP_data_offset);
     let tcp_hl = hlen_high d;
     l \<leftarrow> load16 b IP_len;
     let data_len = uint (ntohs l) - ip_hl - tcp_hl;
     if data_len \<le> 0 then Some (TCP_SILENT, b, s)
     else do {
       (http_response, message_len) \<leftarrow> http_handle_request (http e) b (ip_hl + tcp_hl) data_len;
       t \<leftarrow> block_at (blocks s) tcb;
       recv_next \<leftarrow> int_add (r_next (v1_recv t)) (word_of_int data_len);
       let s = set_block s tcb (t\<lparr>v1_recv := (v1_recv t)\<lparr>r_next := recv_next\<rparr>\<rparr>);
       (b, s) \<leftarrow> tcp_send_ack s tcb b tcp (Some http_response) message_len;
       Some (0, b, s)
     }
   }"

definition tcp_dispatch_v1 :: "v1_env \<Rightarrow> server_v1 \<Rightarrow> buffer \<Rightarrow> int \<Rightarrow> (int \<times> buffer \<times> server_v1) option" where
  "tcp_dispatch_v1 e s b tcp = do {
     src_ip \<leftarrow> load32 b IP_src;
     dst_ip \<leftarrow> load32 b IP_dst;
     src_port \<leftarrow> load16 b (tcp + TCP_src_port);
     dst_port \<leftarrow> load16 b (tcp + TCP_dst_port);
     let i = \<lparr>c_src_ip = src_ip, c_src_port = ucast src_port, c_dst_ip = dst_ip, c_dst_port = ucast dst_port\<rparr>;
     flags \<leftarrow> load8 b (tcp + TCP_flags);
     let syn = (flags AND SYN \<noteq> 0);
     let ack = (flags AND ACK \<noteq> 0);
     let fin = (flags AND FIN \<noteq> 0);
     let rst = (flags AND RST \<noteq> 0);
     con_state \<leftarrow> tcp_get_state s i;
     if con_state = 0
     then if rst then Some (TCP_SILENT, b, s)
          else if syn \<and> \<not> ack
          then do {
            let (tcb, s) = tcp_init_tcb s i;
            s \<leftarrow> tcp_insert_tcb s tcb;
            (b, s) \<leftarrow> tcp_null_syn_ack e s tcb b tcp;
            if tcb = 0 then Some (TCP_SILENT, b, s) else Some (0, b, s)
          }
          else do { b \<leftarrow> tcp_null_rst b tcp; Some (0, b, s) }
     else if rst
     then do { (r, s) \<leftarrow> tcp_got_rst s con_state b tcp; Some (TCP_SILENT, b, s) }
     else do {
       t \<leftarrow> block_at (blocks s) con_state;
       (case v1_state t of
         TCP_SYN_RECEIVED \<Rightarrow>
           if syn \<and> \<not> ack
           then do { (b, s) \<leftarrow> tcp_null_syn_ack e s con_state b tcp; Some (TCP_SILENT, b, s) }
           else if ack \<and> \<not> syn
           then do {
             a \<leftarrow> load32 b (tcp + TCP_ack_num);
             let ack_num = ntohl a;
             if ack_num = s_next (v1_send t)
             then Some (TCP_SILENT, b, set_block s con_state
                    (t\<lparr>v1_state := TCP_ESTABLISHED, v1_send := (v1_send t)\<lparr>s_unac := ack_num\<rparr>\<rparr>))
             else Some (TCP_SILENT, b, s)
           }
           else Some (TCP_SILENT, b, s)
       | TCP_ESTABLISHED \<Rightarrow>
           if fin
           then do {
             q \<leftarrow> load32 b (tcp + TCP_seq_num);
             let s = set_block s con_state (t\<lparr>v1_recv := (v1_recv t)\<lparr>r_next := ntohl q + 1\<rparr>\<rparr>);
             (b, s) \<leftarrow> tcp_send_ack s con_state b tcp None 0;
             t \<leftarrow> block_at (blocks s) con_state;
             Some (0, b, set_block s con_state (t\<lparr>v1_state := TCP_CLOSE_WAIT\<rparr>))
           }
           else tcp_handle_data e s con_state b tcp
       | _ \<Rightarrow> Some (TCP_SILENT, b, s))
     }
   }"

section \<open>The built segments\<close>

record v1_reply =
  rp_seq :: u32
  rp_ack :: u32
  rp_flags :: byte
  rp_window :: u16
  rp_body :: "byte list"

text \<open>Both checksums renewed, the second over \<open>n\<close> bytes from the TCP header on.\<close>

definition sealed :: "buffer \<Rightarrow> int \<Rightarrow> int \<Rightarrow> buffer" where
  "sealed b off n = (let g = ip_summed b;
       p = \<lparr>ps_src = peek32 g IP_src, ps_dst = peek32 g IP_dst, ps_zero = 0, ps_proto = 6, ps_tcp_len = htons (word_of_int n)\<rparr>
     in poke16 g (off + TCP_checksum) (cks (pseudo_bytes p @ bytes_at (poke16 g (off + TCP_checksum) 0) off n)))"

definition unsealed :: "buffer \<Rightarrow> int \<Rightarrow> v1_reply \<Rightarrow> buffer" where
  "unsealed b off r = (let h = hlen_high (peek8 b (off + TCP_data_offset));
       f = reply_fields (ports_swapped (swapped b) off) off (rp_seq r) (rp_ack r) (rp_flags r) (htons (rp_window r));
       f = (if rp_body r = [] then f else blit f (off + h) (rp_body r) 0 (int (length (rp_body r))))
     in poke16 f IP_len (htons (word_of_int (off + h + int (length (rp_body r))))))"

definition segment_v1 :: "buffer \<Rightarrow> int \<Rightarrow> v1_reply \<Rightarrow> buffer" where
  "segment_v1 b off r =
     sealed (unsealed b off r) off (hlen_high (peek8 b (off + TCP_data_offset)) + int (length (rp_body r)))"

text \<open>The receive buffer and the position of the TCP header when the dispatcher is called.\<close>

definition at_v1 :: "buffer \<Rightarrow> int \<Rightarrow> bool" where
  "at_v1 b off \<longleftrightarrow> length b = 1501 \<and> off = ihl_of b \<and> 20 \<le> off"

lemma at_v1D:
  assumes "at_v1 b off"
  shows "length b = 1501" "20 \<le> off" "off \<le> 60" "ihl_of b = off"
  using assms hlen_low_bounds [of "peek8 b 0"] by (auto simp: at_v1_def)

lemma poke_commute:
  "0 \<le> i \<Longrightarrow> i + 2 \<le> j \<Longrightarrow> poke8 (poke16 b i v) j w = poke16 (poke8 b j w) i v"
  "0 \<le> i \<Longrightarrow> i + 2 \<le> j \<Longrightarrow> poke16 (poke16 b i v) j x = poke16 (poke16 b j x) i v"
  "0 \<le> i \<Longrightarrow> i + 2 \<le> j \<Longrightarrow> poke32 (poke16 b i v) j y = poke16 (poke32 b j y) i v"
  "0 \<le> j \<Longrightarrow> j + 1 \<le> i \<Longrightarrow> poke8 (poke16 b i v) j w = poke16 (poke8 b j w) i v"
  by (simp_all add: poke_defs list_update_swap)

lemma tcp_switch_port_eq [op_simps]:
  "0 \<le> off \<Longrightarrow> off + 4 \<le> int (length b) \<Longrightarrow> tcp_switch_port b off = Some (ports_swapped b off)"
  using poke_commute(2) [of off "off + 2" b]
  by (simp add: tcp_switch_port_def ports_swapped_def in_range_def mem_simps)

lemma tcp_update_checksum_eq:
  assumes "0 \<le> off" "0 \<le> n" "off + n \<le> int (length b)" "off + 18 \<le> int (length b)" "n \<le> 65536"
  shows "tcp_update_checksum b off n p =
    Some (poke16 b (off + 16) (cks (pseudo_bytes p @ bytes_at (poke16 b (off + 16) 0) off n)))"
proof -
  let ?z = "poke16 b (off + 16) 0" and ?r = "replicate (nat (13 + n)) (0 :: byte)"
  have r: "in_range ?z off n" "in_range b (off + 16) 2" using assms by (auto simp: in_range_def)
  let ?g = "blit ?r 0 (pseudo_bytes p) 0 12"
  have m1: "memcpy ?r 0 (pseudo_bytes p) 0 12 = Some ?g"
    using assms(2) by (simp add: memcpy_def in_range_def)
  have "blit ?g 12 ?z off n = pseudo_bytes p @ bytes_at ?z off n @ [0]"
    using assms(2) r drop_replicate [of "nat n" "Suc (nat n)" "0 :: byte"]
    by (simp add: blit_def bytes_at_def in_range_def nat_add_distrib)
  then have m2: "memcpy ?g 12 ?z off n = Some (pseudo_bytes p @ bytes_at ?z off n @ [0])"
    using assms(2) r by (simp add: memcpy_def in_range_def)
  have "bytes_at (pseudo_bytes p @ bytes_at ?z off n @ [0]) 0 (n + 12) = pseudo_bytes p @ bytes_at ?z off n"
    using assms(2) r by (simp add: bytes_at_def in_range_def nat_add_distrib) arith
  moreover have "in_range (pseudo_bytes p @ bytes_at ?z off n @ [0]) 0 (n + 12)"
    using assms(2) r by (simp add: in_range_def)
  ultimately have c: "packet_checksum (pseudo_bytes p @ bytes_at ?z off n @ [0]) 0 (n + 12) =
      Some (cks (pseudo_bytes p @ bytes_at ?z off n))"
    using assms by (simp add: checksum_eq)
  show ?thesis
    using r m1 m2 c by (simp add: tcp_update_checksum_def Let_def mem_simps c16.poke_poke)
qed

text \<open>The common end of the three builders.\<close>

abbreviation (input) finish_v1 :: "buffer \<Rightarrow> int \<Rightarrow> int \<Rightarrow> int \<Rightarrow> buffer option" where
  "finish_v1 b k off n \<equiv> Option.bind (ip_update_checksum b k) (\<lambda>b.
     Option.bind (load32 b IP_src) (\<lambda>src. Option.bind (load32 b IP_dst) (\<lambda>dst. tcp_update_checksum b off n
       \<lparr>ps_src = src, ps_dst = dst, ps_zero = 0, ps_proto = 6, ps_tcp_len = htons (word_of_int n)\<rparr>)))"

lemma finish_v1_sealed:
  assumes "at_v1 b off" "0 \<le> n" "off + n \<le> 1501"
  shows "finish_v1 b off off n = Some (sealed b off n)"
  using at_v1D [OF assms(1)] assms(2-)
  by (simp add: op_simps in_range_def mem_simps tcp_update_checksum_eq sealed_def Let_def)

lemma length_unsealed [simp]:
  assumes "at_v1 b off" "off + hlen_high (peek8 b (off + 12)) + int (length (rp_body r)) \<le> 1501"
  shows "length (unsealed b off r) = 1501"
  using at_v1D [OF assms(1)] assms(2) hlen_high_bounds [of "peek8 b (off + 12)"]
  by (simp add: unsealed_def Let_def in_range_def)

lemma at_v1_unsealed:
  assumes "at_v1 b off" "off + hlen_high (peek8 b (off + 12)) + int (length (rp_body r)) \<le> 1501"
  shows "at_v1 (unsealed b off r) off"
proof -
  note at = at_v1D [OF assms(1)]
  have "peek8 (unsealed b off r) 0 = peek8 b 0"
    using at assms(2) hlen_high_bounds [of "peek8 b (off + 12)"]
    by (simp add: unsealed_def Let_def in_range_def mem_simps)
  with at assms show ?thesis by (simp add: at_v1_def)
qed

lemma finish_v1_segment:
  assumes "at_v1 b off" "n = hlen_high (peek8 b (off + 12)) + int (length (rp_body r))" "off + n \<le> 1501"
  shows "finish_v1 (unsealed b off r) off off n = Some (segment_v1 b off r)"
proof -
  have "at_v1 (unsealed b off r) off" using assms by (intro at_v1_unsealed) simp_all
  moreover have "0 \<le> n" using assms(2) hlen_high_bounds [of "peek8 b (off + 12)"] by simp
  ultimately show ?thesis
    unfolding segment_v1_def assms(2) [symmetric] using finish_v1_sealed assms(3) by blast
qed

lemmas build_simps = unsealed_def reply_fields_def in_range_def Let_def poke_commute

lemma tcp_null_rst_eq [op_simps]:
  assumes "at_v1 b off"
  defines "fl \<equiv> flags_of (peek8 b (off + TCP_flags))"
  shows "tcp_null_rst b off = Some (segment_v1 b off
    (if f_ack fl then \<lparr>rp_seq = htonl (peek32 b (off + TCP_ack_num)), rp_ack = 0, rp_flags = RST, rp_window = 0, rp_body = []\<rparr>
     else \<lparr>rp_seq = 0, rp_ack = htonl (peek32 b (off + TCP_seq_num)) +
             word_of_int (uint (htons (peek16 b IP_len)) - off - hlen_high (peek8 b (off + TCP_data_offset)) +
               (of_bool (f_fin fl) + of_bool (f_syn fl))),
           rp_flags = RST OR ACK, rp_window = 0, rp_body = []\<rparr>))" (is "_ = Some (segment_v1 b off ?r)")
proof -
  note at = at_v1D [OF assms(1)]
  let ?h = "hlen_high (peek8 b (off + 12))"
  have h: "0 \<le> ?h" "?h \<le> 60" by (rule hlen_high_bounds)+
  have z: "htons 0 = 0" by code_simp
  have "tcp_null_rst b off = finish_v1 (unsealed b off ?r) off off ?h"
    using at h z
    by (cases "f_ack fl") (simp_all add: tcp_null_rst_def fl_def flags_of_def build_simps mem_simps op_simps)
  also have "\<dots> = Some (segment_v1 b off ?r)"
    using finish_v1_segment [OF assms(1), of ?h ?r] at h by simp
  finally show ?thesis .
qed

text \<open>What \<open>tcp_null_syn_ack\<close> makes of a block, if the signed additions do not overflow.\<close>

definition syn_block :: "v1_env \<Rightarrow> buffer \<Rightarrow> int \<Rightarrow> TCB_v1 \<Rightarrow> TCB_v1" where
  "syn_block e b off t = (let irs = htonl (peek32 b (off + TCP_seq_num)); iss = tcp_get_ticks e in
     t\<lparr>v1_recv := (v1_recv t)\<lparr>r_irs := irs, r_next := irs + 1\<rparr>,
       v1_send := \<lparr>s_unac = iss, s_next = iss + 1, s_window = ucast (htons (peek16 b (off + TCP_window))), s_iss = iss\<rparr>\<rparr>)"

definition syn_defined :: "v1_env \<Rightarrow> buffer \<Rightarrow> int \<Rightarrow> bool" where
  "syn_defined e b off \<longleftrightarrow> htonl (peek32 b (off + TCP_seq_num)) \<noteq> 0x7fffffff \<and> tcp_get_ticks e \<noteq> 0x7fffffff"

definition syn_reply :: "TCB_v1 \<Rightarrow> v1_reply" where
  "syn_reply t = \<lparr>rp_seq = s_iss (v1_send t), rp_ack = r_next (v1_recv t), rp_flags = SYN OR ACK,
     rp_window = ucast (r_window (v1_recv t)), rp_body = []\<rparr>"

lemma int_add_1: "int_add a 1 = (if a = 0x7fffffff then None else Some (a + 1))"
proof -
  have b: "- 2147483648 \<le> sint a" "sint a < 2147483648" using sint_range_size [of a] by (auto simp: word_size)
  have "sint a = 2147483647 \<longleftrightarrow> a = 0x7fffffff"
    using signed_word_eqI [of a "0x7fffffff"] by auto
  with b show ?thesis by (auto simp: int_add_def)
qed

lemma tcp_null_syn_ack_eq [op_simps]:
  assumes "at_v1 b off" "blocks s p = Some t" "p \<noteq> 0"
  shows "tcp_null_syn_ack e s p b off = (if syn_defined e b off
    then Some (segment_v1 b off (syn_reply (syn_block e b off t)), set_block s p (syn_block e b off t)) else None)"
proof (cases "syn_defined e b off")
  case True
  note at = at_v1D [OF assms(1)]
  let ?h = "hlen_high (peek8 b (off + 12))" and ?r = "syn_reply (syn_block e b off t)"
  have h: "0 \<le> ?h" "?h \<le> 60" by (rule hlen_high_bounds)+
  have "tcp_null_syn_ack e s p b off =
      map_option (\<lambda>b'. (b', set_block s p (syn_block e b off t))) (finish_v1 (unsealed b off ?r) off off ?h)"
    using at h True assms(2,3)
    by (simp add: tcp_null_syn_ack_def syn_defined_def int_add_1 block_at_def syn_reply_def syn_block_def
        build_simps mem_simps op_simps map_conv_bind_option comp_def)
  then show ?thesis
    using finish_v1_segment [OF assms(1), of ?h ?r] at h True by (simp add: syn_reply_def)
next
  case False
  then show ?thesis
    using at_v1D [OF assms(1)] assms(2,3)
    by (auto simp: tcp_null_syn_ack_def syn_defined_def int_add_1 block_at_def in_range_def mem_simps Let_def)
qed

text \<open>
  An acknowledgment with the given payload: the block after sending, when it fits the buffer and
  the sequence number does not overflow.
\<close>

definition ack_reply :: "TCB_v1 \<Rightarrow> byte list \<Rightarrow> v1_reply" where
  "ack_reply t m = \<lparr>rp_seq = s_next (v1_send t), rp_ack = r_next (v1_recv t),
     rp_flags = (if m = [] then ACK else PSH OR ACK), rp_window = ucast (r_window (v1_recv t)), rp_body = m\<rparr>"

definition sent_block :: "TCB_v1 \<Rightarrow> byte list \<Rightarrow> TCB_v1 option" where
  "sent_block t m = (if m = [] then Some t
     else do {
       n \<leftarrow> int_add (s_next (v1_send t)) (word_of_int (int (length m)));
       Some (t\<lparr>v1_send := (v1_send t)\<lparr>s_next := n\<rparr>\<rparr>)
     })"

lemma tcp_send_ack_eq:
  assumes "at_v1 b off" "blocks s p = Some t" "p \<noteq> 0"
  shows "tcp_send_ack s p b off (if m = [] then None else Some m) (int (length m)) =
    (if off + hlen_high (peek8 b (off + TCP_data_offset)) + int (length m) \<le> 1501
     then map_option (\<lambda>t'. (segment_v1 b off (ack_reply t m), set_block s p t')) (sent_block t m) else None)"
proof -
  note at = at_v1D [OF assms(1)]
  let ?h = "hlen_high (peek8 b (off + 12))" and ?r = "ack_reply t m"
  have h: "0 \<le> ?h" "?h \<le> 60" by (rule hlen_high_bounds)+
  show ?thesis
  proof (cases "off + ?h + int (length m) \<le> 1501")
    case True
    show ?thesis
    proof (cases "sent_block t m")
      case (Some t')
      have "tcp_send_ack s p b off (if m = [] then None else Some m) (int (length m)) =
          map_option (\<lambda>b'. (b', set_block s p t')) (finish_v1 (unsealed b off ?r) off off (?h + int (length m)))"
      proof (cases "m = []")
        case True
        with at h assms(2,3) Some show ?thesis
          by (simp add: tcp_send_ack_def sent_block_def ack_reply_def block_at_def build_simps mem_simps op_simps
              map_conv_bind_option comp_def)
      next
        case False
        with at h assms(2,3) Some \<open>off + ?h + int (length m) \<le> 1501\<close> show ?thesis
          by (auto simp: tcp_send_ack_def sent_block_def ack_reply_def block_at_def build_simps mem_simps op_simps
              map_conv_bind_option comp_def bind_eq_Some_conv)
      qed
      with Some True finish_v1_segment [OF assms(1), of "?h + int (length m)" ?r] show ?thesis
        by (simp add: ack_reply_def)
    next
      case None
      then have "m \<noteq> []" "int_add (s_next (v1_send t)) (word_of_int (int (length m))) = None"
        by (auto simp: sent_block_def bind_eq_None_conv split: if_splits)
      with None True at h assms(2,3) show ?thesis
        by (simp add: tcp_send_ack_def block_at_def in_range_def mem_simps op_simps Let_def)
    qed
  next
    case False
    then have "m \<noteq> []" using at h by auto
    with False at h assms(2,3) show ?thesis
      by (simp add: tcp_send_ack_def block_at_def memcpy_def in_range_def mem_simps op_simps Let_def)
  qed
qed

end
