(* ===== verification/V1_Debug.thy ===== *)
theory V1_Debug
  imports V1_Tcp Text_Format
begin

text \<open>
  \<open>debug/debug.c\<close> of the original program: the text it prints in verbose mode, as strings. The
  printers read the packet buffer and the connection list, so they can fault too: reads are
  checked as everywhere, and the text exists exactly when they stay inside their objects. The hex
  dump is shown to be readable back.
\<close>

section \<open>Formats\<close>

text \<open>\<open>%d\<close>; the other formats are in theory \<open>Text_Format\<close>.\<close>

definition fmt_d :: "int \<Rightarrow> string" where
  "fmt_d i = (if i < 0 then ''-'' @ fmt_u (nat (- i)) else fmt_u (nat i))"

text \<open>\<open>inet_ntop(AF_INET, ...)\<close>: the four bytes in memory order.\<close>

definition inet_ntop :: "u32 \<Rightarrow> string" where
  "inet_ntop a = fmt_u (unat (byte_of 0 a)) @ ''.'' @ fmt_u (unat (byte_of 1 a)) @ ''.'' @
     fmt_u (unat (byte_of 2 a)) @ ''.'' @ fmt_u (unat (byte_of 3 a))"

section \<open>Printers of the connection list\<close>

primrec TCP_State_to_string :: "TCP_State \<Rightarrow> string" where
  "TCP_State_to_string TCP_SYN_RECEIVED = ''SYN_RECEIVED''"
| "TCP_State_to_string TCP_ESTABLISHED = ''ESTABLISHED''"
| "TCP_State_to_string TCP_CLOSE_WAIT = ''CLOSE_WAIT''"
| "TCP_State_to_string TCP_CLOSING = ''UNKNOWN_STATE''"
| "TCP_State_to_string TCP_LAST_ACK = ''UNKNOWN_STATE''"
| "TCP_State_to_string TCP_TIME_WAIT = ''UNKNOWN_STATE''"

definition print_TCP_Connection_ID :: "TCP_Connection_ID \<Rightarrow> string" where
  "print_TCP_Connection_ID i = ''Connection: '' @ fmt_d (sint (c_src_ip i)) @ '':'' @ fmt_d (sint (c_src_port i)) @
     '' -> '' @ fmt_d (sint (c_dst_ip i)) @ '':'' @ fmt_d (sint (c_dst_port i)) @ NL"

definition print_TCP_Send_State :: "TCP_Send_State \<Rightarrow> string" where
  "print_TCP_Send_State s = ''Send State:'' @ NL @ ''  unac: '' @ fmt_d (sint (s_unac s)) @ NL @
     ''  next: '' @ fmt_d (sint (s_next s)) @ NL @ ''  window: '' @ fmt_d (sint (s_window s)) @ NL @
     ''  iss: '' @ fmt_d (sint (s_iss s)) @ NL"

definition print_TCP_Recieve_State :: "TCP_Recieve_State \<Rightarrow> string" where
  "print_TCP_Recieve_State r = ''Receive State:'' @ NL @ ''  next: '' @ fmt_d (sint (r_next r)) @ NL @
     ''  window: '' @ fmt_d (sint (r_window r)) @ NL @ ''  irs: '' @ fmt_d (sint (r_irs r)) @ NL"

text \<open>
  \<open>tcp_print_buf\<close>. The elements are \<open>char\<close>s, signed on the host, and are promoted to \<open>int\<close> for
  \<open>%02x\<close>: a byte from 128 on is printed with its sign extended to 32 bits.
\<close>

fun print_chars :: "buffer \<Rightarrow> nat \<Rightarrow> nat \<Rightarrow> string option" where
  "print_chars buf i 0 = Some []"
| "print_chars buf i (Suc k) = do {
     v \<leftarrow> load8 buf (int i);
     r \<leftarrow> print_chars buf (i + 1) k;
     Some ((if 32 \<le> sint v \<and> sint v \<le> 126 then [char_of (unat v)] @ '' ''
            else ''['' @ fmt_x 2 (unat (scast v :: u32)) @ ''] '') @ r)
   }"

definition tcp_print_buf :: "buffer \<Rightarrow> int \<Rightarrow> string option" where
  "tcp_print_buf buf buf_len = do {
     r \<leftarrow> print_chars buf 0 (nat buf_len);
     Some (''RECIEVED BYTES FROM CLIENT'' @ NL @ r)
   }"

text \<open>The loop over at most 32 bytes of \<open>recv_buffer\<close>.\<close>

fun print_recv :: "buffer \<Rightarrow> int \<Rightarrow> nat \<Rightarrow> nat \<Rightarrow> string option" where
  "print_recv buf n i 0 = Some []"
| "print_recv buf n i (Suc k) = (if int i < n
     then do { v \<leftarrow> load8 buf (int i); r \<leftarrow> print_recv buf n (i + 1) k; Some (fmt_x 2 (unat v) @ '' '' @ r) }
     else Some [])"

definition print_TCB :: "TCB_v1 \<Rightarrow> string option" where
  "print_TCB t = do {
     bytes \<leftarrow> print_recv (v1_buffer t) (sint (v1_recv_size t)) 0 32;
     Some (''=== TCB ==='' @ NL @ print_TCP_Connection_ID (v1_id t) @
       ''State: '' @ TCP_State_to_string (v1_state t) @ NL @
       print_TCP_Send_State (v1_send t) @ print_TCP_Recieve_State (v1_recv t) @
       ''recv_size: '' @ fmt_d (sint (v1_recv_size t)) @ NL @ ''recv_buffer (first 32 bytes): '' @ bytes @
       (if sint (v1_recv_size t) > 32 then ''...'' else []) @ NL)
   }"

partial_function (option) print_list :: "(nat \<rightharpoonup> TCB_v1) \<Rightarrow> nat \<Rightarrow> nat \<Rightarrow> string option" where
  "print_list h current idx =
     (if current = 0 then Some []
      else do {
        t \<leftarrow> block_at h current;
        x \<leftarrow> print_TCB t;
        r \<leftarrow> print_list h (v1_next t) (idx + 1);
        Some (NL @ ''[TCB '' @ fmt_u idx @ '']'' @ NL @ x @ r)
      })"

definition print_TCP_Server_Instance :: "server_v1 \<Rightarrow> string option" where
  "print_TCP_Server_Instance s = do {
     l \<leftarrow> print_list (blocks s) (si_head s) 0;
     Some (''=== TCP Server Instance ==='' @ NL @ ''Number of TCBs: '' @ fmt_d (sint (si_size s)) @ NL @ l)
   }"

section \<open>Printers of a packet\<close>

text \<open>
  The hex dump: per line the offset, sixteen cells in two groups, the printable characters. A
  cell or character is one read of the buffer.
\<close>

definition hex_cell :: "buffer \<Rightarrow> int \<Rightarrow> int \<Rightarrow> int \<Rightarrow> string option" where
  "hex_cell b packet n k =
     (if k < n then do { v \<leftarrow> load8 b (packet + k); Some (fmt_x 2 (unat v) @ '' '') } else Some ''   '')"

fun hex_cells :: "buffer \<Rightarrow> int \<Rightarrow> int \<Rightarrow> int \<Rightarrow> nat list \<Rightarrow> string option" where
  "hex_cells b packet n i [] = Some []"
| "hex_cells b packet n i (j # js) = do {
     c \<leftarrow> hex_cell b packet n (i + int j);
     r \<leftarrow> hex_cells b packet n i js;
     Some (c @ (if j = 7 then '' '' else []) @ r)
   }"

definition printable :: "byte \<Rightarrow> char" where
  "printable c = (if 32 \<le> unat c \<and> unat c \<le> 126 then char_of (unat c) else CHR ''.'')"

fun ascii_cells :: "buffer \<Rightarrow> int \<Rightarrow> int \<Rightarrow> int \<Rightarrow> nat list \<Rightarrow> string option" where
  "ascii_cells b packet n i [] = Some []"
| "ascii_cells b packet n i (j # js) = (if i + int j < n
     then do { v \<leftarrow> load8 b (packet + i + int j); r \<leftarrow> ascii_cells b packet n i js; Some (printable v # r) }
     else Some [])"

function dump_lines :: "buffer \<Rightarrow> int \<Rightarrow> int \<Rightarrow> int \<Rightarrow> string option" where
  "dump_lines b packet n i =
     (if i < n
      then do {
        h \<leftarrow> hex_cells b packet n i [0..<16];
        a \<leftarrow> ascii_cells b packet n i [0..<16];
        r \<leftarrow> dump_lines b packet n (i + 16);
        Some (fmt_x 4 (nat i) @ '': '' @ h @ '' |'' @ a @ ''|'' @ NL @ r)
      }
      else Some [])"
  by pat_completeness auto
termination
  by (relation "measure (\<lambda>(b, packet, n, i). nat (n - i))") auto

declare dump_lines.simps [simp del]

definition raw_packet_print :: "buffer \<Rightarrow> int \<Rightarrow> int \<Rightarrow> string option" where
  "raw_packet_print b packet pack_len = do {
     l \<leftarrow> dump_lines b packet pack_len 0;
     Some (NL @ ''=== Packet ('' @ fmt_d pack_len @ '' bytes) ==='' @ NL @ l @ NL)
   }"

definition ip_proto_string :: "byte \<Rightarrow> string" where
  "ip_proto_string proto = (if proto = 6 then ''TCP'' else if proto = 1 then ''ICMP'' else ''Not implemented'' @ NL)"

definition tcp_print :: "buffer \<Rightarrow> int \<Rightarrow> string option" where
  "tcp_print b tcp = do {
     src \<leftarrow> load16 b (tcp + TCP_src_port);
     dst \<leftarrow> load16 b (tcp + TCP_dst_port);
     sq \<leftarrow> load32 b (tcp + TCP_seq_num);
     ak \<leftarrow> load32 b (tcp + TCP_ack_num);
     d \<leftarrow> load8 b (tcp + TCP_data_offset);
     fl \<leftarrow> load8 b (tcp + TCP_flags);
     win \<leftarrow> load16 b (tcp + TCP_window);
     ck \<leftarrow> load16 b (tcp + TCP_checksum);
     urg \<leftarrow> load16 b (tcp + TCP_urgent_ptr);
     Some (''--- TCP Header ---'' @ NL @
       ''Source Port:      '' @ fmt_u (unat (ntohs src)) @ NL @ ''Dest Port:        '' @ fmt_u (unat (ntohs dst)) @ NL @
       ''Seq Number:       '' @ fmt_u (unat (ntohl sq)) @ NL @ ''Ack Number:       '' @ fmt_u (unat (ntohl ak)) @ NL @
       ''Header Length:    '' @ fmt_d (hlen_high d) @ '' bytes'' @ NL @
       ''Flags:            0x'' @ fmt_x 2 (unat fl) @ '' ( '' @
       (if fl AND 0x20 \<noteq> 0 then ''URG '' else []) @ (if fl AND 0x10 \<noteq> 0 then ''ACK '' else []) @
       (if fl AND 0x08 \<noteq> 0 then ''PSH '' else []) @ (if fl AND 0x04 \<noteq> 0 then ''RST '' else []) @
       (if fl AND 0x02 \<noteq> 0 then ''SYN '' else []) @ (if fl AND 0x01 \<noteq> 0 then ''FIN '' else []) @ '')'' @ NL @
       ''Window Size:      '' @ fmt_u (unat (ntohs win)) @ NL @ ''Checksum:         0x'' @ fmt_x 4 (unat (ntohs ck)) @ NL @
       ''Urgent Pointer:   '' @ fmt_u (unat (ntohs urg)) @ NL @ ''------------------'' @ NL)
   }"

definition ip_print :: "buffer \<Rightarrow> string option" where
  "ip_print b = do {
     vi \<leftarrow> load8 b IP_version_ihl;
     tos \<leftarrow> load8 b 1;
     len \<leftarrow> load16 b IP_len;
     ident \<leftarrow> load16 b 4;
     frag \<leftarrow> load16 b 6;
     ttl \<leftarrow> load8 b 8;
     proto \<leftarrow> load8 b IP_proto;
     ck \<leftarrow> load16 b IP_checksum;
     src \<leftarrow> load32 b IP_src;
     dst \<leftarrow> load32 b IP_dst;
     let version = drop_bit 4 vi;
     let ihl = vi AND 0x0f;
     let ff = ntohs frag;
     let flags = unat (drop_bit 13 ff);
     let offset = unat (ff AND 0x1fff);
     Some (''================ IPv4 Header ================'' @ NL @
       '' Version: '' @ fmt_u (unat version) @ '' | IHL: '' @ fmt_u (unat ihl) @ '' ('' @ fmt_u (unat (ihl * 4)) @ '' bytes)'' @ NL @
       '' ToS    : 0x'' @ fmt_X 2 (unat tos) @ NL @ '' Length : '' @ fmt_u (unat (ntohs len)) @ '' bytes'' @ NL @
       '' ID     : 0x'' @ fmt_X 4 (unat (ntohs ident)) @ '' ('' @ fmt_u (unat (ntohs ident)) @ '')'' @ NL @
       '' Flags  : 0x'' @ fmt_X 0 flags @ '' (Res:'' @ fmt_u (flags div 4 mod 2) @ '' DF:'' @ fmt_u (flags div 2 mod 2) @
       '' MF:'' @ fmt_u (flags mod 2) @ '')'' @ NL @ '' Offset : '' @ fmt_u offset @ NL @
       '' TTL    : '' @ fmt_u (unat ttl) @ NL @
       '' Proto  : '' @ fmt_u (unat proto) @ '' (0x'' @ fmt_X 2 (unat proto) @ '') - '' @ ip_proto_string proto @ NL @
       '' Check  : 0x'' @ fmt_X 4 (unat (ntohs ck)) @ NL @
       '' Source : '' @ inet_ntop src @ NL @ '' Dest   : '' @ inet_ntop dst @ NL @
       ''============================================='' @ NL)
   }"

definition icmp_print :: "buffer \<Rightarrow> int \<Rightarrow> string option" where
  "icmp_print b icmp = do {
     t \<leftarrow> load8 b icmp;
     c \<leftarrow> load8 b (icmp + 1);
     ck \<leftarrow> load16 b (icmp + 2);
     ident \<leftarrow> load16 b (icmp + 4);
     sn \<leftarrow> load16 b (icmp + 6);
     Some (''---------------- ICMP Header ----------------'' @ NL @ '' Type     : '' @ fmt_u (unat t) @ '' '' @
       (if t = 0 then ''(Echo Reply)'' else if t = 3 then ''(Destination Unreachable)'' else if t = 8 then ''(Echo Request)''
        else if t = 11 then ''(Time Exceeded)'' else ''(Other)'') @ NL @
       '' Code     : '' @ fmt_u (unat c) @ NL @ '' Checksum : 0x'' @ fmt_X 4 (unat (ntohs ck)) @ NL @
       '' ID       : '' @ fmt_u (unat (ntohs ident)) @ '' (0x'' @ fmt_X 4 (unat (ntohs ident)) @ '')'' @ NL @
       '' Sequence : '' @ fmt_u (unat (ntohs sn)) @ '' (0x'' @ fmt_X 4 (unat (ntohs sn)) @ '')'' @ NL @
       ''---------------------------------------------'' @ NL)
   }"

definition packet_debug :: "buffer \<Rightarrow> int \<Rightarrow> bool \<Rightarrow> string option" where
  "packet_debug b tcp inbound = do {
     ip \<leftarrow> ip_print b;
     tc \<leftarrow> tcp_print b tcp;
     v \<leftarrow> load8 b IP_version_ihl;
     let ip_hl = hlen_low v;
     d \<leftarrow> load8 b (tcp + TCP_data_offset);
     let d_data = hlen_high d;
     l \<leftarrow> load16 b IP_len;
     let total_len = uint (ntohs l);
     body \<leftarrow> raw_packet_print b (tcp + d_data) (total_len - ip_hl - d_data);
     Some ((if inbound then ''--- INBOUND PACKET ---'' else ''--- OUTBOUND PACKET --- '') @ NL @ ip @ tc @
       '' ~ Segment body ~'' @ NL @ body)
   }"

section \<open>Which reads the printers make\<close>

lemma hex_cells_defined:
  assumes "\<forall>j \<in> set js. i + int j < n \<longrightarrow> in_range b (p + (i + int j)) 1"
  shows "hex_cells b p n i js \<noteq> None" "ascii_cells b p n i js \<noteq> None"
  using assms by (induction js) (auto simp: hex_cell_def mem_simps add.assoc)

lemma hex_cells_fault:
  assumes "j \<in> set js" "i + int j < n" "\<not> in_range b (p + (i + int j)) 1"
  shows "hex_cells b p n i js = None"
  using assms by (induction js) (auto simp: hex_cell_def load8_def bind_eq_None_conv)

lemma dump_lines_defined:
  "0 \<le> p \<Longrightarrow> 0 \<le> i \<Longrightarrow> p + n \<le> int (length b) \<Longrightarrow> dump_lines b p n i \<noteq> None"
proof (induction b p n i rule: dump_lines.induct)
  case (1 b p n i)
  have "\<forall>j \<in> set [0..<16]. i + int j < n \<longrightarrow> in_range b (p + (i + int j)) 1"
    using 1 by (auto simp: in_range_def)
  from hex_cells_defined [OF this] obtain h a where
    ha: "hex_cells b p n i [0..<16] = Some h" "ascii_cells b p n i [0..<16] = Some a" by blast
  show ?case
  proof (cases "i < n")
    case True
    with 1 ha obtain r where "dump_lines b p n (i + 16) = Some r" by fastforce
    with True ha show ?thesis by (subst dump_lines.simps) simp
  qed (subst dump_lines.simps, simp)
qed

lemma dump_lines_fault:
  "i < n \<Longrightarrow> int (length b) < p + n \<Longrightarrow> dump_lines b p n i = None"
proof (induction b p n i rule: dump_lines.induct)
  case (1 b p n i)
  show ?case
  proof (cases "n \<le> i + 16")
    case True
    have "hex_cells b p n i [0..<16] = None"
      using 1(2,3) True by (intro hex_cells_fault [of "nat (n - 1 - i)"]) (auto simp: in_range_def)
    with 1(2) show ?thesis by (subst dump_lines.simps) simp
  next
    case False
    show ?thesis
    proof (cases "hex_cells b p n i [0..<16] = None \<or> ascii_cells b p n i [0..<16] = None")
      case True
      then show ?thesis using 1(2) by (subst dump_lines.simps) (auto simp: bind_eq_None_conv)
    next
      case ok: False
      then have "dump_lines b p n (i + 16) = None" using 1 False by auto
      then show ?thesis using 1(2) by (subst dump_lines.simps) (auto simp: bind_eq_None_conv)
    qed
  qed
qed

lemma packet_debug_None:
  assumes "at_v1 b off"
  shows "packet_debug b off inbound = None \<longleftrightarrow> uint (ntohs (peek16 b IP_len)) > 1501"
proof -
  note at = at_v1D [OF assms]
  let ?h = "hlen_high (peek8 b (off + 12))" and ?n = "uint (ntohs (peek16 b 2))"
  have h: "0 \<le> ?h" "?h \<le> 60" by (rule hlen_high_bounds)+
  have "ip_print b \<noteq> None" using at by (simp add: ip_print_def in_range_def mem_simps Let_def)
  then obtain x where x: "ip_print b = Some x" by blast
  have "tcp_print b off \<noteq> None" using at by (simp add: tcp_print_def in_range_def mem_simps)
  then obtain y where y: "tcp_print b off = Some y" by blast
  have "packet_debug b off inbound = None \<longleftrightarrow> dump_lines b (off + ?h) (?n - off - ?h) 0 = None"
    using at x y by (auto simp: packet_debug_def raw_packet_print_def in_range_def mem_simps Let_def bind_eq_None_conv)
  also have "\<dots> \<longleftrightarrow> ?n > 1501"
    using dump_lines_defined [of "off + ?h" 0 "?n - off - ?h" b] dump_lines_fault [of 0 "?n - off - ?h" b "off + ?h"] at h
    by (cases "?n > 1501") auto
  finally show ?thesis .
qed

text \<open>On a well-formed list whose blocks claim no more than their buffer holds, the list printer returns.\<close>

lemma print_recv_defined:
  "n \<le> int (length buf) \<Longrightarrow> print_recv buf n i k \<noteq> None"
proof (induction k arbitrary: i)
  case (Suc k)
  then obtain y where "print_recv buf n (Suc i) k = Some y" by blast
  with Suc.prems show ?case by (simp add: in_range_def mem_simps)
qed simp

lemma print_list_defined:
  assumes "chain h p ps" "\<And>q t. h q = Some t \<Longrightarrow> sint (v1_recv_size t) \<le> int (length (v1_buffer t))"
  shows "print_list h p idx \<noteq> None"
  using assms(1)
proof (induction ps arbitrary: p idx)
  case Nil
  then show ?case by (subst print_list.simps) simp
next
  case (Cons q qs)
  then obtain t where t: "h q = Some t" "p = q" "q \<noteq> 0" "chain h (v1_next t) qs" by (auto split: option.splits)
  from print_recv_defined [OF assms(2) [OF t(1)]] obtain y where
    "print_recv (v1_buffer t) (sint (v1_recv_size t)) 0 32 = Some y" by blast
  then obtain x where "print_TCB t = Some x" by (simp add: print_TCB_def)
  with t Cons.IH [OF t(4), of "idx + 1"] show ?case by (subst print_list.simps) (auto simp: block_at_def)
qed

section \<open>Reading the dump back\<close>

definition hex_value :: "char \<Rightarrow> nat" where
  "hex_value c = length (takeWhile (\<lambda>d. d \<noteq> c) ''0123456789abcdef'')"

definition read_cell :: "string \<Rightarrow> byte" where
  "read_cell t = of_nat (16 * hex_value (t ! 0) + hex_value (t ! 1))"

text \<open>Cell \<open>j\<close> of a line, after the offset: three characters each, one more after the eighth.\<close>

definition cell_at :: "nat \<Rightarrow> nat" where
  "cell_at j = 3 * j + (if j \<ge> 8 then 1 else 0)"

fun undump :: "nat \<Rightarrow> string \<Rightarrow> byte list" where
  "undump n t = (if n = 0 then []
     else map (\<lambda>j. read_cell (drop (6 + cell_at j) t)) [0..<min n 16] @ undump (n - 16) (drop (59 + min n 16) t))"

declare undump.simps [simp del]

lemma digit_value: "d < 16 \<Longrightarrow> hex_value (digit False d) = d"
proof -
  assume "d < 16"
  then have "d \<in> set [0..<16]" by simp
  moreover have "list_all (\<lambda>d. hex_value (digit False d) = d) [0..<16]" by code_simp
  ultimately show ?thesis by (simp only: list_all_iff)
qed

lemma fmt_x_2: "n < 256 \<Longrightarrow> fmt_x 2 n = [digit False (n div 16), digit False (n mod 16)]"
  by (cases "n < 16") (simp_all add: pad_def based.simps [of 16 False] digit_def div_less)

lemma length_fmt_x_2 [simp]: "length (fmt_x 2 (unat (v :: byte))) = 2"
  by (subst fmt_x_2) simp_all

lemma read_cell_fmt: "read_cell (fmt_x 2 (unat v) @ t) = v"
proof -
  have "fmt_x 2 (unat v) = [digit False (unat v div 16), digit False (unat v mod 16)]"
    by (rule fmt_x_2) simp
  moreover have "hex_value (digit False (unat v div 16)) = unat v div 16" "hex_value (digit False (unat v mod 16)) = unat v mod 16"
    using unat_byte_less [of v] by (intro digit_value; simp del: unat_byte_less)+
  ultimately show ?thesis by (simp add: read_cell_def del: of_nat_add of_nat_mult)
qed

lemma length_based: "n < 16 ^ k \<Longrightarrow> 0 < k \<Longrightarrow> length (based 16 u n) \<le> k"
proof (induction k arbitrary: n)
  case (Suc k)
  show ?case
  proof (cases "n < 16")
    case False
    with Suc.prems have "n div 16 < 16 ^ k" "0 < k" by (auto intro: gr0I)
    with Suc.IH [of "n div 16"] False show ?thesis by (subst based.simps) simp
  qed (subst based.simps, simp)
qed simp

lemma length_fmt_x_4: "n < 65536 \<Longrightarrow> length (fmt_x 4 n) = 4"
  using length_based [of n 4 False] by (simp add: pad_def)

lemma drop_exact: "k = length xs \<Longrightarrow> drop k (xs @ ys) = ys"
  by simp

text \<open>A line of cells, as the concatenation of its blocks.\<close>

definition block :: "buffer \<Rightarrow> int \<Rightarrow> int \<Rightarrow> int \<Rightarrow> nat \<Rightarrow> string" where
  "block b p n i j = (if i + int j < n then fmt_x 2 (unat (peek8 b (p + (i + int j)))) @ '' '' else ''   '') @ (if j = 7 then '' '' else [])"

lemma hex_cells_blocks:
  assumes "\<forall>j \<in> set js. i + int j < n \<longrightarrow> in_range b (p + (i + int j)) 1"
  shows "hex_cells b p n i js = Some (concat (map (block b p n i) js))"
  using assms by (induction js) (auto simp: hex_cell_def block_def mem_simps)

lemma length_block: "length (block b p n i j) = 3 + (if j = 7 then 1 else 0)"
  by (simp add: block_def)

lemma length_blocks: "length (concat (map (block b p n i) [0..<k])) = cell_at k"
  by (induction k) (auto simp: length_block cell_at_def)

lemma cell_of_blocks:
  assumes "j < 16" "i + int j < n"
  shows "read_cell (drop (cell_at j) (concat (map (block b p n i) [0..<16]) @ r)) = peek8 b (p + (i + int j))"
proof -
  have "[0..<16] = [0..<j] @ j # [Suc j..<16]"
    using assms(1) upt_add_eq_append [of 0 j "16 - j"] by (simp add: upt_conv_Cons)
  then have "drop (cell_at j) (concat (map (block b p n i) [0..<16]) @ r) =
      block b p n i j @ concat (map (block b p n i) [Suc j..<16]) @ r"
    using length_blocks [of b p n i j] by simp
  with assms(2) read_cell_fmt show ?thesis by (simp add: block_def)
qed

lemma length_ascii_cells:
  "ascii_cells b p n i js = Some a \<Longrightarrow> sorted js \<Longrightarrow> length a = length (filter (\<lambda>j. i + int j < n) js)"
proof (induction js arbitrary: a)
  case (Cons j js)
  show ?case
  proof (cases "i + int j < n")
    case False
    then have "\<forall>k \<in> set js. \<not> i + int k < n" using Cons.prems(2) by force
    with False Cons.prems show ?thesis by simp
  qed (use Cons in \<open>auto simp: bind_eq_Some_conv\<close>)
qed simp

lemma ascii_count: "length (filter (\<lambda>j. i + int j < n) [0..<16]) = (if i < n then min (nat (n - i)) 16 else 0)"
proof -
  have "filter (\<lambda>j. i + int j < n) [0..<k] = [0..<min (nat (n - i)) k]" for k
    by (induction k) auto
  then show ?thesis by (simp add: min_def)
qed

text \<open>One line of the dump: its sixteen cells are the bytes, and the rest of the text follows after it.\<close>

lemma dump_line_read:
  assumes "0 \<le> i" "i < n" "n \<le> 65536" "ascii_cells b p n i [0..<16] = Some a" "m = nat (n - i)"
    and "l = fmt_x 4 (nat i) @ '': '' @ concat (map (block b p n i) [0..<16]) @ '' |'' @ a @ ''|'' @ NL @ x"
  shows "map (\<lambda>j. read_cell (drop (6 + cell_at j) l)) [0..<min m 16] = map (\<lambda>j. peek8 b (p + (i + int j))) [0..<min m 16]"
    and "drop (59 + min m 16) l = x"
proof -
  let ?h = "concat (map (block b p n i) [0..<16])"
  have la: "length a = min m 16" using length_ascii_cells [OF assms(4)] ascii_count [of i n] assms(2,5) by simp
  have l4: "length (fmt_x 4 (nat i)) = 4" using assms by (intro length_fmt_x_4) simp
  have lh: "length ?h = 49" using length_blocks [of b p n i 16] by (simp add: cell_at_def)
  have d6: "drop (6 + k) l = drop k (?h @ '' |'' @ a @ ''|'' @ NL @ x)" for k
    using l4 by (simp add: assms(6))
  show "map (\<lambda>j. read_cell (drop (6 + cell_at j) l)) [0..<min m 16] = map (\<lambda>j. peek8 b (p + (i + int j))) [0..<min m 16]"
    unfolding d6 using cell_of_blocks assms(5) by (intro map_cong) auto
  have "53 + min m 16 = length (?h @ '' |'' @ a @ ''|'' @ NL)" using la lh by simp
  from drop_exact [OF this, of x] d6 [of "53 + min m 16"] show "drop (59 + min m 16) l = x" by simp
qed

lemma bytes_at_line:
  assumes "0 \<le> p" "0 \<le> i" "i < n" "p + n \<le> int (length b)"
  shows "map (\<lambda>j. peek8 b (p + (i + int j))) [0..<min (nat (n - i)) 16] @ bytes_at b (p + i + 16) (n - i - 16) =
    bytes_at b (p + i) (n - i)"
proof -
  have m: "bytes_at b (p + i) k = map (\<lambda>j. peek8 b (p + (i + int j))) [0..<nat k]" if "k \<le> n - i" for k
    using that assms by (intro nth_equalityI) (auto simp: bytes_at_def peek8_def nat_add_distrib add.assoc)
  show ?thesis
  proof (cases "n - i \<le> 16")
    case True
    then show ?thesis using m [of "n - i"] by (simp add: min_def bytes_at_def)
  next
    case False
    then show ?thesis
      using m [of 16] bytes_at_append [of b "p + i" "n - i" 16] assms by (simp add: in_range_def min_def)
  qed
qed

lemma dump_lines_undump:
  assumes "0 \<le> p" "0 \<le> i" "p + n \<le> int (length b)" "n \<le> 65536" "dump_lines b p n i = Some l"
  shows "undump (nat (n - i)) (l @ r) = bytes_at b (p + i) (n - i)"
  using assms
proof (induction b p n i arbitrary: l rule: dump_lines.induct)
  case (1 b p n i)
  show ?case
  proof (cases "i < n")
    case False
    then show ?thesis by (simp add: undump.simps bytes_at_def)
  next
    case True
    have rd: "\<forall>j \<in> set [0..<16]. i + int j < n \<longrightarrow> in_range b (p + (i + int j)) 1"
      using 1 by (auto simp: in_range_def)
    from True "1.prems"(5) obtain a l' where a: "ascii_cells b p n i [0..<16] = Some a"
      and l': "dump_lines b p n (i + 16) = Some l'"
      and l: "l = fmt_x 4 (nat i) @ '': '' @ concat (map (block b p n i) [0..<16]) @ '' |'' @ a @ ''|'' @ NL @ l'"
      by (subst (asm) dump_lines.simps) (auto simp: bind_eq_Some_conv hex_cells_blocks [OF rd])
    have "undump (nat (n - (i + 16))) (l' @ r) = bytes_at b (p + (i + 16)) (n - (i + 16))"
      using 1 True a l' hex_cells_blocks [OF rd] by (simp add: add.assoc)
    moreover have "nat (n - (i + 16)) = nat (n - i) - 16" by simp
    ultimately have tail: "undump (nat (n - i) - 16) (l' @ r) = bytes_at b (p + i + 16) (n - i - 16)"
      by (simp add: algebra_simps)
    from l have "l @ r = fmt_x 4 (nat i) @ '': '' @ concat (map (block b p n i) [0..<16]) @ '' |'' @ a @ ''|'' @ NL @ l' @ r"
      by simp
    note line = dump_line_read [OF "1.prems"(2) True "1.prems"(4) a refl this]
    show ?thesis
      unfolding undump.simps [of "nat (n - i)" "l @ r"] line tail
      using True bytes_at_line [OF "1.prems"(1,2) True "1.prems"(3)] by simp
  qed
qed

section \<open>Properties\<close>

text \<open>
  C39: the verbose mode of the original program. Printing a TCP packet, before it is handled and
  after, stays inside the receive buffer if and only if the length field of the IP header does
  not exceed the buffer; the received length plays no role.
\<close>

theorem packet_debug_overread:
  assumes "at_v1 b off"
  shows "(packet_debug b off inbound = None) = (uint (ntohs (ipv4_len (ip_header b))) > 1501)"
  using packet_debug_None [OF assms] by (simp add: ip_header_def)

lemma at_v1_syn: "at_v1 (syn_packet @ [0]) 20"
  by (simp add: at_v1_def syn_packet_def peek8_def hlen_low_def)

theorem packet_debug_overread_witness:
  "packet_debug (syn_packet @ [0]) 20 True \<noteq> None"
proof -
  have "uint (ntohs (ipv4_len (ip_header (syn_packet @ [0])))) = 40" by code_simp
  with packet_debug_overread [OF at_v1_syn, of True] show ?thesis by simp
qed

text \<open>
  C40: the hex dump loses nothing. Dumping \<open>n\<close> bytes inside the buffer returns, and a reader that
  skips the offset column and decodes the cells of each line gets back exactly these bytes.
\<close>

theorem dump_roundtrip:
  assumes "0 \<le> packet" "0 \<le> n" "packet + n \<le> int (length b)" "n \<le> 65536"
  shows "\<exists>l. raw_packet_print b packet n = Some (NL @ ''=== Packet ('' @ fmt_d n @ '' bytes) ==='' @ NL @ l @ NL) \<and>
    undump (nat n) l = bytes_at b packet n"
proof -
  from dump_lines_defined [of packet 0 n b] assms obtain l where l: "dump_lines b packet n 0 = Some l" by auto
  with dump_lines_undump [of packet 0 n b l "[]"] assms show ?thesis by (simp add: raw_packet_print_def)
qed

theorem dump_roundtrip_witness:
  "\<exists>l. raw_packet_print [0x47, 0x45, 0x54, 0xff] 1 3 = Some (NL @ ''=== Packet ('' @ fmt_d 3 @ '' bytes) ==='' @ NL @ l @ NL) \<and>
     undump 3 l = [0x45, 0x54, 0xff]"
proof -
  have "bytes_at [0x47, 0x45, 0x54, 0xff] 1 3 = [0x45, 0x54, 0xff]" by (simp add: bytes_at_def)
  with dump_roundtrip [of 1 3 "[0x47, 0x45, 0x54, 0xff]"] show ?thesis by simp
qed

end
