(* ===== verification/V1_Spec.thy ===== *)
theory V1_Spec
  imports V1_Debug
begin

text \<open>
  What the original dispatcher does, as a function of one connection: \<open>listen_v1\<close> takes the
  received segment and the connection it belongs to, if there is one, and gives the reply and the
  connection afterwards, or \<open>None\<close> where the C code has no defined behaviour: a signed overflow, a
  failed allocation that is used, an answer that does not fit the buffer. The dispatcher on
  linked list and buffer is shown to do exactly this, and the segments it builds to be correct.
\<close>

section \<open>The specification\<close>

definition id_v1 :: "buffer \<Rightarrow> int \<Rightarrow> TCP_Connection_ID" where
  "id_v1 b off = \<lparr>c_src_ip = peek32 b IP_src, c_src_port = ucast (peek16 b (off + TCP_src_port)),
     c_dst_ip = peek32 b IP_dst, c_dst_port = ucast (peek16 b (off + TCP_dst_port))\<rparr>"

abbreviation (input) flags_v1 :: "buffer \<Rightarrow> int \<Rightarrow> Flags" where
  "flags_v1 b off \<equiv> flags_of (peek8 b (off + TCP_flags))"

definition data_len_v1 :: "buffer \<Rightarrow> int \<Rightarrow> int" where
  "data_len_v1 b off = uint (htons (peek16 b IP_len)) - off - hlen_high (peek8 b (off + TCP_data_offset))"

definition refusal :: "buffer \<Rightarrow> int \<Rightarrow> v1_reply" where
  "refusal b off = (let fl = flags_v1 b off in
     if f_ack fl then \<lparr>rp_seq = htonl (peek32 b (off + TCP_ack_num)), rp_ack = 0, rp_flags = RST, rp_window = 0, rp_body = []\<rparr>
     else \<lparr>rp_seq = 0,
           rp_ack = htonl (peek32 b (off + TCP_seq_num)) + word_of_int (data_len_v1 b off + (of_bool (f_fin fl) + of_bool (f_syn fl))),
           rp_flags = RST OR ACK, rp_window = 0, rp_body = []\<rparr>)"

definition unknown_v1 :: "v1_env \<Rightarrow> bool \<Rightarrow> buffer \<Rightarrow> int \<Rightarrow> (v1_reply option \<times> TCB_v1 option) option" where
  "unknown_v1 e memory b off = (let fl = flags_v1 b off in
     if f_rst fl then Some (None, None)
     else if f_syn fl \<and> \<not> f_ack fl
     then if memory \<and> syn_defined e b off
          then let t = syn_block e b off (new_block (id_v1 b off)) in Some (Some (syn_reply t), Some t)
          else None
     else Some (Some (refusal b off), None))"

text \<open>The window test of a reset; the sequence number is not converted from network order.\<close>

definition reset_v1 :: "buffer \<Rightarrow> int \<Rightarrow> TCB_v1 \<Rightarrow> (v1_reply option \<times> TCB_v1 option) option" where
  "reset_v1 b off t = (let q = peek32 b (off + TCP_seq_num); n = r_next (v1_recv t) in
     if SEQ_GEQ q n then map_option (\<lambda>m. (None, if SEQ_LT q m then None else Some t)) (int_add n (r_window (v1_recv t)))
     else Some (None, Some t))"

definition data_v1 :: "v1_env \<Rightarrow> buffer \<Rightarrow> int \<Rightarrow> TCB_v1 \<Rightarrow> (v1_reply option \<times> TCB_v1 option) option" where
  "data_v1 e b off t = (let h = hlen_high (peek8 b (off + TCP_data_offset)); n = data_len_v1 b off in
     if n \<le> 0 then Some (None, Some t)
     else do {
       (m, k) \<leftarrow> http_handle_request (http e) b (off + h) n;
       x \<leftarrow> int_add (r_next (v1_recv t)) (word_of_int n);
       let t = t\<lparr>v1_recv := (v1_recv t)\<lparr>r_next := x\<rparr>\<rparr>;
       t' \<leftarrow> sent_block t m;
       if off + h + int (length m) \<le> 1501 then Some (Some (ack_reply t m), Some t') else None
     })"

definition known_v1 :: "v1_env \<Rightarrow> buffer \<Rightarrow> int \<Rightarrow> TCB_v1 \<Rightarrow> (v1_reply option \<times> TCB_v1 option) option" where
  "known_v1 e b off t = (let fl = flags_v1 b off in case v1_state t of
     TCP_SYN_RECEIVED \<Rightarrow>
       if f_syn fl \<and> \<not> f_ack fl then (if syn_defined e b off then Some (None, Some (syn_block e b off t)) else None)
       else if f_ack fl \<and> \<not> f_syn fl \<and> htonl (peek32 b (off + TCP_ack_num)) = s_next (v1_send t)
       then Some (None, Some (t\<lparr>v1_state := TCP_ESTABLISHED, v1_send := (v1_send t)\<lparr>s_unac := s_next (v1_send t)\<rparr>\<rparr>))
       else Some (None, Some t)
   | TCP_ESTABLISHED \<Rightarrow>
       if f_fin fl
       then let t = t\<lparr>v1_recv := (v1_recv t)\<lparr>r_next := htonl (peek32 b (off + TCP_seq_num)) + 1\<rparr>\<rparr>
            in Some (Some (ack_reply t []), Some (t\<lparr>v1_state := TCP_CLOSE_WAIT\<rparr>))
       else data_v1 e b off t
   | _ \<Rightarrow> Some (None, Some t))"

definition listen_v1 ::
  "v1_env \<Rightarrow> bool \<Rightarrow> buffer \<Rightarrow> int \<Rightarrow> TCB_v1 option \<Rightarrow> (v1_reply option \<times> TCB_v1 option) option" where
  "listen_v1 e memory b off c = (case c of
     None \<Rightarrow> unknown_v1 e memory b off
   | Some t \<Rightarrow> if f_rst (flags_v1 b off) then reset_v1 b off t else known_v1 e b off t)"

section \<open>The dispatcher implements it\<close>

text \<open>What the dispatcher did, compared with what it should do.\<close>

definition matches_v1 ::
  "server_v1 \<Rightarrow> buffer \<Rightarrow> int \<Rightarrow> (v1_reply option \<times> TCB_v1 option) option \<Rightarrow> (int \<times> buffer \<times> server_v1) option \<Rightarrow> bool" where
  "matches_v1 s b off spec run = (case spec of
     None \<Rightarrow> run = None
   | Some (reply, c) \<Rightarrow> \<exists>code b' s'. run = Some (code, b', s') \<and> length b' = 1501 \<and> srv_inv_v1 s' \<and>
       view_v1 s' = (view_v1 s)(id_v1 b off := c) \<and>
       (case reply of None \<Rightarrow> code = TCP_SILENT | Some r \<Rightarrow> code = 0 \<and> b' = segment_v1 b off r))"

lemma matches_v1_silent:
  "run = Some (TCP_SILENT, b', s') \<Longrightarrow> length b' = 1501 \<Longrightarrow> srv_inv_v1 s' \<Longrightarrow> view_v1 s' = (view_v1 s)(id_v1 b off := c) \<Longrightarrow>
   matches_v1 s b off (Some (None, c)) run"
  by (simp add: matches_v1_def)

lemma matches_v1_reply:
  "run = Some (0, segment_v1 b off r, s') \<Longrightarrow> length (segment_v1 b off r) = 1501 \<Longrightarrow> srv_inv_v1 s' \<Longrightarrow>
   view_v1 s' = (view_v1 s)(id_v1 b off := c) \<Longrightarrow> matches_v1 s b off (Some (Some r, c)) run"
  by (simp add: matches_v1_def)

lemma length_segment_v1:
  assumes "at_v1 b off" "off + hlen_high (peek8 b (off + 12)) + int (length (rp_body r)) \<le> 1501"
  shows "length (segment_v1 b off r) = 1501"
  using length_unsealed [OF assms] by (simp add: segment_v1_def sealed_def Let_def)

lemma length_segment_empty: "at_v1 b off \<Longrightarrow> rp_body r = [] \<Longrightarrow> length (segment_v1 b off r) = 1501"
  using at_v1D [of b off] hlen_high_bounds [of "peek8 b (off + 12)"] by (intro length_segment_v1) auto

lemma refusal_eq: "at_v1 b off \<Longrightarrow> tcp_null_rst b off = Some (segment_v1 b off (refusal b off))"
  by (simp add: op_simps refusal_def data_len_v1_def Let_def)

text \<open>The dispatcher with its reads done.\<close>

lemma dispatch_unknown:
  assumes "at_v1 b off" "list_inv s" "conns_v1 s (id_v1 b off) = None"
  shows "tcp_dispatch_v1 e s b off = (let fl = flags_v1 b off in
    if f_rst fl then Some (TCP_SILENT, b, s)
    else if f_syn fl \<and> \<not> f_ack fl
    then (case tcp_init_tcb s (id_v1 b off) of (p, s) \<Rightarrow> do {
       s \<leftarrow> tcp_insert_tcb s p;
       (b, s) \<leftarrow> tcp_null_syn_ack e s p b off;
       if p = 0 then Some (TCP_SILENT, b, s) else Some (0, b, s) })
    else Some (0, segment_v1 b off (refusal b off), s))"
  using at_v1D [OF assms(1)] assms(2,3) refusal_eq [OF assms(1)]
  by (simp add: tcp_dispatch_v1_def tcp_get_state_eq id_v1_def flags_of_def in_range_def mem_simps Let_def)

lemma dispatch_known:
  assumes "at_v1 b off" "list_inv s" "conns_v1 s (id_v1 b off) = Some p" "blocks s p = Some t"
  shows "tcp_dispatch_v1 e s b off = (let fl = flags_v1 b off in
    if f_rst fl then map_option (\<lambda>(r, s). (TCP_SILENT, b, s)) (tcp_got_rst s p b off)
    else case v1_state t of
      TCP_SYN_RECEIVED \<Rightarrow>
        if f_syn fl \<and> \<not> f_ack fl
        then map_option (\<lambda>(b, s). (TCP_SILENT, b, s)) (tcp_null_syn_ack e s p b off)
        else if f_ack fl \<and> \<not> f_syn fl \<and> htonl (peek32 b (off + TCP_ack_num)) = s_next (v1_send t)
        then Some (TCP_SILENT, b, set_block s p
          (t\<lparr>v1_state := TCP_ESTABLISHED, v1_send := (v1_send t)\<lparr>s_unac := s_next (v1_send t)\<rparr>\<rparr>))
        else Some (TCP_SILENT, b, s)
    | TCP_ESTABLISHED \<Rightarrow>
        if f_fin fl
        then do {
          (b, s) \<leftarrow> tcp_send_ack (set_block s p (t\<lparr>v1_recv := (v1_recv t)\<lparr>r_next := htonl (peek32 b (off + TCP_seq_num)) + 1\<rparr>\<rparr>))
            p b off None 0;
          t \<leftarrow> block_at (blocks s) p;
          Some (0, b, set_block s p (t\<lparr>v1_state := TCP_CLOSE_WAIT\<rparr>))
        }
        else tcp_handle_data e s p b off
    | _ \<Rightarrow> Some (TCP_SILENT, b, s))"
proof -
  from conns_v1_block [OF assms(2,3)] have p: "p \<noteq> 0" by blast
  have st: "tcp_get_state s \<lparr>c_src_ip = peek32 b 12, c_src_port = ucast (peek16 b off), c_dst_ip = peek32 b 16,
      c_dst_port = ucast (peek16 b (off + 2))\<rparr> = Some p"
    using tcp_get_state_eq [OF assms(2), of "id_v1 b off"] assms(3) by (simp add: id_v1_def)
  have prod: "Option.bind x (\<lambda>(r, s). Some (f r s)) = map_option (\<lambda>(r, s). f r s) x" for f and x :: "('x \<times> 'y) option"
    by (cases x) auto
  show ?thesis
    using at_v1D [OF assms(1)] assms(4) p st
    by (cases "f_rst (flags_v1 b off)"; cases "v1_state t")
      (auto simp: tcp_dispatch_v1_def flags_of_def block_at_def in_range_def mem_simps Let_def prod
        split: option.splits)
qed

text \<open>Two tools for a known connection: storing a changed block, and the spec on the block without its link.\<close>

lemma stored_view:
  assumes "srv_inv_v1 s" "conns_v1 s i = Some p" "blocks s p = Some t" "v1_id t' = v1_id t" "v1_next t' = v1_next t"
  shows "srv_inv_v1 (set_block s p t')" "view_v1 (set_block s p t') = (view_v1 s)(i \<mapsto> t'\<lparr>v1_next := 0\<rparr>)"
    "conns_v1 (set_block s p t') i = Some p"
  using set_block_ok [OF assms] assms(2) by auto

lemma view_known: "conns_v1 s i = Some p \<Longrightarrow> blocks s p = Some t \<Longrightarrow> view_v1 s i = Some (t\<lparr>v1_next := 0\<rparr>)"
  by (simp add: view_v1_def contents_def)

lemma syn_block_next [simp]:
  "syn_block e b off (t\<lparr>v1_next := n\<rparr>) = (syn_block e b off t)\<lparr>v1_next := n\<rparr>"
  "v1_id (syn_block e b off t) = v1_id t" "v1_next (syn_block e b off t) = v1_next t"
  by (simp_all add: syn_block_def Let_def)

lemma replies_next [simp]:
  "syn_reply (t\<lparr>v1_next := n\<rparr>) = syn_reply t" "ack_reply (t\<lparr>v1_next := n\<rparr>) m = ack_reply t m"
  by (simp_all add: syn_reply_def ack_reply_def)

lemma sent_block_next:
  "sent_block (t\<lparr>v1_next := n\<rparr>) m = map_option (\<lambda>t. t\<lparr>v1_next := n\<rparr>) (sent_block t m)"
  by (cases "int_add (s_next (v1_send t)) (word_of_int (int (length m)))") (simp_all add: sent_block_def)

lemma sent_block_keeps: "sent_block t m = Some t' \<Longrightarrow> v1_id t' = v1_id t \<and> v1_next t' = v1_next t"
  by (auto simp: sent_block_def bind_eq_Some_conv split: if_splits)

text \<open>A SYN without a connection.\<close>

lemma match_syn:
  fixes e :: v1_env
  assumes "srv_inv_v1 s" "at_v1 b off" "conns_v1 s (id_v1 b off) = None" "tcp_init_tcb s (id_v1 b off) = (p, s1)"
  defines "t \<equiv> syn_block e b off (new_block (id_v1 b off))"
  shows "matches_v1 s b off
    (if \<not> out_of_memory s (allocs s) \<and> syn_defined e b off then Some (Some (syn_reply t), Some t) else None)
    (do { s \<leftarrow> tcp_insert_tcb s1 p; (b, s) \<leftarrow> tcp_null_syn_ack e s p b off;
       if p = 0 then Some (TCP_SILENT, b, s) else Some (0, b, s) })" (is "matches_v1 s b off _ ?run")
proof (cases "out_of_memory s (allocs s)")
  case True
  from append_null [OF srv_inv_v1D [OF assms(1)] assms(4) True] have "?run = None"
    by (auto simp: tcp_null_syn_ack_def bind_eq_None_conv)
  with True show ?thesis by (simp add: matches_v1_def)
next
  case False
  let ?i = "id_v1 b off"
  from append_view [OF assms(1,3,4) False] obtain s2 where s2: "tcp_insert_tcb s1 p = Some s2" "srv_inv_v1 s2"
    "conns_v1 s2 ?i = Some p" "p \<noteq> 0" "blocks s2 p = Some (new_block ?i)"
    "(view_v1 s2)(?i := c) = (view_v1 s)(?i := c)" for c by blast
  note syn_ack = tcp_null_syn_ack_eq [OF assms(2) s2(5,4), of e]
  note st = stored_view [OF s2(2,3,5), of t]
  have t: "t\<lparr>v1_next := 0\<rparr> = t" "v1_id t = v1_id (new_block ?i)" "v1_next t = v1_next (new_block ?i)"
    by (simp_all add: t_def syn_block_def new_block_def Let_def)
  show ?thesis
  proof (cases "syn_defined e b off")
    case True
    have "?run = Some (0, segment_v1 b off (syn_reply t), set_block s2 p t)"
      using s2(1,4) True syn_ack by (simp add: t_def)
    moreover have "length (segment_v1 b off (syn_reply t)) = 1501"
      using assms(2) by (rule length_segment_empty) (simp add: syn_reply_def)
    ultimately have "matches_v1 s b off (Some (Some (syn_reply t), Some t)) ?run"
      using st(1,2) t s2(6) by (intro matches_v1_reply) simp_all
    with True False show ?thesis by simp
  next
    case undef: False
    then have "?run = None" using s2(1) syn_ack by simp
    with undef show ?thesis by (simp add: matches_v1_def)
  qed
qed

lemma match_unknown:
  assumes "srv_inv_v1 s" "at_v1 b off" "view_v1 s (id_v1 b off) = None" "conns_v1 s (id_v1 b off) = None"
  shows "matches_v1 s b off (unknown_v1 e (\<not> out_of_memory s (allocs s)) b off) (tcp_dispatch_v1 e s b off)"
proof -
  let ?i = "id_v1 b off" and ?fl = "flags_v1 b off"
  note run = dispatch_unknown [OF assms(2) srv_inv_v1D [OF assms(1)] assms(4), of e]
  have same: "(view_v1 s)(?i := None) = view_v1 s" using assms(3) by (simp add: fun_upd_idem)
  consider "f_rst ?fl" | "\<not> f_rst ?fl" "f_syn ?fl" "\<not> f_ack ?fl" | "\<not> f_rst ?fl" "\<not> (f_syn ?fl \<and> \<not> f_ack ?fl)" by blast
  then show ?thesis
  proof cases
    case 1
    with run have "tcp_dispatch_v1 e s b off = Some (2, b, s)" by (simp add: Let_def)
    from matches_v1_silent [OF this at_v1D(1) [OF assms(2)] assms(1)] 1 same show ?thesis
      by (simp add: unknown_v1_def Let_def)
  next
    case 2
    obtain p s1 where init: "tcp_init_tcb s ?i = (p, s1)" by fastforce
    from match_syn [OF assms(1,2,4) init, of e] run 2 init show ?thesis by (auto simp: unknown_v1_def Let_def split: if_splits)
  next
    case 3
    with run have "tcp_dispatch_v1 e s b off = Some (0, segment_v1 b off (refusal b off), s)" by (auto simp: Let_def)
    moreover have "length (segment_v1 b off (refusal b off)) = 1501"
      using assms(2) by (rule length_segment_empty) (simp add: refusal_def Let_def)
    ultimately have "matches_v1 s b off (Some (Some (refusal b off), None)) (tcp_dispatch_v1 e s b off)"
      using assms(1) same by (intro matches_v1_reply) simp_all
    moreover have "unknown_v1 e m b off = Some (Some (refusal b off), None)" for m
      using 3 by (auto simp: unknown_v1_def Let_def)
    ultimately show ?thesis by simp
  qed
qed

text \<open>Nothing changes and nothing is sent.\<close>

lemma match_keep:
  assumes "srv_inv_v1 s" "at_v1 b off" "conns_v1 s (id_v1 b off) = Some p" "blocks s p = Some t"
  shows "matches_v1 s b off (Some (None, Some (t\<lparr>v1_next := 0\<rparr>))) (Some (TCP_SILENT, b, s))"
proof -
  have "(view_v1 s)(id_v1 b off \<mapsto> t\<lparr>v1_next := 0\<rparr>) = view_v1 s"
    using view_known [OF assms(3,4)] by (simp add: fun_upd_idem)
  with at_v1D(1) [OF assms(2)] assms(1) show ?thesis by (intro matches_v1_silent) simp_all
qed

lemma match_reset:
  assumes "srv_inv_v1 s" "at_v1 b off" "conns_v1 s (id_v1 b off) = Some p" "blocks s p = Some t" "f_rst (flags_v1 b off)"
  shows "matches_v1 s b off (reset_v1 b off (t\<lparr>v1_next := 0\<rparr>)) (tcp_dispatch_v1 e s b off)"
proof -
  let ?i = "id_v1 b off" and ?q = "peek32 b (off + 4)" and ?n = "r_next (v1_recv t)"
  note inv = srv_inv_v1D [OF assms(1)] and at = at_v1D [OF assms(2)]
  from conns_v1_block [OF inv assms(3)] have p: "p \<noteq> 0" by blast
  have run: "tcp_dispatch_v1 e s b off = map_option (\<lambda>(r, s). (TCP_SILENT, b, s)) (tcp_got_rst s p b off)"
    using dispatch_known [OF assms(2) inv assms(3,4), of e] assms(5) by (simp add: Let_def)
  have ld: "load32 b (off + 4) = Some ?q" "block_at (blocks s) p = Some t"
    using at p assms(4) by (simp_all add: in_range_def mem_simps block_at_def)
  note keep = match_keep [OF assms(1-4)]
  show ?thesis
  proof (cases "SEQ_GEQ ?q ?n")
    case False
    with run ld keep show ?thesis by (simp add: reset_v1_def tcp_got_rst_def Let_def)
  next
    case True
    show ?thesis
    proof (cases "int_add ?n (r_window (v1_recv t))")
      case None
      with run ld True show ?thesis by (simp add: reset_v1_def tcp_got_rst_def Let_def matches_v1_def)
    next
      case (Some m)
      show ?thesis
      proof (cases "SEQ_LT ?q m")
        case False
        with run ld keep True Some show ?thesis by (simp add: reset_v1_def tcp_got_rst_def Let_def)
      next
        case inside: True
        from remove_view [OF assms(1,3)] obtain s' where s': "tcp_remove_connection s p = Some s'" "srv_inv_v1 s'"
          "view_v1 s' = (view_v1 s)(?i := None)" by blast
        then have "matches_v1 s b off (Some (None, None)) (Some (2, b, s'))"
          using at(1) by (intro matches_v1_silent) simp_all
        with run ld True Some inside s'(1) show ?thesis by (simp add: reset_v1_def tcp_got_rst_def Let_def)
      qed
    qed
  qed
qed

text \<open>Sending a payload on a connection whose block has just been changed to \<open>t\<close>.\<close>

lemma match_sent:
  assumes "srv_inv_v1 s" "at_v1 b off" "conns_v1 s (id_v1 b off) = Some p" "blocks s p = Some t" "m \<noteq> []"
  defines "fits \<equiv> off + hlen_high (peek8 b (off + TCP_data_offset)) + int (length m) \<le> 1501"
  shows "matches_v1 s b off
    (if fits then map_option (\<lambda>t'. (Some (ack_reply t m), Some (t'\<lparr>v1_next := 0\<rparr>))) (sent_block t m) else None)
    (do { (b, s) \<leftarrow> tcp_send_ack s p b off (Some m) (int (length m)); Some (0, b, s) })"
proof -
  from conns_v1_block [OF srv_inv_v1D [OF assms(1)] assms(3)] have p: "p \<noteq> 0" by blast
  have run: "tcp_send_ack s p b off (Some m) (int (length m)) =
      (if fits then map_option (\<lambda>t'. (segment_v1 b off (ack_reply t m), set_block s p t')) (sent_block t m) else None)"
    using tcp_send_ack_eq [OF assms(2,4) p, of m] assms(5) by (simp add: fits_def)
  show ?thesis
  proof (cases "fits \<and> sent_block t m \<noteq> None")
    case True
    then obtain t' where t': "sent_block t m = Some t'" by blast
    have "length (segment_v1 b off (ack_reply t m)) = 1501"
      using assms(2) True by (intro length_segment_v1) (auto simp: ack_reply_def fits_def)
    then have "matches_v1 s b off (Some (Some (ack_reply t m), Some (t'\<lparr>v1_next := 0\<rparr>)))
        (Some (0, segment_v1 b off (ack_reply t m), set_block s p t'))"
      using stored_view [OF assms(1,3,4), of t'] sent_block_keeps [OF t'] by (intro matches_v1_reply) simp_all
    with True t' run show ?thesis by simp
  qed (use run in \<open>auto simp: matches_v1_def\<close>)
qed

text \<open>The comparison only sees the rest of the table, so it can be made after storing a block.\<close>

lemma matches_stored:
  assumes "view_v1 s' = (view_v1 s)(id_v1 b off := c)"
  shows "matches_v1 s' b off spec run = matches_v1 s b off spec run"
  by (cases spec) (auto simp: matches_v1_def assms split: prod.splits)

lemma http_handle_request_cases:
  obtains "http_handle_request e b d n = None"
    | m where "http_handle_request e b d n = Some (m, int (length m))" "m \<noteq> []"
proof (cases "http_handle_request e b d n")
  case (Some mk)
  then have "http_handle_request e b d n = Some (fst mk, snd mk)" by simp
  with http_handle_request_len [OF this] that(2) [of "fst mk"] show ?thesis by simp
qed (rule that(1))

lemma match_data:
  assumes "srv_inv_v1 s" "at_v1 b off" "conns_v1 s (id_v1 b off) = Some p" "blocks s p = Some t"
  shows "matches_v1 s b off (data_v1 e b off (t\<lparr>v1_next := 0\<rparr>)) (tcp_handle_data e s p b off)"
proof -
  let ?h = "hlen_high (peek8 b (off + 12))" and ?n = "data_len_v1 b off"
  let ?x = "int_add (r_next (v1_recv t)) (word_of_int ?n)" and ?req = "http_handle_request (http e) b (off + ?h) ?n"
  note at = at_v1D [OF assms(2)]
  from conns_v1_block [OF srv_inv_v1D [OF assms(1)] assms(3)] have p: "p \<noteq> 0" by blast
  have run: "tcp_handle_data e s p b off = (if ?n \<le> 0 then Some (2, b, s) else do {
      (m, k) \<leftarrow> ?req; x \<leftarrow> ?x;
      (b, s) \<leftarrow> tcp_send_ack (set_block s p (t\<lparr>v1_recv := (v1_recv t)\<lparr>r_next := x\<rparr>\<rparr>)) p b off (Some m) k;
      Some (0, b, s) })"
    using at p assms(4)
    by (simp add: tcp_handle_data_def data_len_v1_def in_range_def mem_simps block_at_def Let_def)
  consider "?n \<le> 0" | "\<not> ?n \<le> 0" "?req = None \<or> ?x = None"
    | m x where "\<not> ?n \<le> 0" "?req = Some (m, int (length m))" "m \<noteq> []" "?x = Some x"
    by (rule http_handle_request_cases [of "http e" b "off + ?h" ?n]) (blast, metis not_None_eq)
  then show ?thesis
  proof cases
    case 1
    with run match_keep [OF assms] show ?thesis by (simp add: data_v1_def Let_def)
  next
    case 2
    with run show ?thesis
      by (cases rule: http_handle_request_cases [of "http e" b "off + ?h" ?n]) (auto simp: data_v1_def Let_def matches_v1_def)
  next
    case 3
    let ?t = "t\<lparr>v1_recv := (v1_recv t)\<lparr>r_next := x\<rparr>\<rparr>"
    have "t\<lparr>v1_next := 0, v1_recv := (v1_recv t)\<lparr>r_next := x\<rparr>\<rparr> = ?t\<lparr>v1_next := 0\<rparr>" by simp
    then have "sent_block (t\<lparr>v1_next := 0, v1_recv := (v1_recv t)\<lparr>r_next := x\<rparr>\<rparr>) m =
        map_option (\<lambda>t. t\<lparr>v1_next := 0\<rparr>) (sent_block ?t m)"
      using sent_block_next [where t = ?t and n = 0 and m = m] by (simp only:)
    then have spec: "data_v1 e b off (t\<lparr>v1_next := 0\<rparr>) = (if off + ?h + int (length m) \<le> 1501
        then map_option (\<lambda>t'. (Some (ack_reply ?t m), Some (t'\<lparr>v1_next := 0\<rparr>))) (sent_block ?t m) else None)"
      using 3 by (cases "sent_block ?t m") (simp_all add: data_v1_def Let_def ack_reply_def)
    have st: "srv_inv_v1 (set_block s p ?t)" "conns_v1 (set_block s p ?t) (id_v1 b off) = Some p"
      "view_v1 (set_block s p ?t) = (view_v1 s)(id_v1 b off \<mapsto> ?t\<lparr>v1_next := 0\<rparr>)"
      using stored_view [OF assms(1,3,4), of ?t] by simp_all
    from match_sent [OF st(1) assms(2) st(2) _ 3(3), of ?t] matches_stored [OF st(3)] run 3 spec show ?thesis by simp
  qed
qed

text \<open>The two states in which a segment can change the connection.\<close>

lemma match_handshake:
  assumes "srv_inv_v1 s" "at_v1 b off" "conns_v1 s (id_v1 b off) = Some p" "blocks s p = Some t"
    and "\<not> f_rst (flags_v1 b off)" "v1_state t = TCP_SYN_RECEIVED"
  shows "matches_v1 s b off (known_v1 e b off (t\<lparr>v1_next := 0\<rparr>)) (tcp_dispatch_v1 e s b off)"
proof (cases "f_syn (flags_v1 b off) \<and> \<not> f_ack (flags_v1 b off)")
  case True
  let ?t = "syn_block e b off t"
  from conns_v1_block [OF srv_inv_v1D [OF assms(1)] assms(3)] have p: "p \<noteq> 0" by blast
  have "matches_v1 s b off (Some (None, Some (?t\<lparr>v1_next := 0\<rparr>))) (Some (2, segment_v1 b off (syn_reply ?t), set_block s p ?t))"
    using stored_view [OF assms(1,3,4), of ?t] length_segment_empty [OF assms(2), of "syn_reply ?t"]
    by (intro matches_v1_silent) (simp_all add: syn_reply_def)
  with True assms(5,6) dispatch_known [OF assms(2) srv_inv_v1D [OF assms(1)] assms(3,4), of e]
    tcp_null_syn_ack_eq [OF assms(2,4) p, of e]
  show ?thesis by (cases "syn_defined e b off") (simp_all add: known_v1_def Let_def matches_v1_def)
next
  case False
  let ?t = "t\<lparr>v1_state := TCP_ESTABLISHED, v1_send := (v1_send t)\<lparr>s_unac := s_next (v1_send t)\<rparr>\<rparr>"
  let ?ok = "f_ack (flags_v1 b off) \<and> \<not> f_syn (flags_v1 b off) \<and> htonl (peek32 b (off + 8)) = s_next (v1_send t)"
  have "matches_v1 s b off (Some (None, Some (?t\<lparr>v1_next := 0\<rparr>))) (Some (2, b, set_block s p ?t))"
    using stored_view [OF assms(1,3,4), of ?t] at_v1D(1) [OF assms(2)] by (intro matches_v1_silent) simp_all
  moreover have "known_v1 e b off (t\<lparr>v1_next := 0\<rparr>) = Some (None, Some (if ?ok then ?t\<lparr>v1_next := 0\<rparr> else t\<lparr>v1_next := 0\<rparr>))"
    using False assms(6) by (auto simp: known_v1_def Let_def)
  ultimately show ?thesis
    using False match_keep [OF assms(1-4)] assms(5,6)
      dispatch_known [OF assms(2) srv_inv_v1D [OF assms(1)] assms(3,4), of e, unfolded Let_def]
    by (cases ?ok) auto
qed

lemma match_fin:
  assumes "srv_inv_v1 s" "at_v1 b off" "conns_v1 s (id_v1 b off) = Some p" "blocks s p = Some t"
    and "\<not> f_rst (flags_v1 b off)" "v1_state t = TCP_ESTABLISHED" "f_fin (flags_v1 b off)"
  shows "matches_v1 s b off (known_v1 e b off (t\<lparr>v1_next := 0\<rparr>)) (tcp_dispatch_v1 e s b off)"
proof -
  let ?t = "t\<lparr>v1_recv := (v1_recv t)\<lparr>r_next := htonl (peek32 b (off + 4)) + 1\<rparr>\<rparr>"
  let ?s = "set_block s p ?t" and ?u = "?t\<lparr>v1_state := TCP_CLOSE_WAIT\<rparr>"
  from conns_v1_block [OF srv_inv_v1D [OF assms(1)] assms(3)] have p: "p \<noteq> 0" by blast
  have "off + hlen_high (peek8 b (off + 12)) \<le> 1501"
    using at_v1D [OF assms(2)] hlen_high_bounds [of "peek8 b (off + 12)"] by simp
  then have "tcp_send_ack ?s p b off None 0 = Some (segment_v1 b off (ack_reply ?t []), set_block ?s p ?t)"
    using tcp_send_ack_eq [OF assms(2), where s = ?s and p = p and t = ?t and m = "[]"] p by (simp add: sent_block_def)
  then have r: "tcp_dispatch_v1 e s b off = Some (0, segment_v1 b off (ack_reply ?t []), set_block s p ?u)"
    using dispatch_known [OF assms(2) srv_inv_v1D [OF assms(1)] assms(3,4), of e] assms(5-7) p
    by (simp add: block_at_def Let_def)
  have "length (segment_v1 b off (ack_reply ?t [])) = 1501"
    using assms(2) by (rule length_segment_empty) (simp add: ack_reply_def)
  then have "matches_v1 s b off (Some (Some (ack_reply ?t []), Some (?u\<lparr>v1_next := 0\<rparr>))) (tcp_dispatch_v1 e s b off)"
    using r stored_view [OF assms(1,3,4), of ?u] by (intro matches_v1_reply) simp_all
  moreover have "known_v1 e b off (t\<lparr>v1_next := 0\<rparr>) = Some (Some (ack_reply ?t []), Some (?u\<lparr>v1_next := 0\<rparr>))"
    using assms(6,7) by (simp add: known_v1_def Let_def ack_reply_def)
  ultimately show ?thesis by simp
qed

lemma match_known:
  assumes "srv_inv_v1 s" "at_v1 b off" "conns_v1 s (id_v1 b off) = Some p" "blocks s p = Some t" "\<not> f_rst (flags_v1 b off)"
  shows "matches_v1 s b off (known_v1 e b off (t\<lparr>v1_next := 0\<rparr>)) (tcp_dispatch_v1 e s b off)"
proof -
  note run = dispatch_known [OF assms(2) srv_inv_v1D [OF assms(1)] assms(3,4), of e]
  show ?thesis
  proof (cases "v1_state t")
    case TCP_ESTABLISHED
    with match_fin [OF assms, of e] match_data [OF assms(1-4), of e] run assms(5) show ?thesis
      by (cases "f_fin (flags_v1 b off)") (simp_all add: known_v1_def Let_def)
  next
    case TCP_SYN_RECEIVED
    with assms show ?thesis by (rule match_handshake)
  qed (use match_keep [OF assms(1-4)] run assms(5) in \<open>simp_all add: known_v1_def Let_def\<close>)
qed

lemma dispatch_matches:
  assumes "srv_inv_v1 s" "at_v1 b off"
  shows "matches_v1 s b off (listen_v1 e (\<not> out_of_memory s (allocs s)) b off (view_v1 s (id_v1 b off)))
    (tcp_dispatch_v1 e s b off)"
proof (cases "conns_v1 s (id_v1 b off)")
  case None
  then have "view_v1 s (id_v1 b off) = None" by (simp add: view_v1_def)
  with match_unknown [OF assms this None, of e] show ?thesis by (simp add: listen_v1_def)
next
  case (Some p)
  from conns_v1_block [OF srv_inv_v1D [OF assms(1)] Some] obtain t where t: "blocks s p = Some t" by blast
  with match_reset [OF assms Some t, of e] match_known [OF assms Some t, of e] show ?thesis
    by (simp add: listen_v1_def view_known [OF Some t])
qed

section \<open>The segments are correct\<close>

lemma tcp_cks_sealed:
  assumes "at_v1 b off" "peek8 b IP_proto = 6"
  shows "sealed b off n = poke16 (ip_summed b) (off + TCP_checksum) (tcp_cks (ip_summed b) (off + n) off)"
  using at_v1D [OF assms(1)] assms(2) by (simp add: sealed_def tcp_cks_def pseudo_of_def Let_def mem_simps)

lemma unsealed_fields:
  fixes r :: v1_reply
  assumes "at_v1 b off" and h: "h = hlen_high (peek8 b (off + TCP_data_offset))" "20 \<le> h"
    and fits: "off + h + int (length (rp_body r)) \<le> 1501"
  defines "u \<equiv> unsealed b off r" and "m \<equiv> int (length (rp_body r))"
  shows "peek8 u 0 = peek8 b 0" "peek8 u 9 = peek8 b 9"
    and "peek32 u 12 = peek32 b 16" "peek32 u 16 = peek32 b 12" "peek16 u 2 = htons (word_of_int (off + h + m))"
    and "tcp_header u off = (tcp_header b off)\<lparr>tcp_src_port := tcp_dst_port (tcp_header b off),
      tcp_dst_port := tcp_src_port (tcp_header b off), tcp_seq_num := htonl (rp_seq r),
      tcp_ack_num := htonl (rp_ack r), tcp_data_offset := set_hlen_high h,
      tcp_flags := rp_flags r, tcp_window := htons (rp_window r), tcp_urgent_ptr := 0\<rparr>"
    and "bytes_at u (off + h) m = rp_body r"
proof -
  note at = at_v1D [OF assms(1)]
  have h60: "h \<le> 60" using h(1) hlen_high_bounds by simp
  let ?f = "reply_fields (ports_swapped (swapped b) off) off (rp_seq r) (rp_ack r) (rp_flags r) (htons (rp_window r))"
  let ?g = "if rp_body r = [] then ?f else blit ?f (off + h) (rp_body r) 0 m"
  have ug: "u = poke16 ?g IP_len (htons (word_of_int (off + h + m)))"
    using h(1) by (simp add: u_def unsealed_def Let_def m_def)
  have low: "0 \<le> i \<Longrightarrow> i + 1 \<le> off + h \<Longrightarrow> peek8 ?g i = peek8 ?f i"
      "0 \<le> i \<Longrightarrow> i + 2 \<le> off + h \<Longrightarrow> peek16 ?g i = peek16 ?f i"
      "0 \<le> i \<Longrightarrow> i + 4 \<le> off + h \<Longrightarrow> peek32 ?g i = peek32 ?f i" for i
    using at h60 h(2) fits by (auto simp: in_range_def mem_simps m_def)
  have len: "length ?g = 1501" using at h(2) fits by (simp add: in_range_def m_def)
  show "peek8 u 0 = peek8 b 0" "peek8 u 9 = peek8 b 9" using at h(2) low by (simp_all add: ug mem_simps)
  show "peek32 u 12 = peek32 b 16" "peek32 u 16 = peek32 b 12"
    using low(3) [of 12] low(3) [of 16] at h(2) by (simp_all add: ug mem_simps)
  show "peek16 u 2 = htons (word_of_int (off + h + m))" using len by (simp add: ug in_range_def mem_simps)
  have "tcp_header ?g off = tcp_header ?f off"
    unfolding tcp_header_def using at h(2) by (simp only: low)
  then have "tcp_header u off = tcp_header ?f off" using at by (simp add: ug)
  also have "\<dots> = (tcp_header b off)\<lparr>tcp_src_port := tcp_dst_port (tcp_header b off),
      tcp_dst_port := tcp_src_port (tcp_header b off), tcp_seq_num := htonl (rp_seq r),
      tcp_ack_num := htonl (rp_ack r), tcp_data_offset := set_hlen_high h,
      tcp_flags := rp_flags r, tcp_window := htons (rp_window r), tcp_urgent_ptr := 0\<rparr>"
    using at h(1) by (simp add: tcp_header_reply_fields tcp_header_ports_swapped mem_simps)
  finally show "tcp_header u off = \<dots>" .
  have "bytes_at ?g (off + h) m = rp_body r" if "rp_body r \<noteq> []"
    using that at h(2) fits by (simp add: in_range_def mem_simps m_def) (simp add: bytes_at_def)
  then show "bytes_at u (off + h) m = rp_body r"
    using at h(2) by (cases "rp_body r = []") (simp_all add: ug mem_simps, simp add: bytes_at_def m_def)
qed

lemma segment_v1_valid:
  assumes "at_v1 b off" "drop_bit 4 (peek8 b 0) = 4" "peek8 b IP_proto = 6"
    and "h = hlen_high (peek8 b (off + TCP_data_offset))" "20 \<le> h" "off + h + int (length (rp_body r)) \<le> 1501"
  defines "b' \<equiv> segment_v1 b off r" and "n \<equiv> off + h + int (length (rp_body r))"
  shows "ip_validate b' n = Some 1"
    and "tcp_checksum b' n off = Some (tcp_cksum (tcp_header b' off), b')"
    and "ipv4_src (ip_header b') = peek32 b IP_dst" "ipv4_dst (ip_header b') = peek32 b IP_src"
    and "ipv4_len (ip_header b') = htons (word_of_int n)"
    and "tcp_src_port (tcp_header b' off) = peek16 b (off + TCP_dst_port)"
    and "tcp_dst_port (tcp_header b' off) = peek16 b (off + TCP_src_port)"
    and "htonl (tcp_seq_num (tcp_header b' off)) = rp_seq r" "htonl (tcp_ack_num (tcp_header b' off)) = rp_ack r"
    and "tcp_flags (tcp_header b' off) = rp_flags r" "htons (tcp_window (tcp_header b' off)) = rp_window r"
    and "bytes_at b' (off + h) (int (length (rp_body r))) = rp_body r"
    and "peek8 b' 0 = peek8 b 0" "peek8 b' IP_proto = 6" "tcp_data_offset (tcp_header b' off) = set_hlen_high h"
proof -
  note at = at_v1D [OF assms(1)] and fields = unsealed_fields [OF assms(1,4-6)]
  let ?u = "unsealed b off r" and ?m = "int (length (rp_body r))"
  have u: "at_v1 ?u off" "length ?u = 1501"
    using at_v1_unsealed [OF assms(1), of r] assms(4,6) at_v1D(1) by auto
  have b': "b' = poke16 (ip_summed ?u) (off + 16) (tcp_cks (ip_summed ?u) n off)"
    using tcp_cks_sealed [OF u(1), of "h + ?m"] fields(2) assms(3,4) by (simp add: b'_def segment_v1_def n_def add.assoc)
  have b0: "peek8 b' 0 = peek8 b 0" "length b' = 1501" using at u fields(1) by (simp_all add: b' mem_simps)
  show "peek8 b' 0 = peek8 b 0" by (rule b0(1))
  show "peek8 b' 9 = 6" using at u fields(2) assms(3) by (simp add: b' mem_simps)
  have "cks (bytes_at b' 0 off) = 0"
    using cks_ip_summed [of ?u] at u fields(1) by (simp add: b' mem_simps)
  with b0 show "ip_validate b' n = Some 1"
    using at assms(2,5,6) n_def by (subst ip_validate_eq) auto
  have th: "tcp_header b' off = (tcp_header ?u off)\<lparr>tcp_cksum := tcp_cks (ip_summed ?u) n off\<rparr>"
    using at u by (simp add: b' tcp_header_cksum)
  have "tcp_cks b' n off = tcp_cks (ip_summed ?u) n off"
    using at u tcp_cks_poke_checksum [of off "ip_summed ?u"] by (simp add: b')
  moreover have "off \<le> n" "n \<le> 1501" using at assms(5,6) n_def by auto
  ultimately show "tcp_checksum b' n off = Some (tcp_cksum (tcp_header b' off), b')"
    using th at b0 by (simp add: op_simps)
  show "tcp_src_port (tcp_header b' off) = peek16 b (off + 2)" "tcp_dst_port (tcp_header b' off) = peek16 b (off + 0)"
    "htonl (tcp_seq_num (tcp_header b' off)) = rp_seq r" "htonl (tcp_ack_num (tcp_header b' off)) = rp_ack r"
    "tcp_flags (tcp_header b' off) = rp_flags r" "htons (tcp_window (tcp_header b' off)) = rp_window r"
    "tcp_data_offset (tcp_header b' off) = set_hlen_high h"
    unfolding th fields(6) by (simp_all add: tcp_header_def)
  show "ipv4_src (ip_header b') = peek32 b 16" "ipv4_dst (ip_header b') = peek32 b 12"
    "ipv4_len (ip_header b') = htons (word_of_int n)"
    using at u fields(3-5) by (simp_all add: b' ip_header_def mem_simps n_def)
  show "bytes_at b' (off + h) ?m = rp_body r" using at assms(5) fields(7) by (simp add: b' mem_simps)
qed

text \<open>A reply always fits the buffer.\<close>

lemma listen_fits:
  assumes "at_v1 b off" "listen_v1 e m b off c = Some (Some r, c')"
  shows "off + hlen_high (peek8 b (off + TCP_data_offset)) + int (length (rp_body r)) \<le> 1501"
proof -
  have h: "off + hlen_high (peek8 b (off + 12)) \<le> 1501"
    using at_v1D [OF assms(1)] hlen_high_bounds [of "peek8 b (off + 12)"] by simp
  have d: "off + hlen_high (peek8 b (off + 12)) + int (length (rp_body r)) \<le> 1501"
    if "data_v1 e b off t = Some (Some r, c')" for t
    using that by (auto simp: data_v1_def Let_def bind_eq_Some_conv ack_reply_def split: if_splits)
  show ?thesis
    using assms(2) h d
    by (auto simp: listen_v1_def unknown_v1_def reset_v1_def known_v1_def refusal_def syn_reply_def ack_reply_def Let_def
        split: option.splits if_splits TCP_State.splits)
qed

lemma dispatch_reply:
  assumes "srv_inv_v1 s" "at_v1 b off" "tcp_dispatch_v1 e s b off = Some (0, b', s')"
  obtains r c where "listen_v1 e (\<not> out_of_memory s (allocs s)) b off (view_v1 s (id_v1 b off)) = Some (Some r, c)"
    "b' = segment_v1 b off r" "off + hlen_high (peek8 b (off + TCP_data_offset)) + int (length (rp_body r)) \<le> 1501"
  using dispatch_matches [OF assms(1,2), of e] assms(3) listen_fits [OF assms(2)] that
  by (auto simp: matches_v1_def split: option.splits)

section \<open>Properties\<close>

text \<open>
  C4: the original TCP dispatcher implements \<open>listen_v1\<close>. On every well-formed connection list and
  every segment in the receive buffer, it behaves as the specification says of the connection
  the segment belongs to: where the specification is undefined the C code runs into undefined
  behaviour, and nowhere else; otherwise it returns, sends nothing or exactly the specified
  segment, changes just that connection in the specified way and keeps the list well formed without a leaked block.
\<close>

theorem tcp_dispatch_v1_refines:
  assumes "srv_inv_v1 s" "at_v1 b off"
  shows "case listen_v1 e (\<not> out_of_memory s (allocs s)) b off (view_v1 s (id_v1 b off)) of
      None \<Rightarrow> tcp_dispatch_v1 e s b off = None
    | Some (reply, c) \<Rightarrow> \<exists>code b' s'. tcp_dispatch_v1 e s b off = Some (code, b', s') \<and> length b' = 1501 \<and>
        srv_inv_v1 s' \<and> view_v1 s' = (view_v1 s)(id_v1 b off := c) \<and>
        (case reply of None \<Rightarrow> code = TCP_SILENT | Some r \<Rightarrow> code = 0 \<and> b' = segment_v1 b off r)"
  using dispatch_matches [OF assms, of e] by (simp add: matches_v1_def)

definition sample_env :: v1_env where
  "sample_env = \<lparr>tv_sec = 0, tv_usec = 5000, rand_v1 = 0, http = sample_http\<rparr>"

lemma srv_inv_v1_start: "srv_inv_v1 (tcp_init_server_instance failing)" "view_v1 (tcp_init_server_instance failing) i = None"
  using list_inv_start [of failing]
  by (auto simp: srv_inv_v1_def view_v1_def conns_v1_def) (simp add: tcp_init_server_instance_def)

abbreviation (input) sample_syn_block :: TCB_v1 where
  "sample_syn_block \<equiv> syn_block sample_env (syn_packet @ [0]) 20 (new_block (id_v1 (syn_packet @ [0]) 20))"

lemma sample_listen:
  "listen_v1 sample_env (\<not> out_of_memory (tcp_init_server_instance (\<lambda>n. False)) (allocs (tcp_init_server_instance (\<lambda>n. False))))
     (syn_packet @ [0]) 20 (view_v1 (tcp_init_server_instance (\<lambda>n. False)) (id_v1 (syn_packet @ [0]) 20)) =
   Some (Some (syn_reply sample_syn_block), Some sample_syn_block)"
proof -
  let ?b = "syn_packet @ [0]"
  have "flags_of (peek8 ?b (20 + 13)) = \<lparr>f_fin = False, f_syn = True, f_rst = False, f_psh = False, f_ack = False\<rparr>"
    "syn_defined sample_env ?b 20" by code_simp+
  then show ?thesis
    unfolding srv_inv_v1_start(2) by (simp add: listen_v1_def unknown_v1_def Let_def tcp_init_server_instance_def)
qed

theorem tcp_dispatch_v1_refines_witness:
  "\<exists>b' s' t. tcp_dispatch_v1 sample_env (tcp_init_server_instance (\<lambda>n. False)) (syn_packet @ [0]) 20 = Some (0, b', s') \<and>
     view_v1 s' (id_v1 (syn_packet @ [0]) 20) = Some t \<and> s_iss (v1_send t) = 5000 \<and> r_next (v1_recv t) = 1001"
proof -
  have "s_iss (v1_send sample_syn_block) = 5000" "r_next (v1_recv sample_syn_block) = 1001" by code_simp+
  with tcp_dispatch_v1_refines [OF srv_inv_v1_start(1) at_v1_syn, of sample_env "\<lambda>n. False"] sample_listen
  show ?thesis by fastforce
qed

lemma sample_syn_answered:
  "\<exists>b' s'. tcp_dispatch_v1 sample_env (tcp_init_server_instance (\<lambda>n. False)) (syn_packet @ [0]) 20 = Some (0, b', s')"
  using dispatch_matches [OF srv_inv_v1_start(1) at_v1_syn, of "\<lambda>n. False" sample_env] sample_listen
  by (auto simp: matches_v1_def)

text \<open>
  The stack does not check the data offset. With an offset of 0 a reply with a body has
  the body where the ports should be.
\<close>

lemma small_offset_overwrites:
  assumes "at_v1 b off" "hlen_high (peek8 b (off + TCP_data_offset)) = 0" "2 \<le> length (rp_body r)"
    and "off + int (length (rp_body r)) \<le> 1501"
  shows "peek8 (segment_v1 b off r) off = rp_body r ! 0" "peek8 (segment_v1 b off r) (off + 1) = rp_body r ! 1"
proof -
  note at = at_v1D [OF assms(1)]
  have "peek8 (segment_v1 b off r) (off + k) = peek8 (unsealed b off r) (off + k)" if "k \<in> {0, 1}" for k
    using that at by (auto simp: segment_v1_def sealed_def ip_summed_def Let_def mem_simps)
  moreover have "peek8 (unsealed b off r) (off + k) = rp_body r ! nat k" if "k \<in> {0, 1}" for k
  proof -
    let ?f = "reply_fields (ports_swapped (swapped b) off) off (rp_seq r) (rp_ack r) (rp_flags r) (htons (rp_window r))"
    let ?g = "blit ?f off (rp_body r) 0 (int (length (rp_body r)))"
    have k: "in_range ?f off (int (length (rp_body r)))" "rp_body r \<noteq> []" "0 \<le> k" "k < int (length (rp_body r))"
      using that at assms(3,4) by (auto simp: in_range_def)
    then have "peek8 (unsealed b off r) (off + k) = peek8 ?g (off + k)"
      using that at assms(2) by (auto simp: unsealed_def Let_def mem_simps in_range_def)
    also have "\<dots> = rp_body r ! nat k"
      using nth_blit [OF _ k(1), of "rp_body r" 0 "off + k"] k at by (simp add: in_range_def peek8_def)
    finally show ?thesis .
  qed
  ultimately have "peek8 (segment_v1 b off r) (off + k) = rp_body r ! nat k" if "k \<in> {0, 1}" for k
    using that by simp
  from this [of 0] this [of 1] show "peek8 (segment_v1 b off r) off = rp_body r ! 0"
    "peek8 (segment_v1 b off r) (off + 1) = rp_body r ! 1" by simp_all
qed

text \<open>
  C30: every segment the original stack sends in reply to a segment of protocol TCP and version 4
  whose data offset is at least the 20 bytes of a TCP header is one the refactored stack would accept: it goes
  back to the sender, with addresses and ports exchanged and the IP length covering exactly
  headers and payload, and both the IP and the TCP checksum verify under the refactored
  validators. The stack does not check the data offset; with a smaller one this fails, as
  \<open>small_offset_overwrites\<close> shows.
\<close>

theorem replies_verify_v1:
  assumes "srv_inv_v1 s" "at_v1 b off" "drop_bit 4 (peek8 b 0) = 4" "peek8 b IP_proto = 6"
    and "20 \<le> hlen_high (peek8 b (off + TCP_data_offset))" "tcp_dispatch_v1 e s b off = Some (0, b', s')"
  shows "\<exists>n. off + 20 \<le> n \<and> n \<le> 1501 \<and> ipv4_len (ip_header b') = htons (word_of_int n) \<and>
    ipv4_src (ip_header b') = ipv4_dst (ip_header b) \<and> ipv4_dst (ip_header b') = ipv4_src (ip_header b) \<and>
    tcp_src_port (tcp_header b' off) = tcp_dst_port (tcp_header b off) \<and>
    tcp_dst_port (tcp_header b' off) = tcp_src_port (tcp_header b off) \<and>
    ip_validate b' n = Some 1 \<and> tcp_checksum b' n off = Some (tcp_cksum (tcp_header b' off), b')"
proof -
  from dispatch_reply [OF assms(1,2,6)] obtain r where
    b': "b' = segment_v1 b off r" and
    fits: "off + hlen_high (peek8 b (off + 12)) + int (length (rp_body r)) \<le> 1501" by auto
  note valid = segment_v1_valid [OF assms(2-4) refl assms(5) fits]
  show ?thesis
    using valid(1-7) assms(5) fits unfolding b'
    by (intro exI [of _ "off + hlen_high (peek8 b (off + 12)) + int (length (rp_body r))"])
      (simp add: ip_header_def tcp_header_def)
qed

theorem replies_verify_v1_witness:
  "\<exists>b' s' n. tcp_dispatch_v1 sample_env (tcp_init_server_instance (\<lambda>n. False)) (syn_packet @ [0]) 20 = Some (0, b', s') \<and>
     ip_validate b' n = Some 1 \<and> tcp_checksum b' n 20 = Some (tcp_cksum (tcp_header b' 20), b')"
proof -
  from sample_syn_answered obtain b' s' where
    run: "tcp_dispatch_v1 sample_env (tcp_init_server_instance (\<lambda>n. False)) (syn_packet @ [0]) 20 = Some (0, b', s')" by blast
  have "drop_bit 4 (peek8 (syn_packet @ [0]) 0) = 4" "peek8 (syn_packet @ [0]) 9 = 6"
    "hlen_high (peek8 (syn_packet @ [0]) (20 + 12)) = 20" by code_simp+
  with replies_verify_v1 [OF srv_inv_v1_start(1) at_v1_syn _ _ _ run] run show ?thesis by auto
qed

text \<open>Adding a small non-negative number to a sequence number below the signed limit.\<close>

lemma int_add_small:
  assumes "0 \<le> k" "k < 2147483648" "sint a + k < 2147483648"
  shows "int_add a (word_of_int k) = Some (a + word_of_int k)"
proof -
  have "sint (word_of_int k :: u32) = k"
    using assms(1,2) by (simp add: signed_of_int signed_take_bit_int_eq_self)
  moreover have "- 2147483648 \<le> sint a" using sint_range_size [of a] by (simp add: word_size)
  ultimately show ?thesis using assms by (simp add: int_add_def)
qed

text \<open>What the specification says of a GET on an established connection.\<close>

lemma listen_get:
  assumes "at_v1 b off" "h = hlen_high (peek8 b (off + TCP_data_offset))" "20 \<le> h" "n = data_len_v1 b off" "4 \<le> n"
    and "v1_state t = TCP_ESTABLISHED" "\<not> f_rst (flags_v1 b off)" "\<not> f_fin (flags_v1 b off)"
    and "bytes_at b (off + h) 4 = bytes_of ''GET ''"
    and "he_file (http e) ''./network/http/assets/Hello.html'' = Some f" "length f \<le> he_read (http e)" "length f \<le> 1200"
    and "he_malloc_file (http e)" "he_malloc_response (http e)"
    and "sint (r_next (v1_recv t)) + n < 2147483648" "sint (s_next (v1_send t)) + 1300 < 2147483648"
  defines "m \<equiv> ok_headers (length f) @ f"
  defines "u \<equiv> t\<lparr>v1_recv := (v1_recv t)\<lparr>r_next := r_next (v1_recv t) + word_of_int n\<rparr>\<rparr>"
  shows "listen_v1 e mem b off (Some t) = Some (Some (ack_reply u m),
      Some (u\<lparr>v1_send := (v1_send t)\<lparr>s_next := s_next (v1_send t) + word_of_int (int (length m))\<rparr>\<rparr>))"
    and "81 \<le> length m" "length m \<le> 1291" "off + h + int (length m) \<le> 1501"
proof -
  note at = at_v1D [OF assms(1)]
  have h: "h \<le> 60" using assms(2) hlen_high_bounds by simp
  have n: "n < 65536" using assms(2,3,4) at(2) uint_lt2p [of "htons (peek16 b 2)"] by (simp add: data_len_v1_def)
  show m: "81 \<le> length m" "length m \<le> 1291"
    using length_decimal [of "length f" 10] assms(12) by (auto simp: m_def length_ok_headers)
  have "starts_with b (off + h) (bytes_of ''GET '') = Some True"
    using starts_with_eq [of "off + h" "bytes_of ''GET ''" b] at h assms(3,9) by simp
  then have req: "http_handle_request (http e) b (off + h) n = Some (m, int (length m))"
    using serve_file_ok [OF assms(10,11,13,14)] assms(5,12) by (simp add: http_handle_request_def m_def)
  have r: "int_add (r_next (v1_recv t)) (word_of_int n) = Some (r_next (v1_recv t) + word_of_int n)"
    using assms(5,15) n by (intro int_add_small) simp_all
  have "int_add (s_next (v1_send t)) (word_of_int (int (length m))) = Some (s_next (v1_send t) + word_of_int (int (length m)))"
    using m assms(16) by (intro int_add_small) simp_all
  then have st: "sent_block u m = Some (u\<lparr>v1_send := (v1_send t)\<lparr>s_next := s_next (v1_send t) + word_of_int (int (length m))\<rparr>\<rparr>)"
    using m(1) by (auto simp: sent_block_def u_def)
  show fits: "off + h + int (length m) \<le> 1501" using at h m by simp
  have "data_v1 e b off t = Some (Some (ack_reply u m),
      Some (u\<lparr>v1_send := (v1_send t)\<lparr>s_next := s_next (v1_send t) + word_of_int (int (length m))\<rparr>\<rparr>))"
    unfolding data_v1_def Let_def assms(2) [symmetric] assms(4) [symmetric]
    using assms(5) req r st fits by (simp add: u_def)
  with assms(6-8) show "listen_v1 e mem b off (Some t) = Some (Some (ack_reply u m),
      Some (u\<lparr>v1_send := (v1_send t)\<lparr>s_next := s_next (v1_send t) + word_of_int (int (length m))\<rparr>\<rparr>))"
    by (simp add: listen_v1_def known_v1_def Let_def)
qed

text \<open>
  C15: the original server serves its page. On an established connection, a segment without RST and
  FIN whose payload begins with \<open>GET\<close> and a space is answered at once with a segment that carries
  an HTTP message which an HTTP client reads as status 200 with the announced length and the
  content of the file; its sequence number is the next one of the connection, it acknowledges the
  received payload, and the connection advances by both lengths. Needed: the page is at most 1200 bytes, it can
  be read, memory suffices and neither sequence number is about to exceed the signed range.
\<close>

theorem http_get_served_v1:
  assumes "srv_inv_v1 s" "at_v1 b off" "drop_bit 4 (peek8 b 0) = 4" "peek8 b IP_proto = 6"
    and "h = hlen_high (peek8 b (off + TCP_data_offset))" "20 \<le> h" "n = data_len_v1 b off" "4 \<le> n"
    and "view_v1 s (id_v1 b off) = Some t" "v1_state t = TCP_ESTABLISHED"
    and "\<not> f_rst (flags_v1 b off)" "\<not> f_fin (flags_v1 b off)" "bytes_at b (off + h) 4 = bytes_of ''GET ''"
    and "he_file (http e) ''./network/http/assets/Hello.html'' = Some f" "length f \<le> he_read (http e)" "length f \<le> 1200"
    and "he_malloc_file (http e)" "he_malloc_response (http e)"
    and "sint (r_next (v1_recv t)) + n < 2147483648" "sint (s_next (v1_send t)) + 1300 < 2147483648"
  shows "\<exists>b' s' m. tcp_dispatch_v1 e s b off = Some (0, b', s') \<and> srv_inv_v1 s' \<and>
    ipv4_len (ip_header b') = htons (word_of_int (off + h + m)) \<and>
    read_message (bytes_at b' (off + h) m) = Some (bytes_of ''HTTP/1.1 200 OK'', Some (length f), f) \<and>
    tcp_flags (tcp_header b' off) = (PSH OR ACK) \<and> ntohl (tcp_seq_num (tcp_header b' off)) = s_next (v1_send t) \<and>
    ntohl (tcp_ack_num (tcp_header b' off)) = r_next (v1_recv t) + word_of_int n \<and>
    view_v1 s' = (view_v1 s)(id_v1 b off \<mapsto>
      t\<lparr>v1_recv := (v1_recv t)\<lparr>r_next := r_next (v1_recv t) + word_of_int n\<rparr>,
        v1_send := (v1_send t)\<lparr>s_next := s_next (v1_send t) + word_of_int m\<rparr>\<rparr>)"
proof -
  let ?m = "ok_headers (length f) @ f"
  let ?t = "t\<lparr>v1_recv := (v1_recv t)\<lparr>r_next := r_next (v1_recv t) + word_of_int n\<rparr>\<rparr>"
  let ?t' = "?t\<lparr>v1_send := (v1_send t)\<lparr>s_next := s_next (v1_send t) + word_of_int (int (length ?m))\<rparr>\<rparr>"
  note get = listen_get [OF assms(2,5-8,10-20)]
  from dispatch_matches [OF assms(1,2), of e] get(1) assms(9) obtain s' where s':
    "tcp_dispatch_v1 e s b off = Some (0, segment_v1 b off (ack_reply ?t ?m), s')" "srv_inv_v1 s'"
    "view_v1 s' = (view_v1 s)(id_v1 b off \<mapsto> ?t')" by (auto simp: matches_v1_def)
  have body: "rp_body (ack_reply ?t ?m) = ?m" by (simp add: ack_reply_def)
  note valid = segment_v1_valid [OF assms(2-6), of "ack_reply ?t ?m", unfolded body, OF get(4)]
  show ?thesis
    using s' valid(5,8,9,10,12) read_ok_headers [of "length f" f] get(2)
    by (intro exI [of _ "segment_v1 b off (ack_reply ?t ?m)"] exI [of _ s'] exI [of _ "int (length ?m)"])
      (auto simp: ack_reply_def)
qed

definition get_packet :: buffer where
  "get_packet = [0x45, 0, 0, 0x3a, 0, 1, 0, 0, 0x40, 6, 0x66, 0xbb, 0xa, 0, 0, 1, 0xa, 0, 0, 2, 0xc7, 0x38, 0x1f, 0x90, 0, 0, 3, 0xe9, 0, 0, 0x13, 0x89, 0x50, 0x18, 0xfa, 0xf0, 0xc3, 0xeb, 0, 0, 0x47, 0x45, 0x54, 0x20, 0x2f, 0x20, 0x48, 0x54, 0x54, 0x50, 0x2f, 0x31, 0x2e, 0x31, 0xd, 0xa, 0xd, 0xa] @ replicate 1443 0"

definition sample_connection :: TCB_v1 where
  "sample_connection = (new_block (id_v1 get_packet 20))\<lparr>v1_state := TCP_ESTABLISHED,
     v1_send := \<lparr>s_unac = 5001, s_next = 5001, s_window = 64240, s_iss = 5000\<rparr>,
     v1_recv := \<lparr>r_next = 1001, r_window = 8192, r_irs = 1000\<rparr>\<rparr>"

definition sample_server :: server_v1 where
  "sample_server = \<lparr>blocks = [1 \<mapsto> sample_connection], allocs = 1, out_of_memory = (\<lambda>n. False), si_head = 1, si_size = 1\<rparr>"

lemma sample_server_ok:
  "srv_inv_v1 sample_server" "view_v1 sample_server (id_v1 get_packet 20) = Some sample_connection"
proof -
  have c: "v1_next sample_connection = 0" "v1_id sample_connection = id_v1 get_packet 20"
    by (simp_all add: sample_connection_def new_block_def)
  have i: "list_inv sample_server \<and> conn_list sample_server = [1]"
    using c by (intro list_invI) (auto simp: sample_server_def split: if_splits)
  then show "srv_inv_v1 sample_server" by (simp add: srv_inv_v1_def sample_server_def)
  have "sample_connection\<lparr>v1_next := 0\<rparr> = sample_connection" by (simp add: sample_connection_def new_block_def)
  then show "view_v1 sample_server (id_v1 get_packet 20) = Some sample_connection"
    using i c by (simp add: view_v1_def conns_v1_def block_id_v1_def contents_def sample_server_def)
qed

theorem http_get_served_v1_witness:
  "\<exists>b' s' m. tcp_dispatch_v1 sample_env sample_server get_packet 20 = Some (0, b', s') \<and>
     read_message (bytes_at b' 40 m) = Some (bytes_of ''HTTP/1.1 200 OK'', Some 5, bytes_of ''hello'')"
proof -
  have at: "at_v1 get_packet 20" by (simp add: at_v1_def get_packet_def peek8_def hlen_low_def)
  have v: "drop_bit 4 (peek8 get_packet 0) = 4" "peek8 get_packet 9 = 6" "20 = hlen_high (peek8 get_packet (20 + 12))"
    "18 = data_len_v1 get_packet 20" "\<not> f_rst (flags_of (peek8 get_packet (20 + 13)))"
    "\<not> f_fin (flags_of (peek8 get_packet (20 + 13)))" "bytes_at get_packet (20 + 20) 4 = bytes_of ''GET ''"
    "v1_state sample_connection = TCP_ESTABLISHED" "sint (r_next (v1_recv sample_connection)) + 18 < 2147483648"
    "sint (s_next (v1_send sample_connection)) + 1300 < 2147483648" "length (bytes_of ''hello'') = 5" by code_simp+
  have e: "http sample_env = sample_http" by (simp add: sample_env_def)
  have f: "he_file (http sample_env) ''./network/http/assets/Hello.html'' = Some (bytes_of ''hello'')"
    "length (bytes_of ''hello'') \<le> he_read (http sample_env)" "length (bytes_of ''hello'') \<le> 1200"
    "he_malloc_file (http sample_env)" "he_malloc_response (http sample_env)"
    using v(11) by (simp_all only: e sample_http_def http_env.simps)
  from http_get_served_v1 [OF sample_server_ok(1) at v(1-3) _ v(4) _ sample_server_ok(2) v(8,5,6,7) f v(9,10)] v(11)
  show ?thesis by (auto simp del: length_bytes_of)
qed

end
