(* ===== verification/V1_Main.thy ===== *)
theory V1_Main
  imports V1_Spec Tun
begin

text \<open>
  \<open>main.c\<close> and \<open>v_device/v_device.c\<close> of the original program: a received packet is classified,
  handled in place and, unless the handler asks for silence, written back with the length its IP
  header states; \<open>main\<close> sets up the device, reads packets into one buffer of 1501 bytes until a
  read fails and releases what it holds. System calls are inputs. In verbose mode a packet is
  printed before and after it is handled; the text goes to the console and is dropped here, but
  the reads it takes can fault. Shown: exactly which packets make the handler leave
  its buffer or overflow, that it never fails otherwise, and what \<open>main\<close> gives back and what it leaves allocated.
\<close>

section \<open>One packet\<close>

text \<open>\<open>write(fd, p, n)\<close> of the buffer: the kernel reads \<open>n\<close> bytes from it.\<close>

definition written :: "buffer \<Rightarrow> nat \<Rightarrow> byte list option" where
  "written b n = (if n \<le> length b then Some (take n b) else None)"

abbreviation (input) TCP_FATAL :: int where "TCP_FATAL \<equiv> 1"

text \<open>The return value, what was written to the device, the buffer and the connections.\<close>

definition parse_packet ::
  "bool \<Rightarrow> v1_env \<Rightarrow> server_v1 \<Rightarrow> buffer \<Rightarrow> (int \<times> byte list list \<times> buffer \<times> server_v1) option" where
  "parse_packet print e s b = do {
     op \<leftarrow> packet_deserialize b;
     v \<leftarrow> load8 b IP_version_ihl;
     let off = hlen_low v;
     (case op of
       IPV4_ICMP \<Rightarrow> do {
         b \<leftarrow> icmp_dispatch_v1 b off;
         l \<leftarrow> load16 b IP_len;
         w \<leftarrow> written b (unat (ntohs l));
         Some (0, [w], b, s)
       }
     | IPV4_TCP \<Rightarrow> do {
         _ \<leftarrow> (if print then packet_debug b off True else Some []);
         (err, b, s) \<leftarrow> tcp_dispatch_v1 e s b off;
         if err = TCP_FATAL then Some (1, [], b, s)
         else if err = TCP_SILENT then Some (0, [], b, s)
         else do {
           _ \<leftarrow> (if print then packet_debug b off False else Some []);
           l \<leftarrow> load16 b IP_len;
           w \<leftarrow> written b (unat (ntohs l));
           Some (0, [w], b, s)
         }
       }
     | PROTO_UNDF \<Rightarrow> Some (0, [], b, s)
     | IPV6 \<Rightarrow> Some (0, [], b, s)
     | VER_UNDF \<Rightarrow> Some (0, [], b, s))
   }"

section \<open>The loop\<close>

text \<open>
  One call of \<open>read\<close>: the packet, empty when \<open>read\<close> returned 0 or an error. The kernel delivers at
  most the 1500 bytes asked for; the rest of the buffer keeps what earlier packets left.
\<close>

record read_v1 =
  rd_packet :: "byte list"
  rd_env :: v1_env

definition received_v1 :: "buffer \<Rightarrow> byte list \<Rightarrow> buffer" where
  "received_v1 tu p = take 1500 p @ drop (length (take 1500 p)) tu"

text \<open>The loop of \<open>main\<close>: whether it was left because of an error, and the packets written, in order.\<close>

fun read_loop :: "bool \<Rightarrow> read_v1 list \<Rightarrow> buffer \<Rightarrow> server_v1 \<Rightarrow> byte list list \<Rightarrow> (bool \<times> byte list list \<times> server_v1) option" where
  "read_loop verbose [] tu s out = Some (False, out, s)"
| "read_loop verbose (r # rs) tu s out =
     (if rd_packet r = [] then Some (False, out, s)
      else do {
        (ret, w, tu, s) \<leftarrow> parse_packet verbose (rd_env r) s (received_v1 tu (rd_packet r));
        if ret \<noteq> 0 then Some (True, out @ w, s) else read_loop verbose rs tu s (out @ w)
      })"

section \<open>The virtual device and main\<close>

record Virtual_Device =
  vd_dev :: string
  vd_ip :: string
  vd_flags :: "tun_flag set"
  vd_fd :: int

definition virtual_device_print :: "Virtual_Device \<Rightarrow> string" where
  "virtual_device_print vd = ''Virtual device:'' @ NL @ ''    IP             : '' @ vd_ip vd @ NL @
     ''    Device name    : '' @ vd_dev vd @ NL @ ''    File desciptor : '' @ fmt_d (vd_fd vd) @ NL"

record v1_sys =
  calloc_ip :: bool
  calloc_name :: bool
  calloc_tu :: bool
  sys_open :: int
  sys_ioctl :: "tun_flag set \<Rightarrow> string \<Rightarrow> int"
  sys_ifr_name :: "string \<Rightarrow> string"
  sys_addr_add :: int
  sys_link_up :: int

text \<open>
  The name buffer has 17 bytes; the name the kernel leaves in \<open>ifr_name\<close> is copied there with its
  terminator.
\<close>

definition tun_alloc_v1 :: "v1_sys \<Rightarrow> string \<Rightarrow> tun_flag set \<Rightarrow> os \<Rightarrow> (int \<times> string \<times> os) option" where
  "tun_alloc_v1 y dev flags k = (
     let fd = sys_open y
     in if fd < 0 then Some (fd, dev, k)
        else let k = os_open fd k;
                 ifr_name = (if dev \<noteq> [] then take 16 dev else []);
                 err = sys_ioctl y flags ifr_name
        in if err < 0 then Some (err, dev, os_close fd k)
           else let name = sys_ifr_name y ifr_name
                in if length name < 17 then Some (fd, name, k) else None)"

text \<open>Formatting a command into \<open>cmd[256]\<close>.\<close>

definition command :: "string \<Rightarrow> string option" where
  "command c = (if length c < 256 then Some c else None)"

text \<open>The result 1 for an error, and the commands handed to the shell.\<close>

definition tun_init_v1 :: "v1_sys \<Rightarrow> Virtual_Device \<Rightarrow> (int \<times> string list) option" where
  "tun_init_v1 y vd = do {
     c1 \<leftarrow> command (''ip addr add '' @ vd_ip vd @ '' dev '' @ vd_dev vd);
     if sys_addr_add y = -1 then Some (1, [c1])
     else do {
       c2 \<leftarrow> command (''ip link set '' @ vd_dev vd @ '' up'');
       if sys_link_up y = -1 then Some (1, [c1, c2]) else Some (0, [c1, c2])
     }
   }"

definition virtual_device_destroy :: "Virtual_Device \<Rightarrow> os \<Rightarrow> os" where
  "virtual_device_destroy vd k = os_free True (os_free True (os_close (vd_fd vd) k))"

text \<open>
  \<open>memcpy(dst, argv[i], 16)\<close> into a zeroed block of 17 bytes: an argument is what can be read from
  its address on, terminator and whatever follows it included; the copied string ends at the first NUL.
\<close>

definition copy_arg :: "string \<Rightarrow> string option" where
  "copy_arg a = (if 16 \<le> length a then Some (takeWhile (\<lambda>c. c \<noteq> CHR 0x00) (take 16 a)) else None)"

text \<open>
  The heap blocks of the connections, and whether the list of reads comes to the failed read that
  ends the loop. Without one the program is still in its loop, the value \<open>RUNNING\<close>. What the loop
  allocated and did not free is counted when it is left.
\<close>

definition live_blocks :: "server_v1 \<Rightarrow> nat" where
  "live_blocks s = live_cells (blocks s) (allocs s)"

definition reads_end :: "read_v1 list \<Rightarrow> bool" where
  "reads_end rs = list_ex (\<lambda>r. rd_packet r = []) rs"

datatype exit_v1 = EXIT_SUCCESS "byte list list" server_v1 | EXIT_FAILURE | RUNNING "byte list list" server_v1

definition main_v1 ::
  "string list \<Rightarrow> v1_sys \<Rightarrow> (nat \<Rightarrow> bool) \<Rightarrow> read_v1 list \<Rightarrow> os \<Rightarrow> (exit_v1 \<times> os) option" where
  "main_v1 argv y failing rs k =
     (if length argv < 2 then Some (EXIT_FAILURE, k)
      else if \<not> calloc_ip y then Some (EXIT_FAILURE, k)
      else do {
        let k = os_alloc True k;
        ip_addr \<leftarrow> copy_arg (argv ! 1);
        if \<not> calloc_name y then Some (EXIT_FAILURE, os_free True k)
        else do {
          let k = os_alloc True k;
          tun_name \<leftarrow> (if length argv \<ge> 3 then copy_arg (argv ! 2) else Some []);
          (fd, dev, k) \<leftarrow> tun_alloc_v1 y tun_name {IFF_TUN, IFF_NO_PI} k;
          if fd < 0 then Some (EXIT_FAILURE, os_free True (os_free True k))
          else do {
            let vd = \<lparr>vd_dev = dev, vd_ip = ip_addr, vd_flags = {IFF_TUN, IFF_NO_PI}, vd_fd = fd\<rparr>;
            (r, cmds) \<leftarrow> tun_init_v1 y vd;
            if r \<noteq> 0 then Some (EXIT_FAILURE, virtual_device_destroy vd k)
            else if \<not> calloc_tu y then Some (EXIT_FAILURE, virtual_device_destroy vd k)
            else do {
              let k = os_alloc True k;
              let states = tcp_init_server_instance failing;
              (failed, out, states) \<leftarrow> read_loop (length argv \<ge> 4) rs (replicate 1501 0) states [];
              let k = os_hold (live_blocks states) k;
              if \<not> failed \<and> \<not> reads_end rs then Some (RUNNING out states, k)
              else do {
                let k = os_free True (virtual_device_destroy vd k);
                Some (if failed then EXIT_FAILURE else EXIT_SUCCESS out states, k)
              }
            }
          }
        }
      })"

section \<open>What a packet does\<close>

lemma written_len: "written b n = Some w \<Longrightarrow> length w = n"
  by (auto simp: written_def split: if_splits)

lemma segment_v1_len:
  assumes "at_v1 b off" "n = off + hlen_high (peek8 b (off + TCP_data_offset)) + int (length (rp_body r))" "n \<le> 1501"
  shows "unat (htons (peek16 (segment_v1 b off r) IP_len)) = nat n"
proof -
  note at = at_v1D [OF assms(1)]
  have u: "at_v1 (unsealed b off r) off" "length (unsealed b off r) = 1501"
    using at_v1_unsealed [OF assms(1), of r] assms(2,3) at_v1D(1) by auto
  have n: "0 \<le> n" using assms(2) at hlen_high_bounds [of "peek8 b (off + 12)"] by simp
  have "peek16 (segment_v1 b off r) 2 = peek16 (unsealed b off r) 2"
    using at u by (simp add: segment_v1_def sealed_def Let_def mem_simps)
  also have "\<dots> = htons (word_of_int n)"
    using at assms(2,3) hlen_high_bounds [of "peek8 b (off + 12)"]
    by (auto simp: unsealed_def Let_def in_range_def mem_simps)
  finally show ?thesis using n assms(3) by (simp add: unsigned_of_int take_bit_int_eq_self)
qed

lemma at_v1_segment:
  assumes "at_v1 b off" "off + hlen_high (peek8 b (off + TCP_data_offset)) + int (length (rp_body r)) \<le> 1501"
  shows "at_v1 (segment_v1 b off r) off"
proof -
  have u: "at_v1 (unsealed b off r) off" using assms by (intro at_v1_unsealed) simp_all
  note u = this at_v1D [OF this]
  have "peek8 (segment_v1 b off r) 0 = peek8 (unsealed b off r) 0"
    using u by (simp add: segment_v1_def sealed_def Let_def mem_simps)
  with u show ?thesis by (simp add: at_v1_def segment_v1_def sealed_def Let_def)
qed

lemma packet_deserialize_cases:
  assumes "length b = 1501" "packet_deserialize b = Some IPV4_TCP \<or> packet_deserialize b = Some IPV4_ICMP"
  shows "at_v1 b (ihl_of b)"
  using packet_deserialize_decides [of b] assms by (auto simp: at_v1_def split: if_splits)

text \<open>When the handler of a packet runs into undefined behaviour.\<close>

definition faulty_packet :: "bool \<Rightarrow> v1_env \<Rightarrow> server_v1 \<Rightarrow> buffer \<Rightarrow> bool" where
  "faulty_packet print e s b \<longleftrightarrow> (case packet_deserialize b of
     Some IPV4_ICMP \<Rightarrow> uint (ntohs (ipv4_len (ip_header b))) > 1501
   | Some IPV4_TCP \<Rightarrow> print \<and> uint (ntohs (ipv4_len (ip_header b))) > 1501 \<or>
       listen_v1 e (\<not> out_of_memory s (allocs s)) b (ihl_of b) (view_v1 s (id_v1 b (ihl_of b))) = None
   | _ \<Rightarrow> False)"

lemma parse_icmp:
  assumes "length b = 1501" "packet_deserialize b = Some IPV4_ICMP"
  shows "if uint (ntohs (peek16 b IP_len)) > 1501 then parse_packet print e s b = None
    else \<exists>w b'. parse_packet print e s b = Some (0, [w], b', s) \<and> length b' = 1501 \<and> length w \<le> 1501"
proof -
  have at: "at_v1 b (ihl_of b)" using assms packet_deserialize_cases by blast
  note off = at_v1D [OF at]
  have ld: "load8 b 0 = Some (peek8 b 0)" using assms(1) by (simp add: in_range_def mem_simps)
  have un: "unat x \<le> 1501 \<longleftrightarrow> \<not> uint x > 1501" for x :: u16
    using uint_nat [of x] by linarith
  show ?thesis
  proof (cases "uint (ntohs (peek16 b 2)) > 1501")
    case False
    from icmp_v1_defined [OF assms(1) refl off(2)] False obtain b' where
      b': "icmp_dispatch_v1 b (ihl_of b) = Some b'" "length b' = 1501" "peek16 b' 2 = peek16 b 2" by auto
    then have "parse_packet print e s b = Some (0, [take (unat (ntohs (peek16 b 2))) b'], b', s)"
      using assms(2) ld False by (simp add: parse_packet_def Let_def in_range_def mem_simps written_def un)
    with b' False un show ?thesis by auto
  next
    case True
    show ?thesis
    proof (cases "peek8 b (ihl_of b) = 8")
      case echo: True
      then have "icmp_dispatch_v1 b (ihl_of b) = None"
        using True assms(1) off by (intro icmp_v1_fault) (simp_all add: icmp_header_def ip_header_def)
      with True assms(2) ld show ?thesis by (simp add: parse_packet_def)
    next
      case False
      then have "icmp_dispatch_v1 b (ihl_of b) = Some b"
        using off by (simp add: icmp_dispatch_v1_def in_range_def mem_simps)
      with True assms ld show ?thesis
        by (simp add: parse_packet_def in_range_def mem_simps written_def un)
    qed
  qed
qed

text \<open>What is written back for a reply of the specification.\<close>

definition sent_v1 :: "buffer \<Rightarrow> v1_reply option \<Rightarrow> byte list list" where
  "sent_v1 b reply = (case reply of None \<Rightarrow> [] | Some r \<Rightarrow>
     [take (nat (ihl_of b + hlen_high (peek8 b (ihl_of b + TCP_data_offset)) + int (length (rp_body r))))
        (segment_v1 b (ihl_of b) r)])"

lemma printed:
  assumes "at_v1 b off" "print \<longrightarrow> uint (htons (peek16 b IP_len)) \<le> 1501"
  obtains x where "(if print then packet_debug b off inbound else Some []) = Some x"
proof -
  have "(if print then packet_debug b off inbound else Some []) \<noteq> None"
    using packet_debug_None [OF assms(1)] assms(2) by (cases print) auto
  then show thesis using that by blast
qed

lemma parse_tcp_run:
  assumes "srv_inv_v1 s" "length b = 1501" "packet_deserialize b = Some IPV4_TCP"
    and "print \<longrightarrow> uint (htons (peek16 b IP_len)) \<le> 1501"
    and spec: "listen_v1 e (\<not> out_of_memory s (allocs s)) b (ihl_of b) (view_v1 s (id_v1 b (ihl_of b))) = Some (reply, c)"
  shows "\<exists>b' s'. parse_packet print e s b = Some (0, sent_v1 b reply, b', s') \<and> length b' = 1501 \<and> srv_inv_v1 s' \<and>
    view_v1 s' = (view_v1 s)(id_v1 b (ihl_of b) := c)"
proof -
  have at: "at_v1 b (ihl_of b)" using assms packet_deserialize_cases by blast
  have ld: "load8 b 0 = Some (peek8 b 0)" using assms(2) by (simp add: in_range_def mem_simps)
  obtain x where x: "(if print then packet_debug b (ihl_of b) True else Some []) = Some x"
    using printed [OF at assms(4)] by blast
  from dispatch_matches [OF assms(1) at, of e] spec obtain code b' s' where
    run: "tcp_dispatch_v1 e s b (ihl_of b) = Some (code, b', s')" "length b' = 1501" "srv_inv_v1 s'"
      "view_v1 s' = (view_v1 s)(id_v1 b (ihl_of b) := c)"
    and rep: "case reply of None \<Rightarrow> code = 2 | Some r \<Rightarrow> code = 0 \<and> b' = segment_v1 b (ihl_of b) r"
    by (auto simp: matches_v1_def)
  show ?thesis
  proof (cases reply)
    case None
    then have "parse_packet print e s b = Some (0, [], b', s')"
      using run rep assms(3) ld x by (simp add: parse_packet_def)
    with run None show ?thesis by (simp add: sent_v1_def)
  next
    case (Some r)
    let ?n = "ihl_of b + hlen_high (peek8 b (ihl_of b + 12)) + int (length (rp_body r))"
    have n: "?n \<le> 1501" using listen_fits [OF at] spec Some by simp
    have l: "unat (htons (peek16 b' 2)) = nat ?n"
      using segment_v1_len [OF at refl n] rep Some by simp
    have "uint (htons (peek16 b' 2)) \<le> 1501" using l n uint_nat [of "htons (peek16 b' 2)"] by linarith
    then obtain y where y: "(if print then packet_debug b' (ihl_of b) False else Some []) = Some y"
      using printed [OF at_v1_segment [OF at n]] rep Some by auto
    have "parse_packet print e s b = Some (0, [take (nat ?n) b'], b', s')"
      using run rep assms(3) ld Some n l x y
      by (cases print) (simp_all add: parse_packet_def Let_def in_range_def mem_simps written_def nat_le_iff)
    with run rep Some show ?thesis by (simp add: sent_v1_def)
  qed
qed

lemma parse_tcp:
  assumes "srv_inv_v1 s" "length b = 1501" "packet_deserialize b = Some IPV4_TCP"
  shows "if print \<and> uint (ntohs (ipv4_len (ip_header b))) > 1501 \<or> listen_v1 e (\<not> out_of_memory s (allocs s)) b (ihl_of b) (view_v1 s (id_v1 b (ihl_of b))) = None
    then parse_packet print e s b = None
    else \<exists>out b' s'. parse_packet print e s b = Some (0, out, b', s') \<and> length b' = 1501 \<and> srv_inv_v1 s' \<and>
      length out \<le> 1 \<and> (\<forall>w \<in> set out. length w \<le> 1501)"
proof -
  let ?l = "listen_v1 e (\<not> out_of_memory s (allocs s)) b (ihl_of b) (view_v1 s (id_v1 b (ihl_of b)))"
  have at: "at_v1 b (ihl_of b)" using assms packet_deserialize_cases by blast
  have ld: "load8 b 0 = Some (peek8 b 0)" using assms(2) by (simp add: in_range_def mem_simps)
  consider "print" "uint (htons (peek16 b 2)) > 1501" | "\<not> (print \<and> uint (htons (peek16 b 2)) > 1501)" "?l = None"
    | reply c where "print \<longrightarrow> uint (htons (peek16 b 2)) \<le> 1501" "?l = Some (reply, c)" by fastforce
  then show ?thesis
  proof cases
    case 1
    with packet_debug_None [OF at] assms(3) ld show ?thesis by (simp add: parse_packet_def ip_header_def)
  next
    case 2
    with dispatch_matches [OF assms(1) at, of e] have "tcp_dispatch_v1 e s b (ihl_of b) = None"
      by (simp add: matches_v1_def)
    with 2 assms(3) ld show ?thesis by (simp add: parse_packet_def bind_eq_None_conv)
  next
    case 3
    from parse_tcp_run [OF assms 3] obtain b' s' where
      "parse_packet print e s b = Some (0, sent_v1 b reply, b', s')" "length b' = 1501" "srv_inv_v1 s'" by blast
    moreover have "length (sent_v1 b reply) \<le> 1" by (simp add: sent_v1_def split: option.split)
    moreover have "\<forall>w \<in> set (sent_v1 b reply). length w \<le> 1501"
      using 3(2) by (auto simp: sent_v1_def nat_le_iff min_le_iff_disj split: option.splits dest!: listen_fits [OF at])
    moreover have "\<not> (print \<and> uint (htons (peek16 b 2)) > 1501)" using 3(1) by auto
    ultimately show ?thesis using 3(2) by (auto simp: ip_header_def)
  qed
qed

lemma parse_packet_total:
  assumes "srv_inv_v1 s" "length b = 1501"
  shows "if faulty_packet print e s b then parse_packet print e s b = None
    else \<exists>out b' s'. parse_packet print e s b = Some (0, out, b', s') \<and> length b' = 1501 \<and> srv_inv_v1 s' \<and>
      length out \<le> 1 \<and> (\<forall>w \<in> set out. length w \<le> 1501)"
proof -
  have ld: "load8 b 0 = Some (peek8 b 0)" using assms(2) by (simp add: in_range_def mem_simps)
  obtain op where op: "packet_deserialize b = Some op" using packet_deserialize_decides [of b] assms(2) by simp
  show ?thesis
  proof (cases op)
    case IPV4_ICMP
    with parse_icmp [OF assms(2), of print e s] op assms(1) show ?thesis by (auto simp: faulty_packet_def ip_header_def split: if_splits)
  next
    case IPV4_TCP
    with parse_tcp [OF assms, of print e] op show ?thesis by (simp add: faulty_packet_def)
  qed (use op ld assms in \<open>simp_all add: faulty_packet_def parse_packet_def\<close>)
qed

section \<open>The loop and main\<close>

lemma length_received_v1: "length tu = 1501 \<Longrightarrow> length (received_v1 tu p) = 1501"
  by (simp add: received_v1_def)

text \<open>If the loop returns, it was left by a failed read, with a well-formed list and short packets written.\<close>

lemma read_loop_ok:
  assumes "srv_inv_v1 s" "length tu = 1501" "\<forall>w \<in> set out. length w \<le> 1501" "read_loop verbose rs tu s out = Some (failed, out', s')"
  shows "\<not> failed \<and> srv_inv_v1 s' \<and> (\<forall>w \<in> set out'. length w \<le> 1501) \<and> length out' \<le> length out + length rs"
  using assms
proof (induction rs arbitrary: tu s out)
  case (Cons r rs)
  let ?b = "received_v1 tu (rd_packet r)"
  show ?case
  proof (cases "rd_packet r = []")
    case False
    with Cons.prems(4) obtain ret w b1 s1 where run: "parse_packet verbose (rd_env r) s ?b = Some (ret, w, b1, s1)"
      by (auto simp: bind_eq_Some_conv)
    with parse_packet_total [OF Cons.prems(1), of ?b verbose "rd_env r"] length_received_v1 [OF Cons.prems(2)]
    have "ret = 0" "length b1 = 1501" "srv_inv_v1 s1" "length w \<le> 1" "\<forall>x \<in> set w. length x \<le> 1501"
      by (auto split: if_splits)
    moreover from this have "\<not> failed \<and> srv_inv_v1 s' \<and> (\<forall>w \<in> set out'. length w \<le> 1501) \<and>
        length out' \<le> length (out @ w) + length rs"
      using Cons.prems False run by (intro Cons.IH [of s1 b1 "out @ w"]) auto
    ultimately show ?thesis by simp
  qed (use Cons.prems in auto)
qed auto

lemma tun_alloc_v1_frame:
  assumes "\<And>n. length (sys_ifr_name y n) < 17"
  obtains fd n k' where "tun_alloc_v1 y dev fl k = Some (fd, n, k')"
    "fd < 0 \<Longrightarrow> k' = k" "0 \<le> fd \<Longrightarrow> fd = sys_open y \<and> k' = os_open fd k \<and> length n < 17"
proof -
  have "(if dev \<noteq> [] then take 16 dev else []) = take 16 dev" by simp
  then have "tun_alloc_v1 y dev fl k = (if sys_open y < 0 then Some (sys_open y, dev, k)
      else if sys_ioctl y fl (take 16 dev) < 0 then Some (sys_ioctl y fl (take 16 dev), dev, k)
      else Some (sys_open y, sys_ifr_name y (take 16 dev), os_open (sys_open y) k))"
    using assms by (simp add: tun_alloc_v1_def Let_def os_defs)
  with assms that show thesis by (auto split: if_splits)
qed

lemma tun_init_v1_defined:
  assumes "length (vd_ip vd) < 17" "length (vd_dev vd) < 17"
  obtains r cmds where "tun_init_v1 y vd = Some (r, cmds)"
proof -
  have "tun_init_v1 y vd \<noteq> None" using assms by (simp add: tun_init_v1_def command_def)
  then show thesis using that by auto
qed

lemma copy_arg_len: "copy_arg a = Some n \<Longrightarrow> length n < 17"
  using length_takeWhile_le [of "\<lambda>c. c \<noteq> CHR 0x00" "take 16 a"] by (auto simp: copy_arg_def split: if_splits)

lemma live_blocks_eq:
  assumes "srv_inv_v1 s"
  shows "live_blocks s = length (conn_list s)"
  using assms by (simp add: srv_inv_v1_def list_inv_def live_blocks_def live_cells_card distinct_card)

text \<open>Arguments from which fewer than the 16 bytes that \<open>main\<close> copies can be read.\<close>

definition arg_fault :: "string list \<Rightarrow> v1_sys \<Rightarrow> bool" where
  "arg_fault argv y \<longleftrightarrow> 2 \<le> length argv \<and> calloc_ip y \<and>
     (length (argv ! 1) < 16 \<or> calloc_name y \<and> 3 \<le> length argv \<and> length (argv ! 2) < 16)"

text \<open>The program once the device and the receive buffer are there; \<open>k1\<close> holds them.\<close>

definition served_v1 :: "bool \<Rightarrow> int \<Rightarrow> (nat \<Rightarrow> bool) \<Rightarrow> read_v1 list \<Rightarrow> os \<Rightarrow> (exit_v1 \<times> os) option" where
  "served_v1 verbose fd failing rs k1 = do {
     (failed, out, s) \<leftarrow> read_loop verbose rs (replicate 1501 0) (tcp_init_server_instance failing) [];
     let k2 = os_hold (live_blocks s) k1;
     if \<not> failed \<and> \<not> reads_end rs then Some (RUNNING out s, k2)
     else Some (if failed then EXIT_FAILURE else EXIT_SUCCESS out s,
       os_free True (os_free True (os_free True (os_close fd k2))))
   }"

lemma served_v1_held:
  assumes "os_blocks k1 = os_blocks k + 3" "os_fds k1 = add_mset fd (os_fds k)"
  shows "case served_v1 verbose fd failing rs k1 of
      None \<Rightarrow> read_loop verbose rs (replicate 1501 0) (tcp_init_server_instance failing) [] = None
    | Some (EXIT_FAILURE, k') \<Rightarrow> False
    | Some (EXIT_SUCCESS out s, k') \<Rightarrow> reads_end rs \<and> srv_inv_v1 s \<and> length out \<le> length rs \<and>
        (\<forall>w \<in> set out. length w \<le> 1501) \<and> os_fds k' = os_fds k \<and> os_blocks k' = os_blocks k + length (conn_list s)
    | Some (RUNNING out s, k') \<Rightarrow> \<not> reads_end rs \<and> srv_inv_v1 s \<and> length out \<le> length rs \<and>
        (\<forall>w \<in> set out. length w \<le> 1501) \<and> os_fds k' = add_mset fd (os_fds k) \<and>
        os_blocks k' = os_blocks k + 3 + length (conn_list s)"
proof (cases "read_loop verbose rs (replicate 1501 0) (tcp_init_server_instance failing) []")
  case (Some x)
  then obtain failed out s where
    x: "read_loop verbose rs (replicate 1501 0) (tcp_init_server_instance failing) [] = Some (failed, out, s)"
    by (cases x) auto
  from read_loop_ok [OF srv_inv_v1_start(1) _ _ x]
  have ok: "\<not> failed" "srv_inv_v1 s" "\<forall>w \<in> set out. length w \<le> 1501" "length out \<le> length rs" by auto
  with x assms live_blocks_eq [OF ok(2)] show ?thesis by (auto simp: served_v1_def os_defs Let_def)
qed (simp add: served_v1_def)

text \<open>With both names copied, the program is refused or ends up serving.\<close>

lemma main_v1_named:
  assumes "\<And>n. length (sys_ifr_name y n) < 17" and False: "\<not> (arg_fault argv y \<or> length argv < 2 \<or> \<not> calloc_ip y \<or> \<not> calloc_name y)"
  obtains (refused) k' where "main_v1 argv y failing rs k = Some (EXIT_FAILURE, k')"
      "os_fds k' = os_fds k" "os_blocks k' = os_blocks k"
  | (served) k1 where "os_blocks k1 = os_blocks k + 3" "os_fds k1 = add_mset (sys_open y) (os_fds k)"
      "main_v1 argv y failing rs k = served_v1 (length argv \<ge> 4) (sys_open y) failing rs k1"
proof -
  obtain ip where ip: "copy_arg (argv ! 1) = Some ip" using False by (auto simp: copy_arg_def arg_fault_def)
  have "(if length argv \<ge> 3 then copy_arg (argv ! 2) else Some []) \<noteq> None"
    using False by (auto simp: copy_arg_def arg_fault_def)
  then obtain nm where nm: "(if length argv \<ge> 3 then copy_arg (argv ! 2) else Some []) = Some nm" by blast
  let ?k = "os_alloc True (os_alloc True k)"
  obtain fd dev k1 where al: "tun_alloc_v1 y nm {IFF_TUN, IFF_NO_PI} ?k = Some (fd, dev, k1)" "fd < 0 \<Longrightarrow> k1 = ?k"
    "0 \<le> fd \<Longrightarrow> fd = sys_open y \<and> k1 = os_open fd ?k \<and> length dev < 17" using tun_alloc_v1_frame [OF assms(1)] by blast
  let ?vd = "\<lparr>vd_dev = dev, vd_ip = ip, vd_flags = {IFF_TUN, IFF_NO_PI}, vd_fd = fd\<rparr>"
  show thesis
  proof (cases "fd < 0")
    case True
    then show thesis using False ip nm al by (intro refused) (simp_all add: main_v1_def Let_def os_defs)
  next
    case fd: False
    obtain r cmds where r: "tun_init_v1 y ?vd = Some (r, cmds)"
      using tun_init_v1_defined [of ?vd] copy_arg_len [OF ip] al(3) fd by auto
    show thesis
    proof (cases "r \<noteq> 0 \<or> \<not> calloc_tu y")
      case True
      then show thesis using False ip nm al fd r
        by (intro refused) (auto simp: main_v1_def Let_def virtual_device_destroy_def os_defs)
    next
      case up: False
      then have "main_v1 argv y failing rs k = served_v1 (length argv \<ge> 4) (sys_open y) failing rs (os_alloc True k1)"
        using False ip nm al fd r by (simp add: main_v1_def served_v1_def Let_def virtual_device_destroy_def cong: if_cong)
      with al(3) fd show thesis by (intro served) (auto simp: os_defs)
    qed
  qed
qed

text \<open>The program is refused before it serves, ends up serving, or faults on an argument.\<close>

lemma main_v1_cases:
  assumes "\<And>n. length (sys_ifr_name y n) < 17"
  obtains (fault) "arg_fault argv y" "main_v1 argv y failing rs k = None"
  | (refused) k' where "\<not> arg_fault argv y" "main_v1 argv y failing rs k = Some (EXIT_FAILURE, k')"
      "os_fds k' = os_fds k" "os_blocks k' = os_blocks k"
  | (served) k1 where "\<not> arg_fault argv y" "os_blocks k1 = os_blocks k + 3" "os_fds k1 = add_mset (sys_open y) (os_fds k)"
      "main_v1 argv y failing rs k = served_v1 (length argv \<ge> 4) (sys_open y) failing rs k1"
proof -
  consider (bad) "arg_fault argv y" | (early) "\<not> arg_fault argv y" "length argv < 2 \<or> \<not> calloc_ip y \<or> \<not> calloc_name y"
    | (go) "\<not> (arg_fault argv y \<or> length argv < 2 \<or> \<not> calloc_ip y \<or> \<not> calloc_name y)" by blast
  then show thesis
  proof cases
    case bad
    moreover from this have "main_v1 argv y failing rs k = None" by (auto simp: main_v1_def arg_fault_def copy_arg_def)
    ultimately show thesis by (rule fault)
  next
    case early
    then have "main_v1 argv y failing rs k =
        Some (EXIT_FAILURE, if length argv < 2 \<or> \<not> calloc_ip y then k else os_free True (os_alloc True k))"
      by (auto simp: main_v1_def arg_fault_def copy_arg_def)
    with early show thesis by (intro refused) (auto simp: os_defs)
  next
    case go
    then show thesis
      by (cases rule: main_v1_named [where failing = failing and rs = rs and k = k, OF assms])
        (use go in \<open>auto intro: refused served\<close>)
  qed
qed

section \<open>Properties\<close>

text \<open>
  C14: exactly which packets break the original program. The handler of one packet runs into
  undefined behaviour if and only if the packet is ICMP and its length field exceeds the buffer, so that the checksum
  or the write reads outside of it, or it is TCP and the TCP specification is undefined on it or, in verbose mode, its length field
  exceeds the buffer. Every other packet,
  malformed ones included, is handled with return value 0: at most one packet of at most 1501
  bytes is written back and the connection list stays well formed and free of leaks.
\<close>

theorem parse_packet_faults:
  assumes "srv_inv_v1 s" "length b = 1501"
  shows "if (case packet_deserialize b of
         Some IPV4_ICMP \<Rightarrow> uint (ntohs (ipv4_len (ip_header b))) > 1501
       | Some IPV4_TCP \<Rightarrow> print \<and> uint (ntohs (ipv4_len (ip_header b))) > 1501 \<or>
       listen_v1 e (\<not> out_of_memory s (allocs s)) b (ihl_of b) (view_v1 s (id_v1 b (ihl_of b))) = None
       | _ \<Rightarrow> False)
    then parse_packet print e s b = None
    else \<exists>out b' s'. parse_packet print e s b = Some (0, out, b', s') \<and> length b' = 1501 \<and> srv_inv_v1 s' \<and>
      length out \<le> 1 \<and> (\<forall>w \<in> set out. length w \<le> 1501)"
  using parse_packet_total [OF assms, of print e] unfolding faulty_packet_def .

theorem parse_packet_faults_witness:
  "parse_packet False sample_env sample_server (poke16 ping 2 0xffff @ [0]) = None \<and>
   (\<exists>out b' s'. parse_packet False sample_env sample_server (ping @ [0]) = Some (0, out, b', s') \<and> length out \<le> 1)"
proof -
  have "packet_deserialize (poke16 ping 2 0xffff @ [0]) = Some IPV4_ICMP"
    "uint (ntohs (ipv4_len (ip_header (poke16 ping 2 0xffff @ [0])))) = 65535"
    "packet_deserialize (ping @ [0]) = Some IPV4_ICMP" "uint (ntohs (ipv4_len (ip_header (ping @ [0])))) = 28"
    by code_simp+
  then show ?thesis
    using parse_packet_faults [OF sample_server_ok(1), of "poke16 ping 2 0xffff @ [0]" False sample_env]
      parse_packet_faults [OF sample_server_ok(1), of "ping @ [0]" False sample_env]
    by (auto simp: ping_def)
qed

text \<open>
  C33: what the original \<open>main\<close> holds when it ends. It faults whenever fewer than 16 bytes
  can be read from the address of an argument it copies; otherwise, provided that the kernel returns an interface
  name of at most 16 characters, only the handling of a packet can fault. Every failure exit has given back all descriptors
  and blocks. A normal exit, which only a failed read causes, has given back the device, the names and the receive buffer, but the control block
  of every connection still in the list stays allocated. While reads succeed the program is in its loop, holding
  these too. It wrote at most one packet of at most 1501 bytes per packet read.
\<close>

theorem main_v1_resources:
  assumes "\<And>n. length (sys_ifr_name y n) < 17"
  shows "case main_v1 argv y failing rs k of
      None \<Rightarrow> arg_fault argv y \<or>
        read_loop (length argv \<ge> 4) rs (replicate 1501 0) (tcp_init_server_instance failing) [] = None
    | Some (r, k') \<Rightarrow> \<not> arg_fault argv y \<and> (case r of
        EXIT_FAILURE \<Rightarrow> os_fds k' = os_fds k \<and> os_blocks k' = os_blocks k
      | EXIT_SUCCESS out s \<Rightarrow> reads_end rs \<and> srv_inv_v1 s \<and> length out \<le> length rs \<and>
          (\<forall>w \<in> set out. length w \<le> 1501) \<and> os_fds k' = os_fds k \<and> os_blocks k' = os_blocks k + length (conn_list s)
      | RUNNING out s \<Rightarrow> \<not> reads_end rs \<and> srv_inv_v1 s \<and> length out \<le> length rs \<and>
          (\<forall>w \<in> set out. length w \<le> 1501) \<and> os_fds k' = add_mset (sys_open y) (os_fds k) \<and>
          os_blocks k' = os_blocks k + 3 + length (conn_list s))"
using assms
proof (cases rule: main_v1_cases [where argv = argv and failing = failing and rs = rs and k = k])
  case (served k1)
  with served_v1_held [OF served(2,3), of "length argv \<ge> 4" rs failing] show ?thesis
    by (simp split: option.splits prod.splits exit_v1.splits)
qed simp_all

definition sample_sys :: v1_sys where
  "sample_sys = \<lparr>calloc_ip = True, calloc_name = True, calloc_tu = True, sys_open = 3, sys_ioctl = (\<lambda>f n. 0),
     sys_ifr_name = take 15, sys_addr_add = 0, sys_link_up = 0\<rparr>"

theorem main_v1_resources_witness:
  "main_v1 [''server'', ''10.8.0.1''] sample_sys (\<lambda>n. False) [] \<lparr>os_fds = {#}, os_blocks = 0, os_sent = []\<rparr> = None \<and>
   (\<exists>r k'. main_v1 [''server'', ''10.8.0.1'' @ replicate 8 (CHR 0x00), ''tun0'' @ replicate 12 (CHR 0x00)] sample_sys (\<lambda>n. False)
     [\<lparr>rd_packet = [], rd_env = sample_env\<rparr>] \<lparr>os_fds = {#}, os_blocks = 0, os_sent = []\<rparr> = Some (r, k') \<and> os_fds k' = {#})"
proof
  let ?k = "\<lparr>os_fds = {#}, os_blocks = 0, os_sent = []\<rparr>"
  have n: "length (sys_ifr_name sample_sys n) < 17" for n by (simp add: sample_sys_def min_def)
  note res = main_v1_resources [of sample_sys, OF n]
  have "arg_fault [''server'', ''10.8.0.1''] sample_sys" by (simp add: arg_fault_def sample_sys_def)
  with res [of "[''server'', ''10.8.0.1'']" "[]" "\<lambda>n. False" ?k]
  show "main_v1 [''server'', ''10.8.0.1''] sample_sys (\<lambda>n. False) [] ?k = None" by (auto split: option.splits)
  let ?a = "[''server'', ''10.8.0.1'' @ replicate 8 (CHR 0x00), ''tun0'' @ replicate 12 (CHR 0x00)]"
  let ?rs = "[\<lparr>rd_packet = [], rd_env = sample_env\<rparr>]"
  have "\<not> arg_fault ?a sample_sys" "reads_end ?rs" by (simp_all add: arg_fault_def reads_end_def)
  note run = res [of ?a ?rs "\<lambda>n. False" ?k]
  obtain r k' where "main_v1 ?a sample_sys (\<lambda>n. False) ?rs ?k = Some (r, k')"
    using run \<open>\<not> arg_fault ?a sample_sys\<close> by (cases "main_v1 ?a sample_sys (\<lambda>n. False) ?rs ?k") auto
  with run \<open>reads_end ?rs\<close>
  show "\<exists>r k'. main_v1 ?a sample_sys (\<lambda>n. False) ?rs ?k = Some (r, k') \<and> os_fds k' = {#}"
    by (cases r) auto
qed

end
