(* ===== verification/V1_Wire.thy ===== *)
theory V1_Wire
  imports V1_Main Client
begin

text \<open>
  The original server at the packet level: what a packet in wire format does when it is read into
  the receive buffer, and that the bytes written back are again the wire format of a packet, with
  the endpoints exchanged.
\<close>

definition flow_v1 :: "Packet \<Rightarrow> TCP_Connection_ID" where
  "flow_v1 p = \<lparr>c_src_ip = pk_src p, c_src_port = ucast (htons (word_of_int (pk_sport p)) :: u16),
     c_dst_ip = pk_dst p, c_dst_port = ucast (htons (word_of_int (pk_dport p)) :: u16)\<rparr>"

definition answer_to :: "Packet \<Rightarrow> v1_reply \<Rightarrow> Packet" where
  "answer_to p r = \<lparr>pk_src = pk_dst p, pk_dst = pk_src p, pk_sport = pk_dport p, pk_dport = pk_sport p,
     pk_flags = rp_flags r, pk_seq = uint (rp_seq r), pk_ack = uint (rp_ack r), pk_load = rp_body r\<rparr>"

lemma received_v1_prefix: "length x \<le> 1500 \<Longrightarrow> received_v1 tu x = x @ drop (length x) tu"
  by (simp add: received_v1_def)

lemma wire_delivered:
  assumes "wire_format p x" "length tu = 1501" "b = received_v1 tu x"
  shows "length b = 1501" "packet_deserialize b = Some IPV4_TCP" "ihl_of b = 20" "at_v1 b 20"
    and "id_v1 b 20 = flow_v1 p" "flags_v1 b 20 = flags_of (pk_flags p)" "data_len_v1 b 20 = int (length (pk_load p))"
    and "hlen_high (peek8 b (20 + TCP_data_offset)) = 20" "htonl (peek32 b (20 + TCP_seq_num)) = word_of_int (pk_seq p)"
    and "htonl (peek32 b (20 + TCP_ack_num)) = word_of_int (pk_ack p)" "bytes_at b 40 (int (length (pk_load p))) = pk_load p"
    and "uint (htons (peek16 b IP_len)) \<le> 1501" "drop_bit 4 (peek8 b 0) = 4" "peek8 b IP_proto = 6"
    and "peek32 b IP_src = pk_src p" "peek32 b IP_dst = pk_dst p" "peek16 b (20 + TCP_src_port) = htons (word_of_int (pk_sport p))"
    and "peek16 b (20 + TCP_dst_port) = htons (word_of_int (pk_dport p))" "peek8 b 0 = 0x45"
proof -
  have b: "b = x @ drop (length x) tu"
    using assms(3) received_v1_prefix wire_fields(2) [OF assms(1) refl] by simp
  note w = wire_fields [OF assms(1) b]
  show l: "length b = 1501" using b assms(2) w(1,2) by simp
  show ihl: "ihl_of b = 20" and h: "hlen_high (peek8 b (20 + 12)) = 20" using w(4,13) by (simp_all add: hlen_low_def hlen_high_def)
  show at: "at_v1 b 20" using l ihl by (simp add: at_v1_def)
  show d: "drop_bit 4 (peek8 b 0) = 4" "peek8 b 9 = 6" using w(4,5) by simp_all
  show "packet_deserialize b = Some IPV4_TCP"
    using packet_deserialize_decides [of b] l d ihl by (simp add: ip_header_def)
  show "id_v1 b 20 = flow_v1 p" using w(7-10) by (simp add: id_v1_def flow_v1_def)
  show "data_len_v1 b 20 = int (length (pk_load p))" using w(6) h by (simp add: data_len_v1_def)
  show "uint (htons (peek16 b 2)) \<le> 1501" using w(2,3,6) by simp
  show "flags_of (peek8 b (20 + 13)) = flags_of (pk_flags p)" using w(14) by simp
  show "peek8 b 0 = 0x45" "peek32 b 12 = pk_src p" "peek32 b 16 = pk_dst p" "peek16 b (20 + 0) = htons (word_of_int (pk_sport p))"
    "peek16 b (20 + 2) = htons (word_of_int (pk_dport p))" "bytes_at b 40 (int (length (pk_load p))) = pk_load p"
    "htonl (peek32 b (20 + 4)) = word_of_int (pk_seq p)" "htonl (peek32 b (20 + 8)) = word_of_int (pk_ack p)"
    using w(4,7-12,15) by simp_all
qed

text \<open>What the dispatcher sees of a packet.\<close>

definition carries_v1 :: "Packet \<Rightarrow> buffer \<Rightarrow> bool" where
  "carries_v1 p b \<longleftrightarrow> at_v1 b 20 \<and> id_v1 b 20 = flow_v1 p \<and> flags_v1 b 20 = flags_of (pk_flags p) \<and>
     data_len_v1 b 20 = int (length (pk_load p)) \<and> hlen_high (peek8 b (20 + TCP_data_offset)) = 20 \<and>
     htonl (peek32 b (20 + TCP_seq_num)) = word_of_int (pk_seq p) \<and>
     htonl (peek32 b (20 + TCP_ack_num)) = word_of_int (pk_ack p) \<and>
     bytes_at b 40 (int (length (pk_load p))) = pk_load p"

lemma wire_carries: "wire_format p x \<Longrightarrow> length tu = 1501 \<Longrightarrow> carries_v1 p (received_v1 tu x)"
  using wire_delivered(4-11) [of p x tu] by (simp add: carries_v1_def)

lemma wire_answer:
  assumes "wire_format p x" "length tu = 1501" "b = received_v1 tu x" "length (rp_body r) \<le> 1460"
  shows "sent_v1 b (Some r) = [take (40 + length (rp_body r)) (segment_v1 b 20 r)]"
    and "wire_format (answer_to p r) (take (40 + length (rp_body r)) (segment_v1 b 20 r))"
proof -
  note del = wire_delivered [OF assms(1-3)]
  let ?y = "segment_v1 b 20 r" and ?n = "40 + length (rp_body r)"
  show "sent_v1 b (Some r) = [take ?n ?y]" using del(3,8) by (simp add: sent_v1_def nat_add_distrib)
  have fit: "20 + 20 + int (length (rp_body r)) \<le> 1501" using assms(4) by simp
  note v = segment_v1_valid [OF del(4,13,14) del(8) [symmetric] order.refl fit]
  have ly: "length ?y = 1501" using length_segment_v1 [OF del(4), of r] del(8) fit by simp
  let ?t = "take ?n ?y"
  have lt: "length ?t = ?n" using ly assms(4) by simp
  have pre: "peek8 ?t i = peek8 ?y i" "peek16 ?t i = peek16 ?y i" "peek32 ?t i = peek32 ?y i" if "0 \<le> i" "i < 37" for i
    using that lt peek_prefix [of i ?t "drop ?n ?y"] by simp_all
  have rng: "packet_in_range p" using assms(1) by (simp add: wire_format_def)
  have seq: "peek32 ?y 24 = htonl (rp_seq r)" "peek32 ?y 28 = htonl (rp_ack r)"
    using v(8,9) htonl_htonl [of "peek32 ?y 24"] htonl_htonl [of "peek32 ?y 28"] by (simp_all add: tcp_header_def)
  have "bytes_at ?t 40 (int (length (rp_body r))) = rp_body r" using v(12) by (simp add: bytes_at_def drop_take)
  moreover have "packet_in_range (answer_to p r)"
    using rng assms(4) uint_lt2p [of "rp_seq r"] uint_lt2p [of "rp_ack r"] by (simp add: packet_in_range_def answer_to_def)
  ultimately show "wire_format (answer_to p r) ?t"
    using lt v(3-7,10,13-15) seq del(15-19)
    by (simp add: wire_format_def answer_to_def pre ip_header_def tcp_header_def set_hlen_high_def)
qed

end
