(* ===== verification/V1_Conversation.thy ===== *)
theory V1_Conversation
  imports V1_Wire
begin

text \<open>
  The client of theory \<open>Client\<close> against the original server: a packet the client sends is read by
  the server's loop, and what the server writes back is what scapy may hand to the client.
  Scapy is a parameter with the contract \<open>scapy_ok\<close>.
\<close>

section \<open>Client and server connected\<close>

record net_v1 =
  nt_srv :: server_v1
  nt_buf :: buffer
  nt_time :: nat

text \<open>One packet on its way to the server and the packets written back; \<open>e k\<close> is the server's surroundings for its packet number \<open>k\<close>.\<close>

definition deliver_v1 ::
  "bool \<Rightarrow> (Packet \<Rightarrow> byte list option) \<Rightarrow> (nat \<Rightarrow> v1_env) \<Rightarrow> net_v1 \<Rightarrow> Packet \<Rightarrow> (byte list list \<times> net_v1) option" where
  "deliver_v1 verbose raw e n p = do {
     x \<leftarrow> raw p;
     (ret, w, tu, s) \<leftarrow> parse_packet verbose (e (nt_time n)) (nt_srv n) (received_v1 (nt_buf n) x);
     if ret = 0 then Some (w, \<lparr>nt_srv = s, nt_buf = tu, nt_time = nt_time n + 1\<rparr>) else None
   }"

definition sr1_v1 ::
  "bool \<Rightarrow> (Packet \<Rightarrow> byte list option) \<Rightarrow> (byte list \<Rightarrow> Packet option) \<Rightarrow> (Packet \<Rightarrow> Packet \<Rightarrow> bool) \<Rightarrow>
   (nat \<Rightarrow> v1_env) \<Rightarrow> net_v1 sr1" where
  "sr1_v1 verbose raw dissect answers e n p = do {
     (w, n) \<leftarrow> deliver_v1 verbose raw e n p;
     rs \<leftarrow> those (map dissect w);
     Some (find (answers p) rs, n)
   }"

definition send_v1 :: "bool \<Rightarrow> (Packet \<Rightarrow> byte list option) \<Rightarrow> (nat \<Rightarrow> v1_env) \<Rightarrow> net_v1 send" where
  "send_v1 verbose raw e n p = do {
     (w, n) \<leftarrow> deliver_v1 verbose raw e n p;
     Some n
   }"

definition net_ok :: "net_v1 \<Rightarrow> bool" where
  "net_ok n \<longleftrightarrow> srv_inv_v1 (nt_srv n) \<and> length (nt_buf n) = 1501"

text \<open>
  The reply and the connection afterwards may depend on fields of the packet the client leaves to
  scapy; \<open>Q\<close> is what is known of them.
\<close>

definition listens ::
  "(nat \<Rightarrow> v1_env) \<Rightarrow> net_v1 \<Rightarrow> Packet \<Rightarrow> (v1_reply option \<Rightarrow> TCB_v1 option \<Rightarrow> bool) \<Rightarrow> bool" where
  "listens e n p Q \<longleftrightarrow> (\<forall>b. carries_v1 p b \<longrightarrow> (\<exists>reply c.
     listen_v1 (e (nt_time n)) (\<not> out_of_memory (nt_srv n) (allocs (nt_srv n))) b 20 (view_v1 (nt_srv n) (flow_v1 p)) =
       Some (reply, c) \<and> Q reply c))"

lemma deliver_v1_run:
  assumes "scapy_ok raw dissect answers" "net_ok n" "packet_in_range p" "listens e n p Q"
  shows "\<exists>w n' reply c. deliver_v1 verbose raw e n p = Some (w, n') \<and> net_ok n' \<and> nt_time n' = nt_time n + 1 \<and>
    view_v1 (nt_srv n') = (view_v1 (nt_srv n))(flow_v1 p := c) \<and> Q reply c \<and>
    (\<forall>r. reply = Some r \<longrightarrow> length (rp_body r) \<le> 1460 \<longrightarrow> those (map dissect w) = Some [answer_to p r])"
proof -
  from assms(1,3) obtain x where x: "raw p = Some x" "wire_format p x" by (auto simp: scapy_ok_def)
  have inv: "srv_inv_v1 (nt_srv n)" "length (nt_buf n) = 1501" using assms(2) by (auto simp: net_ok_def)
  define b where "b = received_v1 (nt_buf n) x"
  note del = wire_delivered [OF x(2) inv(2) b_def]
  from assms(4) wire_carries [OF x(2) inv(2), folded b_def] obtain reply c where q: "Q reply c"
    and l: "listen_v1 (e (nt_time n)) (\<not> out_of_memory (nt_srv n) (allocs (nt_srv n))) b 20
      (view_v1 (nt_srv n) (flow_v1 p)) = Some (reply, c)" unfolding listens_def by blast
  have "listen_v1 (e (nt_time n)) (\<not> out_of_memory (nt_srv n) (allocs (nt_srv n))) b (ihl_of b)
      (view_v1 (nt_srv n) (id_v1 b (ihl_of b))) = Some (reply, c)" unfolding del(3,5) by (rule l)
  from parse_tcp_run [OF inv(1) del(1,2) _ this, of verbose] del(3,5,12) obtain b' s' where
    run: "parse_packet verbose (e (nt_time n)) (nt_srv n) b = Some (0, sent_v1 b reply, b', s')" "length b' = 1501"
      "srv_inv_v1 s'" "view_v1 s' = (view_v1 (nt_srv n))(flow_v1 p := c)" by auto
  have "those (map dissect (sent_v1 b reply)) = Some [answer_to p r]" if "reply = Some r" "length (rp_body r) \<le> 1460" for r
    using wire_answer [OF x(2) inv(2) b_def that(2)] that(1) assms(1) by (simp add: scapy_ok_def)
  with run x q show ?thesis
    by (intro exI [of _ "sent_v1 b reply"] exI [of _ "\<lparr>nt_srv = s', nt_buf = b', nt_time = nt_time n + 1\<rparr>"] exI [of _ reply] exI [of _ c])
      (simp add: deliver_v1_def net_ok_def flip: b_def)
qed

lemma sr1_v1_answered:
  assumes "scapy_ok raw dissect answers" "net_ok n" "packet_in_range p" "listens e n p (\<lambda>reply c. \<exists>r. reply = Some r \<and> Q r c)"
    and "\<forall>r c. Q r c \<longrightarrow> length (rp_body r) \<le> 1460 \<and> answering p (answer_to p r)"
  shows "\<exists>r c n'. sr1_v1 verbose raw dissect answers e n p = Some (Some (answer_to p r), n') \<and> net_ok n' \<and>
    nt_time n' = nt_time n + 1 \<and> view_v1 (nt_srv n') = (view_v1 (nt_srv n))(flow_v1 p := c) \<and> Q r c"
proof -
  from deliver_v1_run [where verbose = verbose, OF assms(1-4)]
  obtain w n' r c where n': "deliver_v1 verbose raw e n p = Some (w, n')" "net_ok n'" "nt_time n' = nt_time n + 1"
      "view_v1 (nt_srv n') = (view_v1 (nt_srv n))(flow_v1 p := c)" "Q r c"
    and w: "length (rp_body r) \<le> 1460 \<longrightarrow> those (map dissect w) = Some [answer_to p r]" by blast
  from assms(5) n'(5) have ok: "length (rp_body r) \<le> 1460" "answering p (answer_to p r)" by auto
  then have "answers p (answer_to p r)" using assms(1) by (simp add: scapy_ok_def)
  with n'(1) w ok have "sr1_v1 verbose raw dissect answers e n p = Some (Some (answer_to p r), n')" by (simp add: sr1_v1_def)
  with n' show ?thesis by blast
qed

lemma send_v1_run:
  assumes "scapy_ok raw dissect answers" "net_ok n" "packet_in_range p" "listens e n p Q"
  shows "\<exists>n' reply c. send_v1 verbose raw e n p = Some n' \<and> net_ok n' \<and> nt_time n' = nt_time n + 1 \<and>
    view_v1 (nt_srv n') = (view_v1 (nt_srv n))(flow_v1 p := c) \<and> Q reply c"
proof -
  from deliver_v1_run [where verbose = verbose, OF assms]
  obtain w n' reply c where n': "deliver_v1 verbose raw e n p = Some (w, n')" "net_ok n'" "nt_time n' = nt_time n + 1"
      "view_v1 (nt_srv n') = (view_v1 (nt_srv n))(flow_v1 p := c)" "Q reply c" by blast
  then have "send_v1 verbose raw e n p = Some n'" by (simp add: send_v1_def)
  with n' show ?thesis by blast
qed

section \<open>The client's operations\<close>

text \<open>The flow of a client, and client and server agreeing on an open connection.\<close>

definition client_flow :: "TCPClient \<Rightarrow> TCP_Connection_ID" where
  "client_flow c = flow_v1 (packet_of c 0 0 0 [])"

definition in_step :: "TCPClient \<Rightarrow> TCB_v1 \<Rightarrow> bool" where
  "in_step c t \<longleftrightarrow> cl_state c = ESTABLISHED \<and> v1_state t = TCP_ESTABLISHED \<and>
     r_next (v1_recv t) = word_of_int (my_seq c) \<and> s_next (v1_send t) = word_of_int (their_seq c) \<and>
     0 \<le> cl_src_port c \<and> cl_src_port c < 65536 \<and> 0 \<le> cl_dst_port c \<and> cl_dst_port c < 65536 \<and>
     0 \<le> my_seq c \<and> my_seq c < 2147483648 \<and> 0 \<le> their_seq c \<and> their_seq c < 2147483648"

lemma sint_of_small: "0 \<le> k \<Longrightarrow> k < 2147483648 \<Longrightarrow> sint (word_of_int k :: u32) = k"
  by (simp add: signed_of_int signed_take_bit_int_eq_self)

lemma flow_v1_packet_of [simp]: "flow_v1 (packet_of c f q a l) = client_flow c"
  by (simp add: client_flow_def flow_v1_def packet_of_def)

lemma client_flow_update [simp]:
  "client_flow (c\<lparr>my_seq := q\<rparr>) = client_flow c" "client_flow (c\<lparr>their_seq := q\<rparr>) = client_flow c"
  "client_flow (c\<lparr>cl_state := st\<rparr>) = client_flow c"
  by (simp_all add: client_flow_def flow_v1_def packet_of_def)

text \<open>The specification on the client's packets.\<close>

lemma listen_client_syn:
  assumes "carries_v1 (packet_of c 0x02 1000 0 []) b" "uint (tcp_get_ticks e) < 2147483647"
  shows "\<exists>t. listen_v1 e True b 20 None = Some (Some (syn_reply t), Some t) \<and> v1_state t = TCP_SYN_RECEIVED \<and>
    r_next (v1_recv t) = 1001 \<and> s_iss (v1_send t) = tcp_get_ticks e \<and> s_next (v1_send t) = tcp_get_ticks e + 1"
proof -
  have "tcp_get_ticks e \<noteq> 0x7fffffff" using assms(2) by auto
  with assms(1) have "syn_defined e b 20" by (simp add: syn_defined_def carries_v1_def packet_of_def)
  with assms(1) show ?thesis
    by (simp add: listen_v1_def unknown_v1_def carries_v1_def packet_of_def flags_of_client syn_block_def new_block_def Let_def)
qed

lemma listen_client_ack:
  assumes "carries_v1 (packet_of c 0x10 q a []) b" "v1_state t = TCP_SYN_RECEIVED" "s_next (v1_send t) = word_of_int a"
  shows "listen_v1 e mem b 20 (Some t) =
    Some (None, Some (t\<lparr>v1_state := TCP_ESTABLISHED, v1_send := (v1_send t)\<lparr>s_unac := s_next (v1_send t)\<rparr>\<rparr>))"
  using assms by (simp add: listen_v1_def known_v1_def carries_v1_def packet_of_def flags_of_client Let_def)

lemma listen_client_fin:
  assumes "carries_v1 (packet_of c 0x11 q a []) b" "v1_state t = TCP_ESTABLISHED"
  defines "u \<equiv> t\<lparr>v1_recv := (v1_recv t)\<lparr>r_next := word_of_int q + 1\<rparr>\<rparr>"
  shows "listen_v1 e mem b 20 (Some t) = Some (Some (ack_reply u []), Some (u\<lparr>v1_state := TCP_CLOSE_WAIT\<rparr>))"
  using assms by (simp add: listen_v1_def known_v1_def carries_v1_def packet_of_def flags_of_client Let_def)

lemma listen_client_final:
  assumes "carries_v1 (packet_of c 0x10 q a []) b" "v1_state t = TCP_CLOSE_WAIT"
  shows "listen_v1 e mem b 20 (Some t) = Some (None, Some t)"
  using assms by (simp add: listen_v1_def known_v1_def carries_v1_def packet_of_def flags_of_client Let_def)

text \<open>
  The server as a peer of the client's handshake: \<open>m\<close> is its connections and \<open>k\<close> the number of
  packets it has received when the handshake begins.
\<close>

definition listening_v1 where
  "listening_v1 raw dissect answers e m k c iss n \<longleftrightarrow> scapy_ok raw dissect answers \<and> net_ok n \<and>
     0 \<le> cl_src_port c \<and> cl_src_port c < 65536 \<and> 0 \<le> cl_dst_port c \<and> cl_dst_port c < 65536 \<and> my_seq c = 1000 \<and>
     nt_time n = k \<and> view_v1 (nt_srv n) = m \<and> m (client_flow c) = None \<and> \<not> out_of_memory (nt_srv n) (allocs (nt_srv n)) \<and>
     tcp_get_ticks (e k) = iss \<and> uint iss < 2147483647"

definition half_open_v1 where
  "half_open_v1 raw dissect answers m k c iss n \<longleftrightarrow> scapy_ok raw dissect answers \<and> net_ok n \<and>
     0 \<le> cl_src_port c \<and> cl_src_port c < 65536 \<and> 0 \<le> cl_dst_port c \<and> cl_dst_port c < 65536 \<and> my_seq c = 1000 \<and>
     nt_time n = k + 1 \<and> uint iss < 2147483647 \<and>
     (\<exists>t. view_v1 (nt_srv n) = m(client_flow c \<mapsto> t) \<and> v1_state t = TCP_SYN_RECEIVED \<and> r_next (v1_recv t) = 1001 \<and>
       s_next (v1_send t) = iss + 1)"

definition open_v1 where
  "open_v1 m k c iss n \<longleftrightarrow> net_ok n \<and> nt_time n = k + 2 \<and>
     (\<exists>t. view_v1 (nt_srv n) = m(client_flow c \<mapsto> t) \<and> v1_state t = TCP_ESTABLISHED \<and> r_next (v1_recv t) = 1001 \<and>
       s_next (v1_send t) = iss + 1)"

lemma syn_answered_v1:
  fixes e :: "nat \<Rightarrow> v1_env"
  assumes "listening_v1 raw dissect answers e m k c iss n"
  shows "\<exists>r n'. sr1_v1 verbose raw dissect answers e n (packet_of c 0x02 (my_seq c) 0 []) = Some (Some r, n') \<and>
    pk_flags r = 0x12 \<and> pk_seq r = uint iss \<and> pk_ack r = my_seq c + 1 \<and> half_open_v1 raw dissect answers m k c iss n'"
proof -
  note a = assms [unfolded listening_v1_def]
  let ?syn = "packet_of c 0x02 1000 0 []"
  let ?Q = "\<lambda>r c. \<exists>t. r = syn_reply t \<and> c = Some t \<and> v1_state t = TCP_SYN_RECEIVED \<and> r_next (v1_recv t) = 1001 \<and>
    s_iss (v1_send t) = iss \<and> s_next (v1_send t) = iss + 1"
  have l: "listens e n ?syn (\<lambda>reply c. \<exists>r. reply = Some r \<and> ?Q r c)"
    unfolding listens_def
  proof (intro allI impI)
    fix b
    assume "carries_v1 ?syn b"
    with listen_client_syn [OF this, of "e (nt_time n)"] a obtain t where
      l: "listen_v1 (e (nt_time n)) True b 20 None = Some (Some (syn_reply t), Some t)" and t: "v1_state t = TCP_SYN_RECEIVED"
        "r_next (v1_recv t) = 1001" "s_iss (v1_send t) = iss" "s_next (v1_send t) = iss + 1" by auto
    have "listen_v1 (e (nt_time n)) (\<not> out_of_memory (nt_srv n) (allocs (nt_srv n))) b 20
        (view_v1 (nt_srv n) (flow_v1 ?syn)) = Some (Some (syn_reply t), Some t)" using l a by simp
    moreover have "?Q (syn_reply t) (Some t)" using t by (intro exI [of _ t]) simp
    ultimately show "\<exists>reply c'. listen_v1 (e (nt_time n)) (\<not> out_of_memory (nt_srv n) (allocs (nt_srv n))) b 20
        (view_v1 (nt_srv n) (flow_v1 ?syn)) = Some (reply, c') \<and> (\<exists>r. reply = Some r \<and> ?Q r c')"
      by (intro exI [of _ "Some (syn_reply t)"] exI [of _ "Some t"] conjI exI [of _ "syn_reply t"] refl)
  qed
  have rng: "packet_in_range ?syn" using a by (simp add: packet_in_range_def packet_of_def)
  have ans: "\<forall>r c. ?Q r c \<longrightarrow> length (rp_body r) \<le> 1460 \<and> answering ?syn (answer_to ?syn r)"
    by (auto simp: answering_def answer_to_def packet_of_def syn_reply_def)
  have sc: "scapy_ok raw dissect answers" and ok: "net_ok n" using a by simp_all
  from sr1_v1_answered [where verbose = verbose, OF sc ok rng l ans]
  obtain r c1 n1 where n1: "sr1_v1 verbose raw dissect answers e n ?syn = Some (Some (answer_to ?syn r), n1)" "net_ok n1"
    "nt_time n1 = nt_time n + 1" "view_v1 (nt_srv n1) = (view_v1 (nt_srv n))(flow_v1 ?syn := c1)" "?Q r c1" by blast
  then show ?thesis
    using a by (intro exI [of _ "answer_to ?syn r"] exI [of _ n1])
      (auto simp: half_open_v1_def answer_to_def syn_reply_def)
qed

lemma ack_taken_v1:
  assumes "half_open_v1 raw dissect answers m k c iss n"
  shows "\<exists>n'. send_v1 verbose raw e n (packet_of c 0x10 (my_seq c + 1) (uint iss + 1) []) = Some n' \<and> open_v1 m k c iss n'"
proof -
  note a = assms [unfolded half_open_v1_def]
  from a obtain t where v: "view_v1 (nt_srv n) = m(client_flow c \<mapsto> t)" and t: "v1_state t = TCP_SYN_RECEIVED"
    "r_next (v1_recv t) = 1001" "s_next (v1_send t) = iss + 1" by blast
  let ?u = "t\<lparr>v1_state := TCP_ESTABLISHED, v1_send := (v1_send t)\<lparr>s_unac := s_next (v1_send t)\<rparr>\<rparr>"
  let ?ack = "packet_of c 0x10 1001 (uint iss + 1) []"
  have "packet_in_range ?ack" using a by (simp add: packet_in_range_def packet_of_def)
  moreover have "listens e n ?ack (\<lambda>reply c'. c' = Some ?u)"
    using listen_client_ack [OF _ t(1), of c 1001 "uint iss + 1"] t(3) v by (simp add: listens_def)
  ultimately obtain n' where n': "send_v1 verbose raw e n ?ack = Some n'" "net_ok n'" "nt_time n' = nt_time n + 1"
    "view_v1 (nt_srv n') = (view_v1 (nt_srv n))(flow_v1 ?ack \<mapsto> ?u)"
    using send_v1_run [where verbose = verbose] a by blast
  have "open_v1 m k c iss n'" unfolding open_v1_def using n' a v t by (intro conjI exI [of _ ?u]) simp_all
  with n'(1) a show ?thesis by simp
qed

interpretation peer_v1: handshake_peer "sr1_v1 verbose raw dissect answers e" "send_v1 verbose raw e"
  "listening_v1 raw dissect answers e m k" "half_open_v1 raw dissect answers m k" "open_v1 m k"
  for verbose raw dissect answers e m k
  by unfold_locales (rule syn_answered_v1, assumption, rule ack_taken_v1)

lemma handshake_v1:
  fixes e :: "nat \<Rightarrow> v1_env"
  assumes "scapy_ok raw dissect answers" "net_ok n"
    and "0 \<le> cl_src_port c" "cl_src_port c < 65536" "0 \<le> cl_dst_port c" "cl_dst_port c < 65536" "my_seq c = 1000"
    and "view_v1 (nt_srv n) (client_flow c) = None" "\<not> out_of_memory (nt_srv n) (allocs (nt_srv n))"
    and "uint (tcp_get_ticks (e (nt_time n))) < 2147483647"
  defines "iss \<equiv> tcp_get_ticks (e (nt_time n))"
  shows "\<exists>d n' t. handshake (sr1_v1 verbose raw dissect answers e) (send_v1 verbose raw e) c n =
       Some (True, d, c\<lparr>their_seq := uint iss + 1, my_seq := 1001, cl_state := ESTABLISHED\<rparr>, n') \<and>
     net_ok n' \<and> nt_time n' = nt_time n + 2 \<and> view_v1 (nt_srv n') = (view_v1 (nt_srv n))(client_flow c \<mapsto> t) \<and>
     v1_state t = TCP_ESTABLISHED \<and> r_next (v1_recv t) = 1001 \<and> s_next (v1_send t) = iss + 1"
proof -
  have "listening_v1 raw dissect answers e (view_v1 (nt_srv n)) (nt_time n) c iss n"
    using assms by (simp add: listening_v1_def)
  from peer_v1.handshake_succeeds [OF this, of verbose] show ?thesis
    using assms(7) by (fastforce simp: open_v1_def)
qed

lemma uint_plus_small: "0 \<le> k \<Longrightarrow> 0 \<le> l \<Longrightarrow> k + l < 4294967296 \<Longrightarrow> uint (word_of_int k + word_of_int l :: u32) = k + l"
  using uint_of_small [of "k + l"] by simp

text \<open>Page and memory of the server allow the file \<open>f\<close> to be served.\<close>

definition serves :: "v1_env \<Rightarrow> byte list \<Rightarrow> bool" where
  "serves e f \<longleftrightarrow> he_file (http e) ''./network/http/assets/Hello.html'' = Some f \<and> length f \<le> he_read (http e) \<and>
     length f \<le> 1200 \<and> he_malloc_file (http e) \<and> he_malloc_response (http e)"

lemma listen_client_get:
  fixes data f :: "byte list"
  assumes "carries_v1 (packet_of c 0x18 q a data) b" "4 \<le> length data" "take 4 data = bytes_of ''GET ''"
    and "v1_state t = TCP_ESTABLISHED" "serves e f"
    and "sint (r_next (v1_recv t)) + int (length data) < 2147483648" "sint (s_next (v1_send t)) + 1300 < 2147483648"
  defines "m \<equiv> ok_headers (length f) @ f"
  defines "u \<equiv> t\<lparr>v1_recv := (v1_recv t)\<lparr>r_next := r_next (v1_recv t) + word_of_int (int (length data))\<rparr>\<rparr>"
  shows "listen_v1 e mem b 20 (Some t) = Some (Some (ack_reply u m),
      Some (u\<lparr>v1_send := (v1_send t)\<lparr>s_next := s_next (v1_send t) + word_of_int (int (length m))\<rparr>\<rparr>))"
    and "m \<noteq> []" "length m \<le> 1291"
proof -
  have b: "at_v1 b 20" "20 = hlen_high (peek8 b (20 + 12))" "int (length data) = data_len_v1 b 20"
    "flags_of (peek8 b (20 + 13)) = flags_of 0x18" "bytes_at b 40 (int (length data)) = data"
    using assms(1) by (auto simp: carries_v1_def packet_of_def)
  have "bytes_at b 40 4 = take 4 (bytes_at b 40 (int (length data)))" using assms(2) by (simp add: bytes_at_def min_def)
  with b(5) assms(3) have get: "bytes_at b (20 + 20) 4 = bytes_of ''GET ''" by simp
  have "4 \<le> int (length data)" "\<not> f_rst (flags_of (peek8 b (20 + 13)))" "\<not> f_fin (flags_of (peek8 b (20 + 13)))"
    using assms(2) b(4) by (simp_all add: flags_of_client)
  note listen = listen_get [OF b(1,2) order.refl b(3) this(1) assms(4) this(2,3) get, of e f]
  show "listen_v1 e mem b 20 (Some t) = Some (Some (ack_reply u m),
      Some (u\<lparr>v1_send := (v1_send t)\<lparr>s_next := s_next (v1_send t) + word_of_int (int (length m))\<rparr>\<rparr>))"
    "m \<noteq> []" "length m \<le> 1291"
    using listen assms(5-7) unfolding m_def u_def serves_def by auto
qed

lemma send_data_v1:
  fixes e :: "nat \<Rightarrow> v1_env"
  assumes "scapy_ok raw dissect answers" "net_ok n" "in_step c t" "view_v1 (nt_srv n) (client_flow c) = Some t"
    and data: "4 \<le> length data" "length data \<le> 1460" "take 4 data = bytes_of ''GET ''"
    and "serves (e (nt_time n)) f" "my_seq c + int (length data) < 2147483648" "their_seq c + 1300 < 2147483648"
  shows "\<exists>pkt r n' t'. send_data (sr1_v1 verbose raw dissect answers e) data c n =
       Some (True, [(OUTGOING_DATA, pkt), (INCOMING_RESPONSE, r)],
         c\<lparr>my_seq := my_seq c + int (length data), their_seq := their_seq c + int (length (pk_load r))\<rparr>, n') \<and>
     net_ok n' \<and> nt_time n' = nt_time n + 1 \<and> view_v1 (nt_srv n') = (view_v1 (nt_srv n))(client_flow c \<mapsto> t') \<and>
     in_step (c\<lparr>my_seq := my_seq c + int (length data), their_seq := their_seq c + int (length (pk_load r))\<rparr>) t' \<and>
     pk_load r = ok_headers (length f) @ f \<and> length (pk_load r) \<le> 1291"
proof -
  let ?p = "packet_of c 0x18 (my_seq c) (their_seq c) data" and ?m = "ok_headers (length f) @ f"
  let ?u = "t\<lparr>v1_recv := (v1_recv t)\<lparr>r_next := r_next (v1_recv t) + word_of_int (int (length data))\<rparr>\<rparr>"
  let ?u' = "?u\<lparr>v1_send := (v1_send t)\<lparr>s_next := s_next (v1_send t) + word_of_int (int (length ?m))\<rparr>\<rparr>"
  note st = assms(3) [unfolded in_step_def]
  have sint: "sint (r_next (v1_recv t)) + int (length data) < 2147483648" "sint (s_next (v1_send t)) + 1300 < 2147483648"
    using st assms(9,10) sint_of_small [of "my_seq c"] sint_of_small [of "their_seq c"] by simp_all
  have est: "v1_state t = TCP_ESTABLISHED" using st by blast
  note listen = listen_client_get [OF _ data(1,3) est assms(8) sint]
  have "81 \<le> length ?m" "length ?m \<le> 1291"
    using assms(8) length_decimal [of "length f" 10] by (auto simp: serves_def length_ok_headers)
  then have m: "?m \<noteq> []" "length ?m \<le> 1291" by auto
  have l: "listens e n ?p (\<lambda>reply c. \<exists>r. reply = Some r \<and> r = ack_reply ?u ?m \<and> c = Some ?u')"
    unfolding listens_def using listen(1) [of c "my_seq c" "their_seq c"] assms(4) by (simp del: length_append)
  have rng: "packet_in_range ?p" using st data(2) by (simp add: packet_in_range_def packet_of_def)
  have ack: "uint (word_of_int (my_seq c) + word_of_int (int (length data)) :: u32) = my_seq c + int (length data)"
    using st assms(9) by (intro uint_plus_small) simp_all
  have seq: "uint (word_of_int (their_seq c) :: u32) = their_seq c" using st by (intro uint_of_small) simp_all
  have "answering ?p (answer_to ?p (ack_reply ?u ?m))"
    using st m(1) ack seq by (simp add: answering_def answer_to_def packet_of_def ack_reply_def)
  then have ans: "\<forall>r c'. r = ack_reply ?u ?m \<and> c' = Some ?u' \<longrightarrow> length (rp_body r) \<le> 1460 \<and> answering ?p (answer_to ?p r)"
    using m(2) by (auto simp: ack_reply_def)
  from sr1_v1_answered [where verbose = verbose, OF assms(1,2) rng l ans] obtain n' where
    n': "sr1_v1 verbose raw dissect answers e n ?p = Some (Some (answer_to ?p (ack_reply ?u ?m)), n')" "net_ok n'"
      "nt_time n' = nt_time n + 1" "view_v1 (nt_srv n') = (view_v1 (nt_srv n))(client_flow c \<mapsto> ?u')" by auto
  let ?r = "answer_to ?p (ack_reply ?u ?m)" and ?c = "c\<lparr>my_seq := my_seq c + int (length data), their_seq := their_seq c + int (length ?m)\<rparr>"
  have load: "pk_load ?r = ?m" by (simp add: answer_to_def ack_reply_def)
  have "send_data (sr1_v1 verbose raw dissect answers e) data c n = Some (True, [(OUTGOING_DATA, ?p), (INCOMING_RESPONSE, ?r)], ?c, n')"
    using n'(1) st m(1) load by (simp add: send_data_def Let_def)
  moreover have "in_step ?c ?u'" using st assms(9,10) m(2) by (simp add: in_step_def)
  ultimately show ?thesis using n' m(2) load by (intro exI [of _ ?p] exI [of _ ?r] exI [of _ n'] exI [of _ ?u']) simp
qed

lemma close_v1:
  fixes e :: "nat \<Rightarrow> v1_env"
  assumes "scapy_ok raw dissect answers" "net_ok n" "in_step c t" "view_v1 (nt_srv n) (client_flow c) = Some t"
  shows "\<exists>d n' t'. close_client (sr1_v1 verbose raw dissect answers e) (send_v1 verbose raw e) c n =
       Some (True, d, c\<lparr>their_seq := their_seq c + 1, cl_state := CLOSED\<rparr>, n') \<and>
     net_ok n' \<and> nt_time n' = nt_time n + 2 \<and> view_v1 (nt_srv n') = (view_v1 (nt_srv n))(client_flow c \<mapsto> t') \<and>
     v1_state t' = TCP_CLOSE_WAIT \<and> r_next (v1_recv t') = word_of_int (my_seq c + 1) \<and> v1_send t' = v1_send t"
proof -
  let ?fin = "packet_of c 0x11 (my_seq c) (their_seq c) []"
  let ?u = "t\<lparr>v1_recv := (v1_recv t)\<lparr>r_next := word_of_int (my_seq c) + 1\<rparr>\<rparr>"
  let ?u' = "?u\<lparr>v1_state := TCP_CLOSE_WAIT\<rparr>" and ?r = "ack_reply ?u []"
  note st = assms(3) [unfolded in_step_def]
  have est: "v1_state t = TCP_ESTABLISHED" using st by blast
  have l: "listens e n ?fin (\<lambda>reply c. \<exists>r. reply = Some r \<and> r = ?r \<and> c = Some ?u')"
    unfolding listens_def using listen_client_fin [OF _ est, of c "my_seq c" "their_seq c"] assms(4) by simp
  have rng: "packet_in_range ?fin" using st by (simp add: packet_in_range_def packet_of_def)
  have "uint (word_of_int (my_seq c) + 1 :: u32) = my_seq c + 1" using uint_plus_small [of "my_seq c" 1] st by simp
  moreover have seq: "uint (word_of_int (their_seq c) :: u32) = their_seq c" using st by (intro uint_of_small) simp_all
  ultimately have "answering ?fin (answer_to ?fin ?r)"
    using st by (simp add: answering_def answer_to_def packet_of_def ack_reply_def)
  then have ans: "\<forall>r c'. r = ?r \<and> c' = Some ?u' \<longrightarrow> length (rp_body r) \<le> 1460 \<and> answering ?fin (answer_to ?fin r)"
    by (auto simp: ack_reply_def)
  from sr1_v1_answered [where verbose = verbose, OF assms(1,2) rng l ans] obtain n1 where
    n1: "sr1_v1 verbose raw dissect answers e n ?fin = Some (Some (answer_to ?fin ?r), n1)" "net_ok n1"
      "nt_time n1 = nt_time n + 1" "view_v1 (nt_srv n1) = (view_v1 (nt_srv n))(client_flow c \<mapsto> ?u')" by auto
  let ?c = "c\<lparr>their_seq := their_seq c + 1\<rparr>"
  let ?ack = "packet_of ?c 0x10 (my_seq c + 1) (their_seq c + 1) []"
  have "packet_in_range ?ack" using st by (simp add: packet_in_range_def packet_of_def)
  moreover have "listens e n1 ?ack (\<lambda>reply c'. c' = Some ?u')"
    using listen_client_final [of ?c "my_seq c + 1" "their_seq c + 1" _ ?u'] n1(4) by (simp add: listens_def)
  ultimately obtain n2 where n2: "send_v1 verbose raw e n1 ?ack = Some n2" "net_ok n2" "nt_time n2 = nt_time n1 + 1"
    "view_v1 (nt_srv n2) = (view_v1 (nt_srv n1))(flow_v1 ?ack \<mapsto> ?u')"
    using send_v1_run [where verbose = verbose, OF assms(1) n1(2)] by blast
  let ?d = "[(OUTGOING_FIN, ?fin), (INCOMING_FIN_ACK, answer_to ?fin ?r), (OUTGOING_FINAL_ACK, ?ack)]"
  have "pk_seq (answer_to ?fin ?r) = their_seq c" using st seq by (simp add: answer_to_def ack_reply_def)
  then have "close_client (sr1_v1 verbose raw dissect answers e) (send_v1 verbose raw e) c n =
      Some (True, ?d, ?c\<lparr>cl_state := CLOSED\<rparr>, n2)"
    using n1(1) n2(1) st by (simp add: close_client_def Let_def)
  then show ?thesis using n1 n2 by (intro exI [of _ ?d] exI [of _ n2] exI [of _ ?u']) simp
qed

lemma session_v1:
  assumes "scapy_ok raw dissect answers" "net_ok n"
    and "0 \<le> src_port" "src_port < 65536" "0 \<le> dst_port" "dst_port < 65536"
    and "c = TCPClient_init src_ip dst_ip src_port dst_port"
    and "view_v1 (nt_srv n) (client_flow c) = None" "\<not> out_of_memory (nt_srv n) (allocs (nt_srv n))"
    and "uint (tcp_get_ticks (e (nt_time n))) < 2147480000" "serves (e (nt_time n + 2)) f"
    and "4 \<le> length data" "length data \<le> 1460" "take 4 data = bytes_of ''GET ''"
  shows "\<exists>d c' n' r t. menu (sr1_v1 verbose raw dissect answers e) (send_v1 verbose raw e)
       [Handshake_choice, Send_choice data, Close_choice, Exit_choice] c n = Some (d, c', n') \<and>
     (INCOMING_RESPONSE, r) \<in> set d \<and> read_message (pk_load r) = Some (bytes_of ''HTTP/1.1 200 OK'', Some (length f), f) \<and>
     cl_state c' = CLOSED \<and> srv_inv_v1 (nt_srv n') \<and> view_v1 (nt_srv n') = (view_v1 (nt_srv n))(client_flow c \<mapsto> t) \<and>
     my_seq c' = 1001 + int (length data) \<and> their_seq c' = uint (tcp_get_ticks (e (nt_time n))) + 2 + int (length (pk_load r)) \<and>
     v1_state t = TCP_CLOSE_WAIT \<and> r_next (v1_recv t) = word_of_int (my_seq c' + 1) \<and> s_next (v1_send t) = word_of_int (their_seq c' - 1)"
proof -
  let ?sr1 = "sr1_v1 verbose raw dissect answers e" and ?send = "send_v1 verbose raw e"
  let ?iss = "tcp_get_ticks (e (nt_time n))" and ?i = "client_flow c"
  have c: "0 \<le> cl_src_port c" "cl_src_port c < 65536" "0 \<le> cl_dst_port c" "cl_dst_port c < 65536" "my_seq c = 1000"
    using assms(3-7) by (simp_all add: TCPClient_init_def)
  let ?c1 = "c\<lparr>their_seq := uint ?iss + 1, my_seq := 1001, cl_state := ESTABLISHED\<rparr>"
  from handshake_v1 [where verbose = verbose and e = e, OF assms(1,2) c assms(8,9)] assms(10) obtain d1 n1 t1 where
    hs: "handshake ?sr1 ?send c n = Some (True, d1, ?c1, n1)" and n1: "net_ok n1" "nt_time n1 = nt_time n + 2"
      "view_v1 (nt_srv n1) = (view_v1 (nt_srv n))(?i \<mapsto> t1)"
    and t1: "v1_state t1 = TCP_ESTABLISHED" "r_next (v1_recv t1) = 1001" "s_next (v1_send t1) = ?iss + 1" by auto
  let ?c2 = "\<lambda>r. ?c1\<lparr>my_seq := 1001 + int (length data), their_seq := uint ?iss + 1 + int (length (pk_load r))\<rparr>"
  have "in_step ?c1 t1" using t1 c assms(10) by (simp add: in_step_def)
  from send_data_v1 [where verbose = verbose and e = e, OF assms(1) n1(1) this _ assms(12-14), of f] n1 assms(10,11,13)
  obtain pkt r n2 t2 where sd: "send_data ?sr1 data ?c1 n1 = Some (True, [(OUTGOING_DATA, pkt), (INCOMING_RESPONSE, r)], ?c2 r, n2)"
    and n2: "net_ok n2" "view_v1 (nt_srv n2) = (view_v1 (nt_srv n))(?i \<mapsto> t2)" "in_step (?c2 r) t2"
    and r: "pk_load r = ok_headers (length f) @ f" by auto
  from close_v1 [where verbose = verbose and e = e, OF assms(1) n2(1,3)] n2(2) obtain d3 n3 t3 where
    cl: "close_client ?sr1 ?send (?c2 r) n2 = Some (True, d3, (?c2 r)\<lparr>their_seq := their_seq (?c2 r) + 1, cl_state := CLOSED\<rparr>, n3)"
    and n3: "net_ok n3" "view_v1 (nt_srv n3) = (view_v1 (nt_srv n))(?i \<mapsto> t3)"
    and t3: "v1_state t3 = TCP_CLOSE_WAIT" "r_next (v1_recv t3) = word_of_int (my_seq (?c2 r) + 1)" "v1_send t3 = v1_send t2" by auto
  let ?d = "d1 @ [(OUTGOING_DATA, pkt), (INCOMING_RESPONSE, r)] @ d3"
  have "menu ?sr1 ?send [Handshake_choice, Send_choice data, Close_choice, Exit_choice] c n =
      Some (?d, (?c2 r)\<lparr>their_seq := their_seq (?c2 r) + 1, cl_state := CLOSED\<rparr>, n3)"
    using hs sd cl by simp
  moreover have "s_next (v1_send t3) = ?iss + 1 + word_of_int (int (length (pk_load r)))"
    using n2(3) t3(3) by (simp add: in_step_def)
  ultimately show ?thesis
    using n3 t3 r read_ok_headers [of "length f" f]
    by (intro exI [of _ ?d] exI [of _ "(?c2 r)\<lparr>their_seq := their_seq (?c2 r) + 1, cl_state := CLOSED\<rparr>"] exI [of _ n3] exI [of _ r] exI [of _ t3])
      (simp add: net_ok_def)
qed

section \<open>Properties\<close>

text \<open>
  C6: a whole session of the client with the original server. A new client connects to a server
  that does not know it, requests a page and closes the connection. The handshake, the request and the
  closing all succeed: the client receives an HTTP answer that reads as status 200 with the
  content of the file, and ends CLOSED. The server, however, is left with a control block for the
  connection in CLOSE_WAIT, and all other connections are untouched. Both sides account for every
  byte sent, but their numbers end apart: the server counts the client's FIN, which the client does not add
  to its own number, and the client takes the server's ACK for a FIN and expects one number more than the
  server will use. Needed: scapy follows the wire format, memory suffices, the
  file has at most 1200 bytes, and the initial sequence number is not close to the signed limit.
\<close>

theorem client_session_v1:
  assumes "scapy_ok raw dissect answers" "net_ok n"
    and "0 \<le> src_port" "src_port < 65536" "0 \<le> dst_port" "dst_port < 65536"
    and "c = TCPClient_init src_ip dst_ip src_port dst_port"
    and "view_v1 (nt_srv n) (client_flow c) = None" "\<not> out_of_memory (nt_srv n) (allocs (nt_srv n))"
    and "uint (tcp_get_ticks (e (nt_time n))) < 2147480000" "serves (e (nt_time n + 2)) f"
    and "4 \<le> length data" "length data \<le> 1460" "take 4 data = bytes_of ''GET ''"
  shows "\<exists>d c' n' r t. menu (sr1_v1 verbose raw dissect answers e) (send_v1 verbose raw e)
       [Handshake_choice, Send_choice data, Close_choice, Exit_choice] c n = Some (d, c', n') \<and>
     (INCOMING_RESPONSE, r) \<in> set d \<and> read_message (pk_load r) = Some (bytes_of ''HTTP/1.1 200 OK'', Some (length f), f) \<and>
     cl_state c' = CLOSED \<and> srv_inv_v1 (nt_srv n') \<and> view_v1 (nt_srv n') = (view_v1 (nt_srv n))(client_flow c \<mapsto> t) \<and>
     my_seq c' = 1001 + int (length data) \<and> their_seq c' = uint (tcp_get_ticks (e (nt_time n))) + 2 + int (length (pk_load r)) \<and>
     v1_state t = TCP_CLOSE_WAIT \<and> r_next (v1_recv t) = word_of_int (my_seq c' + 1) \<and> s_next (v1_send t) = word_of_int (their_seq c' - 1)"
  using assms by (rule session_v1)

definition sample_net :: net_v1 where
  "sample_net = \<lparr>nt_srv = tcp_init_server_instance (\<lambda>n. False), nt_buf = replicate 1501 0, nt_time = 0\<rparr>"

lemma sample_session_ok:
  "net_ok sample_net" "view_v1 (nt_srv sample_net) i = None" "\<not> out_of_memory (nt_srv sample_net) (allocs (nt_srv sample_net))"
  "uint (tcp_get_ticks sample_env) = 5000" "serves sample_env (bytes_of ''hello'')"
proof -
  show "net_ok sample_net" "view_v1 (nt_srv sample_net) i = None" "\<not> out_of_memory (nt_srv sample_net) (allocs (nt_srv sample_net))"
    using srv_inv_v1_start by (simp_all add: net_ok_def sample_net_def tcp_init_server_instance_def)
  show "uint (tcp_get_ticks sample_env) = 5000" by code_simp
  show "serves sample_env (bytes_of ''hello'')" by (simp add: serves_def sample_env_def sample_http_def)
qed

theorem client_session_v1_witness:
  "\<exists>d c' n' r t. menu (sr1_v1 True sample_raw sample_dissect answering (\<lambda>k. sample_env)) (send_v1 True sample_raw (\<lambda>k. sample_env))
       [Handshake_choice, Send_choice (bytes_of ''GET / HTTP/1.1''), Close_choice, Exit_choice] sample_client sample_net = Some (d, c', n') \<and>
     (INCOMING_RESPONSE, r) \<in> set d \<and> read_message (pk_load r) = Some (bytes_of ''HTTP/1.1 200 OK'', Some 5, bytes_of ''hello'') \<and>
     cl_state c' = CLOSED \<and> view_v1 (nt_srv n') (client_flow sample_client) = Some t \<and> v1_state t = TCP_CLOSE_WAIT"
proof -
  let ?data = "bytes_of ''GET / HTTP/1.1''"
  have "take 4 ?data = bytes_of ''GET ''" "length ?data = 14" "length (bytes_of ''hello'') = 5" by code_simp+
  with client_session_v1 [OF sample_scapy_ok sample_session_ok(1), of 51000 8080 sample_client "0x0100000a" "0x0200000a"
      "\<lambda>k. sample_env" "bytes_of ''hello''" ?data True] sample_session_ok(2-5)
  show ?thesis by (auto simp: sample_client_def simp del: length_bytes_of menu.simps)
qed

end
