(* ===== verification/V1_Run.thy ===== *)
theory V1_Run
  imports V1_Conversation Handshake
begin

text \<open>
  Whole runs of the original server: \<open>read_loop\<close> of \<open>main.c\<close> over any sequence of packets, as a
  trace of its connections. Shown of every run that has defined behaviour: a connected
  connection went through a handshake, every control block is well formed, and a connection in
  CLOSE_WAIT is never released unless the peer resets it.
\<close>

section \<open>Traces of the loop\<close>

text \<open>The segments the loop hands to the TCP dispatcher: identity and flags, in order of arrival.\<close>

fun heard_v1 :: "bool \<Rightarrow> read_v1 list \<Rightarrow> buffer \<Rightarrow> server_v1 \<Rightarrow> (TCP_Connection_ID \<times> Flags) list" where
  "heard_v1 verbose [] tu s = []"
| "heard_v1 verbose (r # rs) tu s =
     (if rd_packet r = [] then []
      else let b = received_v1 tu (rd_packet r)
           in (if packet_deserialize b = Some IPV4_TCP then [(id_v1 b (ihl_of b), flags_v1 b (ihl_of b))] else []) @
              (case parse_packet verbose (rd_env r) s b of None \<Rightarrow> [] | Some (ret, w, b, s) \<Rightarrow> heard_v1 verbose rs b s))"

text \<open>One segment, as the specification of the dispatcher treats its connection.\<close>

definition listen_step :: "TCP_Connection_ID \<times> Flags \<Rightarrow> TCB_v1 option \<Rightarrow> TCB_v1 option \<Rightarrow> bool" where
  "listen_step g c c' \<longleftrightarrow> (\<exists>e mem b off reply. at_v1 b off \<and> g = (id_v1 b off, flags_v1 b off) \<and>
     listen_v1 e mem b off c = Some (reply, c'))"

lemma parse_packet_other:
  assumes "length b = 1501" "packet_deserialize b \<noteq> Some IPV4_TCP" "parse_packet print e s b = Some (ret, w, b', s')"
  shows "ret = 0 \<and> length b' = 1501 \<and> s' = s"
proof -
  have ld: "load8 b 0 = Some (peek8 b 0)" using assms(1) by (simp add: in_range_def mem_simps)
  obtain op where op: "packet_deserialize b = Some op" using packet_deserialize_decides [of b] assms(1) by simp
  show ?thesis
  proof (cases op)
    case IPV4_ICMP
    with parse_icmp [OF assms(1), of print e s] op assms(3) show ?thesis by (auto split: if_splits)
  qed (use op ld assms in \<open>auto simp: parse_packet_def\<close>)
qed

lemma read_loop_trace:
  "srv_inv_v1 s \<Longrightarrow> length tu = 1501 \<Longrightarrow> read_loop verbose rs tu s out = Some (failed, out', s') \<Longrightarrow>
   trace listen_step (heard_v1 verbose rs tu s) (view_v1 s) (view_v1 s')"
proof (induction rs arbitrary: tu s out)
  case (Cons r rs)
  let ?b = "received_v1 tu (rd_packet r)" and ?e = "rd_env r"
  have len: "length ?b = 1501" using Cons.prems(2) by (rule length_received_v1)
  show ?case
  proof (cases "rd_packet r = []")
    case False
    with Cons.prems(3) obtain ret w b1 s1 where run: "parse_packet verbose ?e s ?b = Some (ret, w, b1, s1)"
      by (auto simp: bind_eq_Some_conv)
    from parse_packet_total [OF Cons.prems(1) len, of verbose ?e] run
    have ok: "\<not> faulty_packet verbose ?e s ?b" "ret = 0" "length b1 = 1501" "srv_inv_v1 s1" by (auto split: if_splits)
    have rest: "trace listen_step (heard_v1 verbose rs b1 s1) (view_v1 s1) (view_v1 s')"
      using Cons.prems(3) False run ok by (intro Cons.IH [of s1 b1 "out @ w"]) simp_all
    show ?thesis
    proof (cases "packet_deserialize ?b = Some IPV4_TCP")
      case True
      let ?i = "id_v1 ?b (ihl_of ?b)"
      from ok(1) True obtain reply c where
        spec: "listen_v1 ?e (\<not> out_of_memory s (allocs s)) ?b (ihl_of ?b) (view_v1 s ?i) = Some (reply, c)"
        and quiet: "verbose \<longrightarrow> uint (htons (peek16 ?b 2)) \<le> 1501"
        by (fastforce simp: faulty_packet_def ip_header_def)
      from parse_tcp_run [OF Cons.prems(1) len True quiet spec] run have "view_v1 s1 = (view_v1 s)(?i := c)" by auto
      then have "view_v1 s1 j = view_v1 s j \<or> j = fst (?i, flags_v1 ?b (ihl_of ?b)) \<and>
          listen_step (?i, flags_v1 ?b (ihl_of ?b)) (view_v1 s j) (view_v1 s1 j)" for j
        using spec packet_deserialize_cases [OF len] True by (auto simp: listen_step_def)
      from trace.more [OF this rest] show ?thesis using False True run by (simp add: Let_def)
    next
      case other: False
      with parse_packet_other [OF len other run] rest False run show ?thesis by simp
    qed
  qed (use Cons.prems in \<open>auto intro: trace.start\<close>)
qed (auto intro: trace.start)

section \<open>The state machine\<close>

inductive con_step_v1 :: "Flags \<Rightarrow> TCP_State option \<Rightarrow> TCP_State option \<Rightarrow> bool" for fl where
  stays: "con_step_v1 fl x x"
| reset: "f_rst fl \<Longrightarrow> con_step_v1 fl x None"
| opened: "f_syn fl \<Longrightarrow> \<not> f_ack fl \<Longrightarrow> \<not> f_rst fl \<Longrightarrow> con_step_v1 fl None (Some TCP_SYN_RECEIVED)"
| confirmed: "f_ack fl \<Longrightarrow> \<not> f_syn fl \<Longrightarrow> \<not> f_rst fl \<Longrightarrow>
    con_step_v1 fl (Some TCP_SYN_RECEIVED) (Some TCP_ESTABLISHED)"
| closed: "f_fin fl \<Longrightarrow> \<not> f_rst fl \<Longrightarrow> con_step_v1 fl (Some TCP_ESTABLISHED) (Some TCP_CLOSE_WAIT)"

inductive_cases to_SYN_RECEIVED_v1: "con_step_v1 fl x (Some TCP_SYN_RECEIVED)"
inductive_cases to_ESTABLISHED_v1: "con_step_v1 fl x (Some TCP_ESTABLISHED)"
inductive_cases to_CLOSE_WAIT_v1: "con_step_v1 fl x (Some TCP_CLOSE_WAIT)"

text \<open>The cases of the specification, for a connection that exists.\<close>

lemma reset_v1_cases:
  assumes "reset_v1 b off t = Some (reply, c)"
  shows "reply = None \<and> (c = None \<or> c = Some t)"
  using assms by (auto simp: reset_v1_def Let_def split: if_splits)

lemma sent_block_Some:
  "sent_block t m = Some t' \<longleftrightarrow> (if m = [] then t' = t
     else \<exists>x. int_add (s_next (v1_send t)) (word_of_int (int (length m))) = Some x \<and>
       t' = t\<lparr>v1_send := (v1_send t)\<lparr>s_next := x\<rparr>\<rparr>)"
  by (auto simp: sent_block_def bind_eq_Some_conv)

lemma data_v1_cases:
  assumes "at_v1 b off" "data_v1 e b off t = Some (reply, c)"
  obtains "c = Some t"
    | x y k l where "0 < k" "k < 65536" "0 < l" "l \<le> 1501" "int_add (r_next (v1_recv t)) (word_of_int k) = Some x"
      "int_add (s_next (v1_send t)) (word_of_int l) = Some y"
      "c = Some (t\<lparr>v1_recv := (v1_recv t)\<lparr>r_next := x\<rparr>, v1_send := (v1_send t)\<lparr>s_next := y\<rparr>\<rparr>)"
proof (cases "data_len_v1 b off \<le> 0")
  case True
  with assms(2) that(1) show ?thesis by (simp add: data_v1_def)
next
  case False
  let ?h = "hlen_high (peek8 b (off + 12))" and ?n = "data_len_v1 b off"
  note at = at_v1D [OF assms(1)]
  have h: "0 \<le> ?h" by (rule hlen_high_bounds)
  have n: "?n < 65536" using at h uint_lt2p [of "htons (peek16 b 2)"] by (simp add: data_len_v1_def)
  from assms(2) False obtain m k x t' where
    m: "http_handle_request (http e) b (off + ?h) ?n = Some (m, k)"
    and x: "int_add (r_next (v1_recv t)) (word_of_int ?n) = Some x"
    and t': "sent_block (t\<lparr>v1_recv := (v1_recv t)\<lparr>r_next := x\<rparr>\<rparr>) m = Some t'"
    and c: "off + ?h + int (length m) \<le> 1501" "c = Some t'"
    by (auto simp: data_v1_def Let_def bind_eq_Some_conv split: if_splits)
  have "m \<noteq> []" using http_handle_request_len [OF m] by blast
  with t' obtain y where y: "int_add (s_next (v1_send t)) (word_of_int (int (length m))) = Some y"
    "t' = t\<lparr>v1_recv := (v1_recv t)\<lparr>r_next := x\<rparr>, v1_send := (v1_send t)\<lparr>s_next := y\<rparr>\<rparr>"
    by (auto simp: sent_block_Some)
  show ?thesis
    using that(2) [OF _ n _ _ x y(1)] \<open>m \<noteq> []\<close> False at h c y(2) by simp
qed

lemma listen_con_step:
  assumes "at_v1 b off" "listen_v1 e mem b off c = Some (reply, c')"
  shows "con_step_v1 (flags_v1 b off) (map_option v1_state c) (map_option v1_state c')"
proof (cases c)
  case None
  with assms(2) show ?thesis
    by (auto simp: listen_v1_def unknown_v1_def syn_block_def new_block_def Let_def split: if_splits intro: con_step_v1.intros)
next
  case (Some t)
  show ?thesis
  proof (cases "f_rst (flags_v1 b off)")
    case True
    with assms(2) Some reset_v1_cases [of b off t reply c'] show ?thesis by (auto simp: listen_v1_def intro: con_step_v1.intros)
  next
    case False
    with assms(2) Some have k: "known_v1 e b off t = Some (reply, c')" by (simp add: listen_v1_def)
    show ?thesis
    proof (cases "v1_state t")
      case TCP_ESTABLISHED
      show ?thesis
      proof (cases "f_fin (flags_v1 b off)")
        case True
        with k False Some TCP_ESTABLISHED show ?thesis by (auto simp: known_v1_def Let_def intro: con_step_v1.intros)
      next
        case nofin: False
        with k TCP_ESTABLISHED have "data_v1 e b off t = Some (reply, c')" by (simp add: known_v1_def)
        with assms(1) show ?thesis
          by (rule data_v1_cases) (use Some in \<open>auto intro: con_step_v1.stays\<close>)
      qed
    qed (use k False Some in \<open>auto simp: known_v1_def syn_block_def Let_def split: if_splits intro: con_step_v1.intros\<close>)
  qed
qed

interpretation hs1: handshake_machine listen_step "\<lambda>t. v1_state t = TCP_SYN_RECEIVED"
  "\<lambda>t. v1_state t = TCP_ESTABLISHED \<or> v1_state t = TCP_CLOSE_WAIT"
proof unfold_locales
  fix g a t
  assume "listen_step g a (Some t)"
  then have st: "con_step_v1 (snd g) (map_option v1_state a) (Some (v1_state t))"
    using listen_con_step by (fastforce simp: listen_step_def)
  show "(\<exists>u. a = Some u \<and> v1_state u = TCP_SYN_RECEIVED) \<or> plain_syn (fst g) g" if "v1_state t = TCP_SYN_RECEIVED"
    using st that by (cases a) (auto simp: plain_syn_def elim!: to_SYN_RECEIVED_v1)
  show "(\<exists>u. a = Some u \<and> (v1_state u = TCP_ESTABLISHED \<or> v1_state u = TCP_CLOSE_WAIT)) \<or>
      (\<exists>u. a = Some u \<and> v1_state u = TCP_SYN_RECEIVED) \<and> plain_ack (fst g) g"
    if "v1_state t = TCP_ESTABLISHED \<or> v1_state t = TCP_CLOSE_WAIT"
    using st that by (cases a) (auto simp: plain_ack_def elim!: to_ESTABLISHED_v1 to_CLOSE_WAIT_v1)
qed

section \<open>Well-formed blocks\<close>

text \<open>
  What a control block of the original server looks like at any time: the receive buffer has its
  allocated size and is never used, the window is the constant one, the send window came from a
  16-bit field, the sequence numbers are ahead of the initial ones as signed integers, and the oldest unacknowledged
  number is the initial one or the one after it.
\<close>

definition block_wf_v1 :: "TCP_Connection_ID \<Rightarrow> TCB_v1 \<Rightarrow> bool" where
  "block_wf_v1 i t \<longleftrightarrow> v1_id t = i \<and> v1_state t \<in> {TCP_SYN_RECEIVED, TCP_ESTABLISHED, TCP_CLOSE_WAIT} \<and>
     length (v1_buffer t) = 16384 \<and> v1_recv_size t = 0 \<and> v1_recv_consumed t = 0 \<and>
     r_window (v1_recv t) = 8192 \<and> unat (s_window (v1_send t)) < 65536 \<and>
     sint (s_iss (v1_send t)) < sint (s_next (v1_send t)) \<and>
     s_unac (v1_send t) = (if v1_state t = TCP_SYN_RECEIVED then s_iss (v1_send t) else s_iss (v1_send t) + 1) \<and>
     (v1_state t = TCP_SYN_RECEIVED \<longrightarrow> s_next (v1_send t) = s_iss (v1_send t) + 1 \<and> r_next (v1_recv t) = r_irs (v1_recv t) + 1) \<and>
     (v1_state t \<noteq> TCP_CLOSE_WAIT \<longrightarrow> sint (r_irs (v1_recv t)) < sint (r_next (v1_recv t)))"

lemma int_add_grows:
  assumes "int_add a (word_of_int k) = Some x" "0 < k" "k < 2147483648"
  shows "sint a < sint x"
proof -
  have "sint (word_of_int k :: u32) = k" using assms(2,3) by (simp add: signed_of_int signed_take_bit_int_eq_self)
  with assms(1) have "- 2147483648 \<le> sint a + k" "sint a + k < 2147483648" "x = a + word_of_int k"
    by (auto simp: int_add_def split: if_splits)
  with \<open>sint (word_of_int k :: u32) = k\<close> assms(2) show ?thesis
    by (simp add: sint_word_ariths signed_take_bit_int_eq_self)
qed

lemma syn_block_wf:
  assumes "syn_defined e b off" "v1_id t = i" "v1_state t = TCP_SYN_RECEIVED" "length (v1_buffer t) = 16384"
    "v1_recv_size t = 0" "v1_recv_consumed t = 0" "r_window (v1_recv t) = 8192"
  shows "block_wf_v1 i (syn_block e b off t)"
proof -
  have "sint a < sint (a + 1)" if "a \<noteq> 0x7fffffff" for a :: u32
    using int_add_grows [of a 1 "a + 1"] int_add_1 [of a] that by simp
  moreover have "unat (ucast w :: u32) < 65536" for w :: u16
  proof -
    have "unat w < 65536" by simp
    with take_bit_nat_less_eq_self [of 32 "unat w"] have "take_bit 32 (unat w) < 65536" by linarith
    then show ?thesis by (simp add: unsigned_ucast_eq)
  qed
  ultimately show ?thesis
    using assms by (simp add: block_wf_v1_def syn_block_def syn_defined_def Let_def)
qed

lemma data_v1_wf:
  assumes "at_v1 b off" "data_v1 e b off u = Some (reply, Some t)" "v1_state u = TCP_ESTABLISHED" "block_wf_v1 i u"
  shows "block_wf_v1 i t"
  using assms(1,2)
proof (rule data_v1_cases)
  fix x y and k l :: int
  assume grow: "0 < k" "k < 65536" "0 < l" "l \<le> 1501" "int_add (r_next (v1_recv u)) (word_of_int k) = Some x"
    "int_add (s_next (v1_send u)) (word_of_int l) = Some y"
    and t: "Some t = Some (u\<lparr>v1_recv := (v1_recv u)\<lparr>r_next := x\<rparr>, v1_send := (v1_send u)\<lparr>s_next := y\<rparr>\<rparr>)"
  have "sint (r_next (v1_recv u)) < sint x" "sint (s_next (v1_send u)) < sint y"
    using int_add_grows [OF grow(5)] int_add_grows [OF grow(6)] grow by simp_all
  with t assms(3,4) show ?thesis by (auto simp: block_wf_v1_def)
qed (use assms(4) in simp)

lemma known_v1_wf:
  assumes "at_v1 b off" "known_v1 e b off u = Some (reply, Some t)" "block_wf_v1 (id_v1 b off) u"
  shows "block_wf_v1 (id_v1 b off) t"
proof -
  from assms(3) consider "v1_state u = TCP_SYN_RECEIVED" | "v1_state u = TCP_ESTABLISHED" | "v1_state u = TCP_CLOSE_WAIT"
    by (auto simp: block_wf_v1_def)
  then show ?thesis
  proof cases
    case 1
    with assms syn_block_wf [of e b off u "id_v1 b off"] show ?thesis
      by (auto simp: known_v1_def Let_def block_wf_v1_def split: if_splits)
  next
    case 2
    show ?thesis
    proof (cases "f_fin (flags_v1 b off)")
      case True
      with 2 assms show ?thesis by (auto simp: known_v1_def Let_def block_wf_v1_def)
    next
      case False
      with 2 assms(2) have "data_v1 e b off u = Some (reply, Some t)" by (simp add: known_v1_def)
      from data_v1_wf [OF assms(1) this 2 assms(3)] show ?thesis .
    qed
  next
    case 3
    with assms(2,3) show ?thesis by (simp add: known_v1_def)
  qed
qed

lemma listen_step_wf:
  assumes "listen_step g a (Some t)" "\<And>u. a = Some u \<Longrightarrow> block_wf_v1 (fst g) u"
  shows "block_wf_v1 (fst g) t"
proof -
  from assms(1) obtain e mem b off reply where g: "at_v1 b off" "g = (id_v1 b off, flags_v1 b off)"
    and l: "listen_v1 e mem b off a = Some (reply, Some t)" by (auto simp: listen_step_def)
  show ?thesis
  proof (cases a)
    case None
    with l show ?thesis using g syn_block_wf [of e b off "new_block (id_v1 b off)" "id_v1 b off"]
      by (auto simp: listen_v1_def unknown_v1_def Let_def new_block_def split: if_splits)
  next
    case (Some u)
    with assms(2) g have wf: "block_wf_v1 (id_v1 b off) u" by simp
    show ?thesis
    proof (cases "f_rst (flags_v1 b off)")
      case True
      with l Some reset_v1_cases [of b off u reply "Some t"] wf g show ?thesis by (simp add: listen_v1_def)
    next
      case False
      with l Some have "known_v1 e b off u = Some (reply, Some t)" by (simp add: listen_v1_def)
      from known_v1_wf [OF g(1) this wf] g(2) show ?thesis by simp
    qed
  qed
qed

lemma block_in_view:
  assumes "srv_inv_v1 s" "blocks s p = Some t"
  shows "tcp_get_state s (v1_id t) = Some p \<and> view_v1 s (v1_id t) = Some (t\<lparr>v1_next := 0\<rparr>)"
proof -
  have inv: "list_inv s" and p: "p \<in> set (conn_list s)" using assms by (auto simp: srv_inv_v1_def)
  have c: "conns_v1 s (v1_id t) = Some p" using conns_v1_Some_iff [OF inv] p assms(2) by (simp add: block_id_v1_def)
  with view_known [OF c assms(2)] show ?thesis by (simp add: tcp_get_state_eq [OF inv])
qed

section \<open>A client's session is a run of the loop\<close>

definition loops :: "bool \<Rightarrow> net_v1 \<Rightarrow> net_v1 \<Rightarrow> bool" where
  "loops verbose n n' \<longleftrightarrow> (\<exists>rs. \<forall>rs' out. \<exists>out'. read_loop verbose (rs @ rs') (nt_buf n) (nt_srv n) out =
     read_loop verbose rs' (nt_buf n') (nt_srv n') out')"

lemma loops_refl: "loops verbose n n"
  unfolding loops_def by (rule exI [of _ "[]"]) auto

lemma loops_trans: "loops verbose n n1 \<Longrightarrow> loops verbose n1 n2 \<Longrightarrow> loops verbose n n2"
  unfolding loops_def by (metis append.assoc)

lemma loops_deliver:
  assumes "deliver_v1 verbose raw e n p = Some (w, n')" "\<And>x. raw p = Some x \<Longrightarrow> x \<noteq> []"
  shows "loops verbose n n'"
proof -
  from assms obtain x tu s where x: "raw p = Some x" "x \<noteq> []"
    "parse_packet verbose (e (nt_time n)) (nt_srv n) (received_v1 (nt_buf n) x) = Some (0, w, tu, s)"
    "n' = \<lparr>nt_srv = s, nt_buf = tu, nt_time = nt_time n + 1\<rparr>"
    by (auto simp: deliver_v1_def bind_eq_Some_conv split: if_splits)
  then show ?thesis
    unfolding loops_def by (intro exI [of _ "[\<lparr>rd_packet = x, rd_env = e (nt_time n)\<rparr>]"]) auto
qed

lemma loops_client:
  assumes raw: "\<forall>p x. raw p = Some x \<longrightarrow> x \<noteq> []"
    and sr1_def: "sr1 = sr1_v1 verbose raw dissect answers e" and send_def: "send = send_v1 verbose raw e"
  shows "handshake sr1 send c n = Some (ok, d, c', n') \<Longrightarrow> loops verbose n n'"
    and "send_data sr1 data c n = Some (ok, d, c', n') \<Longrightarrow> loops verbose n n'"
    and "close_client sr1 send c n = Some (ok, d, c', n') \<Longrightarrow> loops verbose n n'"
proof -
  have one: "loops verbose n n'" if "sr1 n p = Some (r, n')" for p r n n'
    using that loops_deliver [of verbose raw e n p _ n'] raw by (auto simp: sr1_def sr1_v1_def bind_eq_Some_conv)
  have two: "loops verbose n n'" if "send n p = Some n'" for p n n'
    using that loops_deliver [of verbose raw e n p _ n'] raw by (auto simp: send_def send_v1_def bind_eq_Some_conv)
  show "loops verbose n n'" if "handshake sr1 send c n = Some (ok, d, c', n')"
    using that by (auto simp: handshake_def Let_def bind_eq_Some_conv split: option.splits if_splits
        intro: loops_trans dest!: one two)
  show "loops verbose n n'" if "send_data sr1 data c n = Some (ok, d, c', n')"
    using that by (auto simp: send_data_def Let_def bind_eq_Some_conv loops_refl split: option.splits if_splits dest!: one)
  show "loops verbose n n'" if "close_client sr1 send c n = Some (ok, d, c', n')"
    using that by (auto simp: close_client_def Let_def bind_eq_Some_conv loops_refl split: option.splits if_splits
        intro: loops_trans dest!: one two)
qed

lemma loops_menu:
  assumes raw: "\<forall>p x. raw p = Some x \<longrightarrow> x \<noteq> []"
  shows "menu (sr1_v1 verbose raw dissect answers e) (send_v1 verbose raw e) chs c n = Some (d, c', n') \<Longrightarrow> loops verbose n n'"
proof (induction chs arbitrary: c n d)
  case (Cons ch chs)
  note cl = loops_client [OF raw refl refl]
  show ?case
  proof (cases "ch = Exit_choice")
    case True
    with Cons.prems show ?thesis
      by (auto simp: bind_eq_Some_conv loops_refl split: if_splits dest!: cl(3))
  next
    case False
    with Cons.prems Cons.IH show ?thesis
      by (cases ch) (fastforce simp: bind_eq_Some_conv intro: loops_trans dest!: cl)+
  qed
qed (simp add: loops_refl)

lemma loops_run:
  assumes "loops verbose n n'"
  shows "\<exists>rs out. read_loop verbose rs (nt_buf n) (nt_srv n) [] = Some (False, out, nt_srv n')"
proof -
  from assms obtain rs where "\<forall>rs' out. \<exists>out'. read_loop verbose (rs @ rs') (nt_buf n) (nt_srv n) out =
      read_loop verbose rs' (nt_buf n') (nt_srv n') out'" by (auto simp: loops_def)
  from this [rule_format, of "[]" "[]"] show ?thesis by (intro exI [of _ rs]) auto
qed

text \<open>The session of theory \<open>V1_Conversation\<close>, as a run of the loop from the start of the server.\<close>

lemma sample_session_run:
  "\<exists>rs out s' t. read_loop True rs (replicate 1501 0) (tcp_init_server_instance (\<lambda>n. False)) [] = Some (False, out, s') \<and>
     view_v1 s' (client_flow sample_client) = Some t \<and> v1_state t = TCP_CLOSE_WAIT"
proof -
  let ?data = "bytes_of ''GET / HTTP/1.1''" and ?sr1 = "sr1_v1 True sample_raw sample_dissect answering (\<lambda>k. sample_env)"
  have "take 4 ?data = bytes_of ''GET ''" "length ?data = 14" by code_simp+
  with session_v1 [OF sample_scapy_ok sample_session_ok(1), of 51000 8080 sample_client "0x0100000a" "0x0200000a"
      "\<lambda>k. sample_env" "bytes_of ''hello''" ?data True] sample_session_ok(2-5)
  obtain d c' n' t where m: "menu ?sr1 (send_v1 True sample_raw (\<lambda>k. sample_env))
      [Handshake_choice, Send_choice ?data, Close_choice, Exit_choice] sample_client sample_net = Some (d, c', n')"
    and t: "view_v1 (nt_srv n') (client_flow sample_client) = Some t" "v1_state t = TCP_CLOSE_WAIT"
    by (auto simp: sample_client_def simp del: length_bytes_of menu.simps)
  have "\<forall>p x. sample_raw p = Some x \<longrightarrow> x \<noteq> []" by (simp add: sample_raw_def)
  from loops_run [OF loops_menu [OF this m]] t show ?thesis by (auto simp: sample_net_def)
qed

section \<open>Properties\<close>

text \<open>
  C35: no connection without a handshake in the original server. If a run of its loop from the
  start, with any packets, allocation failures and surroundings, ends with a connection in
  ESTABLISHED or CLOSE_WAIT, then the loop received, in this order, a plain SYN and later an ACK without SYN and
  RST with exactly that connection's addresses and ports.
\<close>

theorem established_by_handshake_v1:
  assumes "read_loop verbose rs (replicate 1501 0) (tcp_init_server_instance failing) [] = Some (failed, out, s')"
    and "view_v1 s' i = Some t" "v1_state t = TCP_ESTABLISHED \<or> v1_state t = TCP_CLOSE_WAIT"
  shows "\<exists>H1 g H2. heard_v1 verbose rs (replicate 1501 0) (tcp_init_server_instance failing) = H1 @ g # H2 \<and>
    plain_ack i g \<and> (\<exists>f \<in> set H1. plain_syn i f)"
proof -
  have start: "view_v1 (tcp_init_server_instance failing) = (\<lambda>i. None)" using srv_inv_v1_start(2) by blast
  have "trace listen_step (heard_v1 verbose rs (replicate 1501 0) (tcp_init_server_instance failing)) (\<lambda>i. None) (view_v1 s')"
    using read_loop_trace [OF srv_inv_v1_start(1) _ assms(1)] start by simp
  from hs1.connected_has_handshake [OF this assms(2,3)] show ?thesis by (simp add: handshake_in_def)
qed

theorem established_by_handshake_v1_witness:
  "\<exists>rs. \<exists>g \<in> set (heard_v1 True rs (replicate 1501 0) (tcp_init_server_instance (\<lambda>n. False))). plain_ack (client_flow sample_client) g"
  using sample_session_run established_by_handshake_v1 [where verbose = True and failing = "\<lambda>n. False" and i = "client_flow sample_client"]
  by (metis in_set_conv_decomp)

text \<open>
  C36: the type of the original server's control blocks. Throughout any run of its loop from the start,
  every block on the heap is found by the search for its own identity and is well formed: it is in
  one of the three states the program reaches, its 16384-byte receive buffer has never been used,
  its receive window is 8192, its next sequence numbers lie ahead of the initial ones as signed
  integers, except that the peer's may be anything after a FIN, and the oldest unacknowledged number never moves beyond the handshake.
\<close>

theorem blocks_wf_v1:
  assumes "read_loop verbose rs (replicate 1501 0) (tcp_init_server_instance failing) [] = Some (failed, out, s')"
    and "blocks s' p = Some t"
  shows "block_wf_v1 (v1_id t) t \<and> tcp_get_state s' (v1_id t) = Some p"
proof -
  have start: "view_v1 (tcp_init_server_instance failing) = (\<lambda>i. None)" using srv_inv_v1_start(2) by blast
  have inv: "srv_inv_v1 s'" using read_loop_ok [OF srv_inv_v1_start(1) _ _ assms(1)] by simp
  note b = block_in_view [OF inv assms(2)]
  have "trace listen_step (heard_v1 verbose rs (replicate 1501 0) (tcp_init_server_instance failing)) (\<lambda>i. None) (view_v1 s')"
    using read_loop_trace [OF srv_inv_v1_start(1) _ assms(1)] start by simp
  from trace_invariant [where P = block_wf_v1, OF this _ listen_step_wf] b
  have "block_wf_v1 (v1_id t) (t\<lparr>v1_next := 0\<rparr>)" by simp
  with b show ?thesis by (simp add: block_wf_v1_def)
qed

theorem blocks_wf_v1_witness:
  "\<exists>rs out s' p t. read_loop True rs (replicate 1501 0) (tcp_init_server_instance (\<lambda>n. False)) [] = Some (False, out, s') \<and>
     blocks s' p = Some t \<and> block_wf_v1 (v1_id t) t \<and> tcp_get_state s' (v1_id t) = Some p"
proof -
  from sample_session_run obtain rs out s' t where
    run: "read_loop True rs (replicate 1501 0) (tcp_init_server_instance (\<lambda>n. False)) [] = Some (False, out, s')"
    and v: "view_v1 s' (client_flow sample_client) = Some t" by blast
  from v obtain p u where "blocks s' p = Some u" by (auto simp: view_v1_def contents_def split: option.splits)
  with run blocks_wf_v1 [OF run this] show ?thesis by blast
qed

text \<open>
  C37: closed connections are never released. A connection of the original server that is in
  CLOSE_WAIT keeps its control block, unchanged in every field, whatever packets the loop processes, as long as
  none of them is a reset of that connection; so every peer that closes properly leaves a block behind.
\<close>

theorem close_wait_stuck:
  assumes "srv_inv_v1 s" "length tu = 1501" "view_v1 s i = Some t" "v1_state t = TCP_CLOSE_WAIT"
    and "read_loop verbose rs tu s out = Some (failed, out', s')"
    and "\<forall>g \<in> set (heard_v1 verbose rs tu s). fst g = i \<longrightarrow> \<not> f_rst (snd g)"
  shows "view_v1 s' i = Some t"
proof (rule trace_kept [OF read_loop_trace [OF assms(1,2,5)] assms(3)])
  fix g c
  assume "g \<in> set (heard_v1 verbose rs tu s)" "fst g = i" "listen_step g (Some t) c"
  with assms(4,6) show "c = Some t" by (auto simp: listen_step_def listen_v1_def known_v1_def Let_def)
qed

definition second_fin :: "byte list" where
  "second_fin = the (sample_raw (packet_of sample_client 0x11 1015 5001 []))"

theorem close_wait_stuck_witness:
  "\<exists>s t s'. v1_state t = TCP_CLOSE_WAIT \<and> view_v1 s (client_flow sample_client) = Some t \<and>
     read_loop True [\<lparr>rd_packet = second_fin, rd_env = sample_env\<rparr>] (replicate 1501 0) s [] = Some (False, [], s') \<and>
     view_v1 s' (client_flow sample_client) = Some t"
proof -
  let ?p = "packet_of sample_client 0x11 1015 5001 []" and ?tu = "replicate 1501 0 :: buffer"
  let ?b = "received_v1 ?tu second_fin" and ?r = "\<lparr>rd_packet = second_fin, rd_env = sample_env\<rparr>"
  from sample_session_run obtain rs out s t where
    run: "read_loop True rs ?tu (tcp_init_server_instance (\<lambda>n. False)) [] = Some (False, out, s)"
    and t: "view_v1 s (client_flow sample_client) = Some t" "v1_state t = TCP_CLOSE_WAIT" by blast
  have inv: "srv_inv_v1 s" using read_loop_ok [OF srv_inv_v1_start(1) _ _ run] by simp
  have "packet_in_range ?p" by (simp add: packet_in_range_def packet_of_def sample_client_def TCPClient_init_def)
  with sample_scapy_ok have wire: "wire_format ?p second_fin" by (auto simp: scapy_ok_def second_fin_def)
  note del = wire_delivered [OF wire, of ?tu ?b, simplified]
  have fl: "flags_of (peek8 ?b 33) = flags_of 0x11" using del(6) by (simp add: packet_of_def)
  have "listen_v1 sample_env m ?b 20 (Some t) = Some (None, Some t)" for m
    using fl t(2) by (simp add: listen_v1_def known_v1_def flags_of_client Let_def)
  with parse_tcp_run [OF inv del(1,2), of True sample_env None "Some t"] del(3,5,12) t(1) obtain b' s' where
    p: "parse_packet True sample_env s ?b = Some (0, [], b', s')" by (auto simp: sent_v1_def)
  have "second_fin \<noteq> []" using wire by (auto simp: wire_format_def)
  then have r: "read_loop True [?r] ?tu s [] = Some (False, [], s')" and h: "heard_v1 True [?r] ?tu s = [(id_v1 ?b 20, flags_of (peek8 ?b 33))]"
    using p del(2,3) by (simp_all add: Let_def)
  have "\<forall>g \<in> set (heard_v1 True [?r] ?tu s). fst g = client_flow sample_client \<longrightarrow> \<not> f_rst (snd g)"
    unfolding h using fl by (simp add: flags_of_client)
  from close_wait_stuck [OF inv _ t r this] t r show ?thesis by auto
qed

end
