(* ===== verification/V1_Console.thy ===== *)
theory V1_Console
  imports V1_Run
begin

text \<open>
  The console output of \<open>tcp_dispatch\<close> in \<open>network/tcp/tcp.c\<close>: the dispatcher of theory \<open>V1_Tcp\<close>
  with its messages, and with the listing of all connections that verbose mode prints after a
  new one. Shown: printing neither changes what the dispatcher does nor makes it fault, and which
  resets are reported as invalid.
\<close>

definition reset_error :: string where
  "reset_error = ''[ERROR]: Recieved invalid reset request, may or may not be malicioius'' @ NL"

definition ack_error :: string where
  "ack_error = ''[ERROR]: Recieved invalid connection acknowledgement. Failed handshake'' @ NL"

definition flag_debug :: string where
  "flag_debug = ''[DEBUG]: Unexpected flag in SYN_RECIEVED state'' @ NL"

definition tcp_dispatch_console ::
  "bool \<Rightarrow> v1_env \<Rightarrow> server_v1 \<Rightarrow> buffer \<Rightarrow> int \<Rightarrow> (string \<times> int \<times> buffer \<times> server_v1) option" where
  "tcp_dispatch_console verbose e s b tcp = do {
     src_ip \<leftarrow> load32 b IP_src;
     dst_ip \<leftarrow> load32 b IP_dst;
     src_port \<leftarrow> load16 b (tcp + TCP_src_port);
     dst_port \<leftarrow> load16 b (tcp + TCP_dst_port);
     let i = \<lparr>c_src_ip = src_ip, c_src_port = ucast src_port, c_dst_ip = dst_ip, c_dst_port = ucast dst_port\<rparr>;
     flags \<leftarrow> load8 b (tcp + TCP_flags);
     let syn = (flags AND SYN \<noteq> 0);
     let ack = (flags AND ACK \<noteq> 0);
     let fin = (flags AND FIN \<noteq> 0);
     let rst = (flags AND RST \<noteq> 0);
     con_state \<leftarrow> tcp_get_state s i;
     if con_state = 0
     then if rst then Some ([], TCP_SILENT, b, s)
          else if syn \<and> \<not> ack
          then do {
            let (tcb, s) = tcp_init_tcb s i;
            s \<leftarrow> tcp_insert_tcb s tcb;
            (b, s) \<leftarrow> tcp_null_syn_ack e s tcb b tcp;
            if tcb = 0 then Some ([], TCP_SILENT, b, s)
            else do {
              x \<leftarrow> (if verbose
                then do { l \<leftarrow> print_TCP_Server_Instance s; Some (''--- CURRENT STATE --- '' @ NL @ l) }
                else Some []);
              Some (x, 0, b, s)
            }
          }
          else do { b \<leftarrow> tcp_null_rst b tcp; Some ([], 0, b, s) }
     else if rst
     then do {
       (r, s) \<leftarrow> tcp_got_rst s con_state b tcp;
       Some (if \<not> r then reset_error else [], TCP_SILENT, b, s)
     }
     else do {
       t \<leftarrow> block_at (blocks s) con_state;
       (case v1_state t of
         TCP_SYN_RECEIVED \<Rightarrow>
           if syn \<and> \<not> ack
           then do { (b, s) \<leftarrow> tcp_null_syn_ack e s con_state b tcp; Some ([], TCP_SILENT, b, s) }
           else if ack \<and> \<not> syn
           then do {
             let x = (if verbose then ''SESSION INITIALIZED FOR CONNECTION:'' @ NL @ ''   '' @ print_TCP_Connection_ID (v1_id t) else []);
             a \<leftarrow> load32 b (tcp + TCP_ack_num);
             let ack_num = ntohl a;
             if ack_num = s_next (v1_send t)
             then Some (x, TCP_SILENT, b, set_block s con_state
                    (t\<lparr>v1_state := TCP_ESTABLISHED, v1_send := (v1_send t)\<lparr>s_unac := ack_num\<rparr>\<rparr>))
             else Some (x @ ack_error, TCP_SILENT, b, s)
           }
           else Some (flag_debug, TCP_SILENT, b, s)
       | TCP_ESTABLISHED \<Rightarrow>
           if fin
           then do {
             q \<leftarrow> load32 b (tcp + TCP_seq_num);
             let s = set_block s con_state (t\<lparr>v1_recv := (v1_recv t)\<lparr>r_next := ntohl q + 1\<rparr>\<rparr>);
             (b, s) \<leftarrow> tcp_send_ack s con_state b tcp None 0;
             t \<leftarrow> block_at (blocks s) con_state;
             Some ([], 0, b, set_block s con_state (t\<lparr>v1_state := TCP_CLOSE_WAIT\<rparr>))
           }
           else do { (r, b, s) \<leftarrow> tcp_handle_data e s con_state b tcp; Some ([], r, b, s) }
       | _ \<Rightarrow> Some ([], TCP_SILENT, b, s))
     }
   }"

text \<open>What is on the heap can be printed when the blocks are well formed.\<close>

definition blocks_ok :: "server_v1 \<Rightarrow> bool" where
  "blocks_ok s \<longleftrightarrow> (\<forall>p t. blocks s p = Some t \<longrightarrow> block_wf_v1 (v1_id t) t)"

lemma block_wf_v1_next [simp]: "block_wf_v1 i (t\<lparr>v1_next := q\<rparr>) = block_wf_v1 i t"
  by (simp add: block_wf_v1_def)

lemma blocks_ok_view:
  assumes "srv_inv_v1 s"
  shows "blocks_ok s \<longleftrightarrow> (\<forall>i t. view_v1 s i = Some t \<longrightarrow> block_wf_v1 i t)"
proof (intro iffI allI impI)
  fix i t
  assume ok: "blocks_ok s" and v: "view_v1 s i = Some t"
  then obtain p where p: "conns_v1 s i = Some p" by (auto simp: view_v1_def split: option.splits)
  with v obtain u where u: "blocks s p = Some u" "t = u\<lparr>v1_next := 0\<rparr>" by (auto simp: view_v1_def contents_def)
  moreover have "v1_id u = i" using conns_v1_Some_iff [OF srv_inv_v1D [OF assms]] p u(1) by (auto simp: block_id_v1_def)
  ultimately show "block_wf_v1 i t" using ok by (auto simp: blocks_ok_def)
next
  assume ok: "\<forall>i t. view_v1 s i = Some t \<longrightarrow> block_wf_v1 i t"
  have "block_wf_v1 (v1_id t) t" if "blocks s p = Some t" for p t
    using ok [rule_format, of "v1_id t" "t\<lparr>v1_next := 0\<rparr>"] block_in_view [OF assms that] by simp
  then show "blocks_ok s" by (simp add: blocks_ok_def)
qed

lemma print_defined:
  assumes "srv_inv_v1 s" "blocks_ok s"
  shows "print_TCP_Server_Instance s \<noteq> None"
proof -
  have "chain (blocks s) (si_head s) (conn_list s)" using assms(1) by (simp add: srv_inv_v1_def list_inv_def)
  moreover have "sint (v1_recv_size t) \<le> int (length (v1_buffer t))" if "blocks s q = Some t" for q t
    using assms(2) that by (auto simp: blocks_ok_def block_wf_v1_def)
  ultimately show ?thesis using print_list_defined [of "blocks s" "si_head s" "conn_list s" 0]
    by (auto simp: print_TCP_Server_Instance_def)
qed

lemma dispatch_keeps:
  assumes "srv_inv_v1 s" "at_v1 b off" "blocks_ok s" "tcp_dispatch_v1 e s b off = Some (code, b', s')"
  shows "srv_inv_v1 s'" "blocks_ok s'"
proof -
  let ?i = "id_v1 b off"
  from dispatch_matches [OF assms(1,2), of e] assms(4) obtain reply c where
    l: "listen_v1 e (\<not> out_of_memory s (allocs s)) b off (view_v1 s ?i) = Some (reply, c)"
    and s': "srv_inv_v1 s'" "view_v1 s' = (view_v1 s)(?i := c)" by (auto simp: matches_v1_def split: option.splits)
  show "srv_inv_v1 s'" by (rule s'(1))
  have st: "listen_step (?i, flags_v1 b off) (view_v1 s ?i) c" unfolding listen_step_def using l assms(2) by blast
  have old: "block_wf_v1 i t" if "view_v1 s i = Some t" for i t using that assms(3) blocks_ok_view [OF assms(1)] by blast
  have "block_wf_v1 ?i t" if "c = Some t" for t using listen_step_wf [of "(?i, flags_v1 b off)" "view_v1 s ?i" t] st that old by simp
  then show "blocks_ok s'" unfolding blocks_ok_view [OF s'(1)] s'(2) using old by (auto split: if_splits)
qed

text \<open>The dispatcher with console, with its reads done.\<close>

lemma console_unknown:
  assumes "at_v1 b off" "list_inv s" "conns_v1 s (id_v1 b off) = None"
  shows "tcp_dispatch_console verbose e s b off = (let fl = flags_v1 b off in
    if f_rst fl then Some ([], TCP_SILENT, b, s)
    else if f_syn fl \<and> \<not> f_ack fl
    then (case tcp_init_tcb s (id_v1 b off) of (p, s) \<Rightarrow> do {
       s \<leftarrow> tcp_insert_tcb s p;
       (b, s) \<leftarrow> tcp_null_syn_ack e s p b off;
       if p = 0 then Some ([], TCP_SILENT, b, s)
       else do {
         x \<leftarrow> (if verbose then do { l \<leftarrow> print_TCP_Server_Instance s; Some (''--- CURRENT STATE --- '' @ NL @ l) } else Some []);
         Some (x, 0, b, s) } })
    else Some ([], 0, segment_v1 b off (refusal b off), s))"
  using at_v1D [OF assms(1)] assms(2,3) refusal_eq [OF assms(1)]
  by (simp add: tcp_dispatch_console_def tcp_get_state_eq id_v1_def flags_of_def in_range_def mem_simps Let_def)

lemma erase_unknown:
  assumes "srv_inv_v1 s" "at_v1 b off" "blocks_ok s" "conns_v1 s (id_v1 b off) = None"
  shows "map_option snd (tcp_dispatch_console verbose e s b off) = tcp_dispatch_v1 e s b off"
proof (cases "\<not> f_rst (flags_v1 b off) \<and> f_syn (flags_v1 b off) \<and> \<not> f_ack (flags_v1 b off)")
  case False
  then show ?thesis
    unfolding console_unknown [OF assms(2) srv_inv_v1D [OF assms(1)] assms(4)]
      dispatch_unknown [OF assms(2) srv_inv_v1D [OF assms(1)] assms(4)] by (auto simp: Let_def)
next
  case True
  obtain p s1 where init: "tcp_init_tcb s (id_v1 b off) = (p, s1)" by fastforce
  have d: "tcp_dispatch_v1 e s b off = do { s \<leftarrow> tcp_insert_tcb s1 p; (b, s) \<leftarrow> tcp_null_syn_ack e s p b off;
      if p = 0 then Some (TCP_SILENT, b, s) else Some (0, b, s) }"
    unfolding dispatch_unknown [OF assms(2) srv_inv_v1D [OF assms(1)] assms(4)] using True init by (simp add: Let_def)
  note c = console_unknown [OF assms(2) srv_inv_v1D [OF assms(1)] assms(4), of verbose e]
  show ?thesis
  proof (cases "tcp_insert_tcb s1 p")
    case None
    with c d True init show ?thesis by (simp add: Let_def)
  next
    case s2: (Some s2)
    show ?thesis
    proof (cases "tcp_null_syn_ack e s2 p b off")
      case None
      with c d True init s2 show ?thesis by (simp add: Let_def)
    next
      case (Some bs)
      then obtain b' s' where syn: "tcp_null_syn_ack e s2 p b off = Some (b', s')" by (cases bs) auto
      with d s2 have run: "tcp_dispatch_v1 e s b off = Some (if p = 0 then 2 else 0, b', s')" by simp
      from print_defined [OF dispatch_keeps [OF assms(1-3) run]] obtain l where
        "print_TCP_Server_Instance s' = Some l" by blast
      with c d True init s2 syn show ?thesis by (simp add: Let_def)
    qed
  qed
qed

lemma erase_known:
  assumes "srv_inv_v1 s" "at_v1 b off" "conns_v1 s (id_v1 b off) = Some p" "blocks s p = Some t"
  shows "map_option snd (tcp_dispatch_console verbose e s b off) = tcp_dispatch_v1 e s b off"
    and "f_rst (flags_v1 b off) \<Longrightarrow> tcp_dispatch_console verbose e s b off =
      map_option (\<lambda>(r, s). (if \<not> r then reset_error else [], TCP_SILENT, b, s)) (tcp_got_rst s p b off)"
proof -
  note inv = srv_inv_v1D [OF assms(1)]
  from conns_v1_block [OF inv assms(3)] have p: "p \<noteq> 0" by blast
  have st: "tcp_get_state s \<lparr>c_src_ip = peek32 b 12, c_src_port = ucast (peek16 b off), c_dst_ip = peek32 b 16,
      c_dst_port = ucast (peek16 b (off + 2))\<rparr> = Some p"
    using tcp_get_state_eq [OF inv, of "id_v1 b off"] assms(3) by (simp add: id_v1_def)
  have prod: "Option.bind x (\<lambda>(r, s). Some (f r s)) = map_option (\<lambda>(r, s). f r s) x" for f and x :: "('x \<times> 'y) option"
    by (cases x) auto
  have push: "map_option snd (Option.bind y g) = Option.bind y (\<lambda>a. map_option snd (g a))" "Option.bind y Some = y"
    for y :: "'v option" and g :: "'v \<Rightarrow> ('z \<times> 'w) option" by (cases y; auto)+
  show "map_option snd (tcp_dispatch_console verbose e s b off) = tcp_dispatch_v1 e s b off"
    using at_v1D [OF assms(2)] assms(4) p st
    by (cases "f_rst (flags_v1 b off)"; cases "v1_state t")
      (auto simp: tcp_dispatch_v1_def tcp_dispatch_console_def flags_of_def block_at_def in_range_def mem_simps Let_def
        push case_prod_beta' split: option.splits)
  show "tcp_dispatch_console verbose e s b off =
      map_option (\<lambda>(r, s). (if \<not> r then reset_error else [], TCP_SILENT, b, s)) (tcp_got_rst s p b off)"
    if "f_rst (flags_v1 b off)"
    using at_v1D [OF assms(2)] assms(4) p st that
    by (simp add: tcp_dispatch_console_def flags_of_def block_at_def in_range_def mem_simps Let_def prod)
qed

section \<open>Properties\<close>

text \<open>
  C38: the console of the original dispatcher. With well-formed blocks, which is what every run of the
  server has, its messages and the listing of all connections in verbose mode are printed without a
  bad access and change nothing: it returns the same code, packet and connections as without them,
  and faults exactly when it would. Of the resets for an existing connection precisely those that
  are accepted, so that the connection is removed, are reported as invalid, and the rejected ones are not.
\<close>

theorem dispatch_console_conservative:
  assumes "srv_inv_v1 s" "at_v1 b off" "\<forall>p t. blocks s p = Some t \<longrightarrow> block_wf_v1 (v1_id t) t"
  shows "map_option snd (tcp_dispatch_console verbose e s b off) = tcp_dispatch_v1 e s b off \<and>
    (\<forall>t x code b' s'. view_v1 s (id_v1 b off) = Some t \<longrightarrow> f_rst (flags_v1 b off) \<longrightarrow>
       tcp_dispatch_console verbose e s b off = Some (x, code, b', s') \<longrightarrow>
       x = (if view_v1 s' (id_v1 b off) = None then reset_error else []))"
proof (cases "conns_v1 s (id_v1 b off)")
  case None
  with erase_unknown [OF assms(1,2)] assms(3) show ?thesis by (simp add: blocks_ok_def view_v1_def)
next
  case (Some p)
  from conns_v1_block [OF srv_inv_v1D [OF assms(1)] Some] obtain t where t: "blocks s p = Some t" "p \<noteq> 0" by blast
  note known = erase_known [OF assms(1,2) Some t(1), of verbose e]
  have v: "view_v1 s (id_v1 b off) \<noteq> None" using view_known [OF Some t(1)] by simp
  have "x = (if view_v1 s' (id_v1 b off) = None then reset_error else [])"
    if "f_rst (flags_v1 b off)" "tcp_dispatch_console verbose e s b off = Some (x, code, b', s')" for x code b' s'
  proof -
    from that known(2) obtain r where r: "tcp_got_rst s p b off = Some (r, s')" "x = (if \<not> r then reset_error else [])" by auto
    from remove_view [OF assms(1) Some] obtain s1 where
      s1: "tcp_remove_connection s p = Some s1" "view_v1 s1 = (view_v1 s)(id_v1 b off := None)" by blast
    have "r \<longleftrightarrow> view_v1 s' (id_v1 b off) \<noteq> None"
      using r(1) s1 v t by (auto simp: tcp_got_rst_def bind_eq_Some_conv Let_def split: if_splits)
    with r(2) show ?thesis by simp
  qed
  with known(1) show ?thesis by blast
qed

theorem dispatch_console_conservative_witness:
  "map_option snd (tcp_dispatch_console True sample_env (tcp_init_server_instance (\<lambda>n. False)) (syn_packet @ [0]) 20) =
     tcp_dispatch_v1 sample_env (tcp_init_server_instance (\<lambda>n. False)) (syn_packet @ [0]) 20"
  using dispatch_console_conservative [OF srv_inv_v1_start(1) at_v1_syn, of "\<lambda>n. False" True sample_env]
  by (simp add: tcp_init_server_instance_def)

end
