(* ===== verification/Spec2Isabelle.thy ===== *)
theory Spec2Isabelle
  imports Startup Thread_Pool Log_Viewer Conversation V1_Console
begin

text \<open>
  A userspace TCP/IP server for Linux: it creates a TUN device, reads raw IP packets from it and
  answers pings and TCP connections by rewriting each packet in its receive buffer and writing
  it back. The repository holds two programs. The original one (\<open>main.c\<close>, \<open>network/\<close>, \<open>v_device/\<close>,
  \<open>debug/\<close>, \<open>thread_pool/\<close>) keeps its connections in a linked list and serves one HTTP page. The
  refactored one (\<open>refactor/\<close>) validates what it receives, keeps its connections in a hash table
  and has a state machine and a binary log, but no data transfer yet. Both are modelled, and with
  them the two Python programs that talk to them: the viewer of the binary log and a scripted client.

  \<^bold>\<open>How the model relates to C.\<close> Every C function is one definition that takes and returns the
  state it works on; the do-notation follows the statements in their order. \<open>uintN_t\<close> is an \<open>N word\<close>.
  The result \<open>None\<close> is undefined behaviour: an access outside an object, through a null or freed
  pointer, a signed overflow. That an operation is \<open>Some\<close> is therefore a safety statement, and
  in the original program the theorems say exactly when it is not. The packet buffer is a list of bytes,
  accessed at computed offsets with bounds checks (\<open>Memory\<close>); control blocks live on an explicit
  heap with an allocator whose failures are an input. The arrays of the table's buckets are values
  inside the buckets, as nothing else points to them, and the memory counts how many are allocated. Clock, \<open>rand\<close>, system calls, files and
  uninitialised locals are inputs too, so the theorems hold for all their values. Loops over
  lengths are \<open>function\<close>s with a measure; the loops over pointers are partial functions, which are shown
  to return on well-formed lists; the server loops run over the finite sequence of packets read
  so far, so no fuel is needed anywhere.

  \<^bold>\<open>Shared theories.\<close>
  \<^item> \<open>Prelude\<close>: integer types, byte order, header-length nibbles, the theorem collections
    \<open>mem_simps\<close>, \<open>op_simps\<close>, \<open>word_bounds\<close>. \<open>Text_Format\<close>: printed numbers.
  \<^item> \<open>Memory\<close>: buffers; the contract \<open>buffer_cell\<close> of an access of one width, interpreted for
    8, 16 and 32 bits, and \<open>cell_pair\<close> for disjoint accesses.
  \<^item> \<open>Connection_Table\<close>: the contract \<open>connection_table\<close>, a table of blocks that behaves as a map. The
    hash table and the linked list are its two interpretations.
  \<^item> \<open>Handshake\<close>: runs as traces of segments, and the contract \<open>handshake_machine\<close> of a server
    whose connections change by single segments: what is established went through its handshake.
    Both servers are interpretations.
  \<^item> \<open>Client\<close>: the scripted client of \<open>packet_cooking/client.py\<close> and \<open>refactor/tests/catch.py\<close>. Scapy is a
    parameter; \<open>scapy_ok\<close> is what the client relies on: the wire format of packets and the matching of
    answers. The contract \<open>handshake_peer\<close> is what a server owes the client; both are interpretations.

  \<^bold>\<open>The refactored program\<close> (paths below \<open>refactor/\<close>).
  \<^item> \<open>Checksum\<close>: \<open>checksum\<close> of \<open>network/network.c\<close>; equals RFC 1071, verifies after filling in,
    detects a changed word, does not depend on the byte order.
  \<^item> \<open>Ipv4\<close>, \<open>Icmp\<close>: \<open>network/ip.c\<close>, \<open>network/icmp/icmp.c\<close>; what is accepted, what the replies hold.
  \<^item> \<open>Tcb\<close>, \<open>Vector\<close>, \<open>Hash\<close>: \<open>network/tcp/tcb.c\<close>, \<open>vector.c\<close>, \<open>hash.c\<close>; blocks, buckets and table with
    their invariant, refined to a map from connection identities to blocks.
  \<^item> \<open>Segment\<close>: \<open>network/tcp/segment.c\<close> and \<open>tcp_checksum\<close>; the SYN-ACK and RST byte for byte.
  \<^item> \<open>Tcp\<close>: \<open>network/tcp/tcp.c\<close>; the dispatcher implements an abstract listener on the map of
    connections, the state machine, the three-way handshake, resets.
  \<^item> \<open>Network\<close>: \<open>net_demux\<close>; safety and isolation for arbitrary packets.
  \<^item> \<open>Log\<close>, \<open>Server\<close>, \<open>Tun\<close>, \<open>Startup\<close>: \<open>log/log.c\<close>, \<open>tun/tun_device.c\<close> and \<open>main.c\<close>; a run of the server on
    arbitrary packets never faults or leaks, an established connection was preceded by its
    handshake, and what of the descriptors and blocks is given back on each exit and what is not.
  \<^item> \<open>Log_Viewer\<close>: \<open>log/log.py\<close> and the pipe between it and the server; under every schedule of
    writes and reads the viewer prints the server's traffic, packet by packet and in order. Scapy
    and \<open>datetime\<close> are parameters that may raise.
  \<^item> \<open>Conversation\<close>: the client against the server's loop; the handshake succeeds, after it nothing
    the client does but a second handshake is answered.

  \<^bold>\<open>The original program.\<close>
  \<^item> \<open>V1_Net\<close>: \<open>network/network.c\<close>, \<open>network/ip/ip.c\<close>, \<open>network/icmp/icmp.c\<close>; the same echo replies as the
    refactored program, and where they differ.
  \<^item> \<open>V1_Table\<close>: the list part of \<open>network/tcp/tcp.c\<close>; list invariant, insertion, lookup, removal.
  \<^item> \<open>V1_Http\<close>: \<open>network/http/http.c\<close>; an independent HTTP reader understands every answer.
  \<^item> \<open>V1_Tcp\<close>, \<open>V1_Spec\<close>: the rest of \<open>network/tcp/tcp.c\<close>; segments byte for byte, and the dispatcher
    equals the specification \<open>listen_v1\<close>, undefined behaviour included; the replies verify
    under the refactored routines; a GET is served.
  \<^item> \<open>V1_Debug\<close>: \<open>debug/debug.c\<close>; the printed text, its reads, the hex dump read back.
  \<^item> \<open>V1_Main\<close>: \<open>main.c\<close>, \<open>v_device/v_device.c\<close>; exactly which packets break the program, and what
    \<open>main\<close> gives back and what it leaves allocated.
  \<^item> \<open>V1_Wire\<close>, \<open>V1_Conversation\<close>: the client's packets on the wire, and a whole session of the client
    with the server: handshake, request, page, close.
  \<^item> \<open>V1_Run\<close>: whole runs of the packet loop; the handshake history, the well-formedness of the control
    blocks, and that a connection in CLOSE_WAIT is released by a reset only.
  \<^item> \<open>V1_Console\<close>: the messages of the dispatcher; printing is conservative, and which resets are
    reported.
  \<^item> \<open>Thread_Pool\<close>: \<open>thread_pool/thread_pool.c\<close>; the queue is FIFO (contract \<open>bounded_queue\<close>), no job
    is lost, duplicated or reordered under any interleaving, wake-ups are not lost, shutdown terminates and
    gives back what the pool holds.

  \<^bold>\<open>Bounds.\<close> The receive buffers have 1500 and 1501 bytes, as allocated. A theorem on a whole run
  of the refactored server assumes fewer than \<open>2 ^ 31\<close> packets, because the bucket sizes are 32-bit
  counters. Checksum lengths go up to 131072 bytes, where the 32-bit accumulator cannot wrap. The
  size counter of the original list wraps like its bit pattern; it counts blocks of 16 KiB and cannot reach the
  signed limit in practice.

  \<^bold>\<open>Not modelled.\<close> The console messages of \<open>main.c\<close> and \<open>v_device.c\<close>, signal dispositions, the
  file operations on the pipe's path in \<open>log_init\<close> and the shell commands' effects are outside the program's own state;
  the stream that \<open>log_init\<close> opens is counted as one descriptor and one block. Data races on
  the shutdown flag of the signal handler are not considered: the handler's flag is part of each
  step's input. Of the viewer, the keyboard interrupt is left out, and of the client the
  reading of its address and port files. \<open>refactor/shutdown.sh\<close> is a shell script.
  Functions that are declared but never defined (\<open>tcp_ack\<close>,
  \<open>tcp_write\<close>, \<open>tun_print\<close>) have no code to model.
\<close>

end
